(* ===== verification/Prelude.thy ===== *)
theory Prelude
  imports Main "HOL-Library.Word"
begin

text \<open>
  Shared vocabulary of the development: the widths of the C++ integer types the sources
  use, the ways a C++ operation can fail to return normally, \<open>std::vector\<close> indexing, the
  64-bit identifiers whose upper half names a thread and whose lower half names an
  object of that thread, and the generic lemmas the component theories rest on.
\<close>

unbundle bit_operations_syntax

named_theorems id_simps \<open>packing and unpacking 64-bit identifiers\<close>
named_theorems res_simps \<open>propagation of abnormal termination\<close>

section \<open>Machine integers\<close>

type_synonym u8 = "8 word"
type_synonym u16 = "16 word"
type_synonym u32 = "32 word"
type_synonym u64 = "64 word"

text \<open>
  The contents of a \<open>folly::IOBuf\<close> chain; where the boundaries of its buffers matter the
  chain is the list of their contents, and \<open>length()\<close> speaks of the first buffer only.
\<close>

type_synonym iobuf = "u8 list"

definition iobuf_length :: "iobuf list \<Rightarrow> nat" where
  "iobuf_length chain = (case chain of [] \<Rightarrow> 0 | b # _ \<Rightarrow> length b)"

section \<open>Abnormal termination\<close>

text \<open>
  What stops an operation of the program before it returns: undefined behaviour of an
  unchecked vector access or of a null pointer, access to a deleted object, glog's
  \<open>CHECK\<close> and \<open>LOG(FATAL)\<close> (both call \<open>abort\<close>), and the C++ exceptions the sources
  throw or let pass; an exception that leaves the function of a thread terminates the process.
\<close>

datatype abort =
    OutOfRange | NullDeref | UseAfterFree
  | CheckFailed | LogFatal
  | InvalidArgument | TypeError | ParseError | SystemError
  | Terminated

type_synonym 'a res = "abort + 'a"

definition rbind :: "'a res \<Rightarrow> ('a \<Rightarrow> 'b res) \<Rightarrow> 'b res" where
  "rbind r f = (case r of Inl e \<Rightarrow> Inl e | Inr x \<Rightarrow> f x)"

lemma rbind_simps [simp, res_simps]:
  "rbind (Inl e) f = Inl e"
  "rbind (Inr x) f = f x"
  by (simp_all add: rbind_def)

lemma rbind_eq_Inr_iff [res_simps]:
  "rbind r f = Inr y \<longleftrightarrow> (\<exists>x. r = Inr x \<and> f x = Inr y)"
  by (cases r) auto

lemma map_sum_Inr_iff: "map_sum id f r = Inr y \<longleftrightarrow> (\<exists>x. r = Inr x \<and> y = f x)"
  by (cases r) auto

lemma rbind_split:
  "P (rbind r f) \<longleftrightarrow> (\<forall>e. r = Inl e \<longrightarrow> P (Inl e)) \<and> (\<forall>x. r = Inr x \<longrightarrow> P (f x))"
  by (cases r) auto

section \<open>Vectors\<close>

text \<open>\<open>v[i]\<close> on a \<open>std::vector\<close>: unchecked, so an index past the end is undefined behaviour.\<close>

definition vec_at :: "'a list \<Rightarrow> u64 \<Rightarrow> 'a res" where
  "vec_at xs i = (if unat i < length xs then Inr (xs ! unat i) else Inl OutOfRange)"

lemma vec_at_in_range [simp]:
  "unat i < length xs \<Longrightarrow> vec_at xs i = Inr (xs ! unat i)"
  by (simp add: vec_at_def)

lemma vec_at_out_of_range [simp]:
  "length xs \<le> unat i \<Longrightarrow> vec_at xs i = Inl OutOfRange"
  by (simp add: vec_at_def)

lemma vec_at_Inr_iff:
  "vec_at xs i = Inr x \<longleftrightarrow> unat i < length xs \<and> xs ! unat i = x"
  by (auto simp: vec_at_def)

section \<open>Identifiers: thread index in the upper half, object number in the lower half\<close>

definition pack_id :: "u64 \<Rightarrow> u32 \<Rightarrow> u64" where
  "pack_id hi lo = push_bit 32 hi OR ucast lo"

definition id_hi :: "u64 \<Rightarrow> u64" where
  "id_hi x = drop_bit 32 x"

definition id_lo :: "u64 \<Rightarrow> u32" where
  "id_lo x = ucast (x AND 0xffffffff)"

lemma mask32_eq: "(0xffffffff :: u64) = mask 32"
  by (simp add: mask_eq_exp_minus_1)

lemma id_lo_pack_id [simp, id_simps]: "id_lo (pack_id hi lo) = lo"
  by (rule bit_word_eqI)
     (simp add: id_lo_def pack_id_def mask32_eq bit_simps)

lemma and_mask32_eq: "x AND 0xffffffff = ucast (id_lo x)"
  by (rule bit_word_eqI) (auto simp add: id_lo_def mask32_eq bit_simps)

lemma id_lo_ucast [simp, id_simps]: "id_lo (ucast (a :: u32)) = a"
  by (rule bit_word_eqI) (simp add: id_lo_def mask32_eq bit_simps)

lemma ucast_u32_inj [simp]: "(ucast (a :: u32) :: u64) = ucast b \<longleftrightarrow> a = b"
  by (metis id_lo_ucast)

lemma id_hi_pack_id_take: "id_hi (pack_id hi lo) = take_bit 32 hi"
  by (rule bit_word_eqI)
     (auto simp add: id_hi_def pack_id_def bit_simps dest: bit_imp_le_length)

lemma id_hi_pack_id [simp, id_simps]:
  assumes "unat hi < 2 ^ 32"
  shows "id_hi (pack_id hi lo) = hi"
proof -
  have "take_bit 32 hi = hi"
    using assms by (intro unsigned_word_eqI [where 'a = nat]) (simp only: unsigned_take_bit_eq take_bit_nat_eq_self)
  then show ?thesis by (simp add: id_hi_pack_id_take)
qed

lemma pack_id_unpack [id_simps]: "pack_id (id_hi x) (id_lo x) = x"
proof (rule bit_word_eqI)
  fix n assume "n < LENGTH(64)"
  then show "bit (pack_id (id_hi x) (id_lo x)) n = bit x n"
    by (cases "n < 32") (auto simp add: id_lo_def id_hi_def pack_id_def mask32_eq bit_simps)
qed

lemma unat_id_hi_less: "unat (id_hi x) < 2 ^ 32"
proof -
  have "unat (id_hi x) = unat x div 2 ^ 32"
    unfolding id_hi_def by (metis drop_bit_eq_div unat_drop_bit_eq)
  also have "\<dots> < 2 ^ 32"
    using unsigned_less [of x, where 'a = nat] by (simp add: less_mult_imp_div_less)
  finally show ?thesis .
qed

lemma pack_id_eq_iff:
  assumes "unat a < 2 ^ 32" "unat b < 2 ^ 32"
  shows "pack_id a i = pack_id b j \<longleftrightarrow> a = b \<and> i = j"
  by (metis assms id_hi_pack_id id_lo_pack_id)

section \<open>Decimal output\<close>

text \<open>What an output stream prints for an unsigned number.\<close>

definition digit_char :: "nat \<Rightarrow> char" where
  "digit_char d = char_of (48 + d)"

fun dec :: "nat \<Rightarrow> string" where
  "dec n = (if n < 10 then [digit_char n] else dec (n div 10) @ [digit_char (n mod 10)])"

declare dec.simps [simp del]

section \<open>Bodies that arrive in pieces\<close>

text \<open>
  A queue or chain of buffers is \<open>None\<close> until the first piece arrives; appending a null
  pointer changes nothing.
\<close>

definition queue_append :: "iobuf option \<Rightarrow> iobuf option \<Rightarrow> iobuf option" where
  "queue_append q b = (case (q, b) of (Some x, Some y) \<Rightarrow> Some (x @ y) | (None, y) \<Rightarrow> y | (x, None) \<Rightarrow> x)"

definition whole :: "iobuf list \<Rightarrow> iobuf option" where
  "whole ps = (if ps = [] then None else Some (concat ps))"

lemma whole_snoc: "queue_append (whole ps) (Some b) = whole (ps @ [b])"
  by (simp add: whole_def queue_append_def)

section \<open>Tables in which the first registration of a key wins\<close>

text \<open>
  Several components keep a table that ignores a second registration under a key that is
  already present (configuration items, HTTP paths). The contract and what follows from it
  for a whole sequence of registrations:
\<close>

locale first_wins =
  fixes reg :: "'t \<Rightarrow> 'k \<Rightarrow> 'v \<Rightarrow> 't"
    and look :: "'t \<Rightarrow> 'k \<Rightarrow> 'v option"
  assumes look_reg: "look (reg t k v) k' = (if k' = k \<and> look t k = None then Some v else look t k')"
begin

lemma reg_keeps: "look t k = Some v \<Longrightarrow> look (reg t k' w) k = Some v"
  by (auto simp: look_reg)

lemma reg_present: "look t k \<noteq> None \<Longrightarrow> look (reg t k v) = look t"
  by (rule ext) (simp add: look_reg)

lemma look_fold_reg:
  "look (fold (\<lambda>(k, v) t. reg t k v) kvs t) k =
     (case look t k of Some v \<Rightarrow> Some v | None \<Rightarrow> map_of kvs k)"
  by (induction kvs arbitrary: t) (auto simp: look_reg split: option.splits)

end

end
