(* ===== verification/Conn_Registry.thy ===== *)
theory Conn_Registry
  imports Prelude
begin

text \<open>
  The registry of open connections of one event-loop thread, as a contract.
  Two classes of the sources keep such a registry (\<open>ThreadLocalConnManager\<close> and
  \<open>IOThreadConnManager\<close>); both hand out 32-bit connection numbers with the same
  \<open>do/while\<close> loop, which is modelled here once, with the proof of when it ends.
  The locale \<open>conn_registry\<close> states what a client of the registry may rely on.
\<close>

section \<open>The allocation loop of \<open>OnNewConnection\<close>\<close>

text \<open>
  \<open>conn_id = ++current_conn_id_; if (conn_id == 0) ++current_conn_id_;\<close> then
  \<open>pipelines_.insert(...).second\<close>, repeated until the insertion takes place. The
  counter wraps at 32 bits; the loop has no bound of its own, so not returning is
  \<open>None\<close>. The result is the number, the new counter and the new table.
\<close>

partial_function (option) new_conn_loop ::
  "u32 \<Rightarrow> (u32 \<rightharpoonup> 'p) \<Rightarrow> 'p \<Rightarrow> (u32 \<times> u32 \<times> (u32 \<rightharpoonup> 'p)) option" where
  "new_conn_loop cur m p =
     (let conn_id = cur + 1;
          cur' = (if conn_id = 0 then conn_id + 1 else conn_id)
      in if m conn_id = None then Some (conn_id, cur', m(conn_id \<mapsto> p))
         else new_conn_loop cur' m p)"

lemma u32_succ_eq_0: "(c :: u32) + 1 = 0 \<longleftrightarrow> c = - 1"
  by (simp add: eq_neg_iff_add_eq_0)

lemma new_conn_loop_free [simp]:
  "m (cur + 1) = None \<Longrightarrow>
   new_conn_loop cur m p =
     Some (cur + 1, if cur + 1 = 0 then 1 else cur + 1, m(cur + 1 \<mapsto> p))"
  by (subst new_conn_loop.simps) (auto simp: Let_def)

lemma new_conn_loop_used:
  "m (cur + 1) \<noteq> None \<Longrightarrow>
   new_conn_loop cur m p = new_conn_loop (if cur + 1 = 0 then 1 else cur + 1) m p"
  by (subst new_conn_loop.simps) (auto simp: Let_def)

text \<open>Whatever number the loop returns was free, and is the only entry that changed.\<close>

lemma new_conn_loop_result_aux:
  assumes "new_conn_loop cur m p = Some r"
  shows "m (fst r) = None \<and> snd (snd r) = m(fst r \<mapsto> p) \<and>
         fst (snd r) = (if fst r = 0 then 1 else fst r)"
proof (rule new_conn_loop.raw_induct
    [where P = "\<lambda>cur m p r. m (fst r) = None \<and> snd (snd r) = m(fst r \<mapsto> p) \<and>
        fst (snd r) = (if fst r = 0 then 1 else fst r)", OF _ assms])
  fix f :: "u32 \<Rightarrow> (u32 \<rightharpoonup> 'a) \<Rightarrow> 'a \<Rightarrow> (u32 \<times> u32 \<times> (u32 \<rightharpoonup> 'a)) option"
    and cur m p r
  assume IH: "\<And>cur m p r. f cur m p = Some r \<Longrightarrow> m (fst r) = None \<and>
        snd (snd r) = m(fst r \<mapsto> p) \<and> fst (snd r) = (if fst r = 0 then 1 else fst r)"
    and eq: "(let conn_id = cur + 1; cur' = if conn_id = 0 then conn_id + 1 else conn_id
        in if m conn_id = None then Some (conn_id, cur', m(conn_id \<mapsto> p))
           else f cur' m p) = Some r"
  show "m (fst r) = None \<and> snd (snd r) = m(fst r \<mapsto> p) \<and>
        fst (snd r) = (if fst r = 0 then 1 else fst r)"
  proof (cases "m (cur + 1) = None")
    case True
    with eq show ?thesis by (auto simp: Let_def u32_succ_eq_0 split: if_splits)
  next
    case False
    with eq have "f (if cur + 1 = 0 then cur + 1 + 1 else cur + 1) m p = Some r"
      by (simp add: Let_def)
    then show ?thesis by (rule IH)
  qed
qed

lemma new_conn_loop_result:
  assumes "new_conn_loop cur m p = Some (c, cur', m')"
  shows "m c = None \<and> m' = m(c \<mapsto> p) \<and> cur' = (if c = 0 then 1 else c)"
  using new_conn_loop_result_aux [OF assms] by (auto split: if_splits)

section \<open>When the loop ends\<close>

lemma unat_succ_no_wrap:
  fixes c :: u32
  assumes "c + 1 \<noteq> 0"
  shows "unat (c + 1) = unat c + 1"
  using assms by (simp add: unat_eq_zero unatSuc add.commute)

lemma new_conn_loop_reaches:
  assumes "m k = None" "unat cur < unat k"
  shows "\<exists>r. new_conn_loop cur m p = Some r"
  using assms(2)
proof (induction "unat k - unat cur" arbitrary: cur rule: less_induct)
  case less
  have nw: "cur + 1 \<noteq> 0"
  proof
    assume "cur + 1 = 0"
    then have "cur = - 1" by (simp add: u32_succ_eq_0)
    with less.prems show False by (simp add: word_less_nat_alt [symmetric])
  qed
  show ?case
  proof (cases "m (cur + 1) = None")
    case True
    then show ?thesis by simp
  next
    case False
    then have "cur + 1 \<noteq> k" using assms(1) by auto
    then have "unat (cur + 1) \<noteq> unat k" by (metis unsigned_word_eqI)
    then have "unat (cur + 1) < unat k"
      using less.prems unat_succ_no_wrap [OF nw] by linarith
    then have "\<exists>r. new_conn_loop (cur + 1) m p = Some r"
      using less.hyps [of "cur + 1"] less.prems unat_succ_no_wrap [OF nw] by simp
    with False nw show ?thesis by (simp add: new_conn_loop_used)
  qed
qed

lemma new_conn_loop_wraps:
  assumes "m k = None" "k \<noteq> 1"
  shows "\<exists>r. new_conn_loop cur m p = Some r"
proof (induction "2 ^ 32 - unat cur" arbitrary: cur rule: less_induct)
  case less
  have lt: "unat cur < 2 ^ 32" using unsigned_less [of cur, where 'a = nat] by simp
  show ?case
  proof (cases "m (cur + 1) = None")
    case True
    then show ?thesis by simp
  next
    case used: False
    show ?thesis
    proof (cases "cur + 1 = 0")
      case True
      have "k \<noteq> 0" using used True assms(1) by auto
      then have "1 < unat k"
        using assms(2) by (metis less_one nat_neq_iff unat_1 unat_eq_zero unsigned_word_eqI)
      then show ?thesis
        using used True new_conn_loop_reaches [of m k 1, OF assms(1)]
        by (simp add: new_conn_loop_used)
    next
      case False
      have "\<exists>r. new_conn_loop (cur + 1) m p = Some r"
        by (rule less.hyps) (use lt unat_succ_no_wrap [OF False] in linarith)
      with used False show ?thesis by (simp add: new_conn_loop_used)
    qed
  qed
qed

text \<open>
  After the counter has wrapped, the number 1 is never offered again, so the loop is
  certain to end as long as at most $2^{32} - 2$ connections are open.
\<close>

lemma new_conn_loop_terminates:
  fixes m :: "u32 \<rightharpoonup> 'p"
  assumes "card (dom m) < 2 ^ 32 - 1"
  shows "\<exists>r. new_conn_loop cur m p = Some r"
proof -
  have "\<exists>k. k \<noteq> 1 \<and> m k = None"
  proof (rule ccontr)
    assume "\<not> ?thesis"
    then have "UNIV - {1} \<subseteq> dom m" by auto
    then have "card (UNIV - {1 :: u32}) \<le> card (dom m)"
      by (rule card_mono [rotated]) simp
    moreover have "card (UNIV - {1 :: u32}) = 2 ^ 32 - 1"
      by (simp add: card_Diff_singleton card_word)
    ultimately show False using assms by simp
  qed
  then show ?thesis by (blast intro: new_conn_loop_wraps)
qed

section \<open>The contract\<close>

text \<open>
  \<open>reg_open\<close> registers a pipeline and returns its 64-bit connection id, \<open>reg_close\<close>
  removes an id, \<open>reg_find\<close> is the look-up every send goes through. Only the lower
  half of an id selects the entry.
\<close>

locale conn_registry =
  fixes reg_open :: "'s \<Rightarrow> 'p \<Rightarrow> ('s \<times> u64) option"
    and reg_close :: "'s \<Rightarrow> u64 \<Rightarrow> 'p \<Rightarrow> 's"
    and reg_find :: "'s \<Rightarrow> u32 \<Rightarrow> 'p option"
  assumes open_free: "reg_open s p = Some (s', c) \<Longrightarrow> reg_find s (id_lo c) = None"
    and open_find: "reg_open s p = Some (s', c) \<Longrightarrow> reg_find s' = (reg_find s)(id_lo c \<mapsto> p)"
    and close_find: "reg_find (reg_close s c p) = (reg_find s)(id_lo c := None)"
begin

lemma find_after_open: "reg_open s p = Some (s', c) \<Longrightarrow> reg_find s' (id_lo c) = Some p"
  by (simp add: open_find)

lemma open_keeps_others:
  "reg_open s p = Some (s', c) \<Longrightarrow> reg_find s k = Some q \<Longrightarrow> reg_find s' k = Some q"
  using open_free open_find by fastforce

lemma open_close_restores:
  "reg_open s p = Some (s', c) \<Longrightarrow> reg_find (reg_close s' c q) = reg_find s"
  by (metis close_find fun_upd_triv fun_upd_upd open_find open_free)

text \<open>
  What a set of owners keeps true of the registry: the entries are exactly the live
  owners, each under the number it was given (no stale entry, no lost connection).
\<close>

definition exact :: "'s \<Rightarrow> 'p set \<Rightarrow> ('p \<Rightarrow> u64) \<Rightarrow> bool" where
  "exact s live cid \<longleftrightarrow> (\<forall>k p. reg_find s k = Some p \<longleftrightarrow> p \<in> live \<and> id_lo (cid p) = k)"

lemma exactD: "exact s live cid \<Longrightarrow> p \<in> live \<Longrightarrow> reg_find s (id_lo (cid p)) = Some p"
  by (simp add: exact_def)

lemma exact_open:
  assumes "exact s live cid" "p \<notin> live" "reg_open s p = Some (s', c)"
  shows "exact s' (insert p live) (cid(p := c))"
proof -
  have "id_lo (cid q) \<noteq> id_lo c" if "q \<in> live" for q
    using exactD [OF assms(1) that] open_free [OF assms(3)] by auto
  then show ?thesis
    using assms(1,2) by (auto simp: exact_def open_find [OF assms(3)])
qed

lemma exact_close:
  assumes "exact s live cid" "p \<in> live"
  shows "exact (reg_close s (cid p) q) (live - {p}) cid"
proof -
  have "id_lo (cid r) \<noteq> id_lo (cid p)" if "r \<in> live - {p}" for r
    using exactD [OF assms(1), of r] exactD [OF assms] that by auto
  then show ?thesis using assms(1) by (auto simp: exact_def close_find)
qed

end

end
