(* ===== verification/Thread_Local_Conn.thy ===== *)
theory Thread_Local_Conn
  imports Conn_Registry
begin

text \<open>
  \<open>ThreadLocalConnManager\<close> (\<open>net/thread_local_conn_manager.h\<close>, \<open>.cc\<close>): the connection
  table each event-loop thread keeps in thread-local storage. A connection id is the
  thread's index in its upper half and the number from the allocation loop in its lower
  half; closing and sending look only at the lower half. The theory proves that the
  manager satisfies the contract \<open>conn_registry\<close>, when \<open>OnNewConnection\<close> returns, that ids
  of live connections are never handed out twice, and what happens when the counter wraps.
\<close>

section \<open>State and operations\<close>

record 'p tl_conn_mgr =
  tl_current_conn_id :: u32
  tl_thread_id :: u64
  tl_pipelines :: "u32 \<rightharpoonup> 'p"

definition new_ThreadLocalConnManager :: "'p tl_conn_mgr" where
  "new_ThreadLocalConnManager =
     \<lparr>tl_current_conn_id = 0, tl_thread_id = 0, tl_pipelines = Map.empty\<rparr>"

definition set_thread_id :: "'p tl_conn_mgr \<Rightarrow> u64 \<Rightarrow> 'p tl_conn_mgr" where
  "set_thread_id s i = s\<lparr>tl_thread_id := i\<rparr>"

text \<open>\<open>GetNextID\<close>: the protected helper of the header, which no operation calls.\<close>

definition TLCM_GetNextID :: "'p tl_conn_mgr \<Rightarrow> u32 \<times> 'p tl_conn_mgr" where
  "TLCM_GetNextID s =
     (let cur = (if tl_current_conn_id s = 0 then tl_current_conn_id s + 1
                 else tl_current_conn_id s)
      in (cur, s\<lparr>tl_current_conn_id := cur + 1\<rparr>))"

definition TLCM_OnNewConnection :: "'p tl_conn_mgr \<Rightarrow> 'p \<Rightarrow> ('p tl_conn_mgr \<times> u64) option" where
  "TLCM_OnNewConnection s pipeline =
     (case new_conn_loop (tl_current_conn_id s) (tl_pipelines s) pipeline of
        None \<Rightarrow> None
      | Some (conn_id, cur, m) \<Rightarrow>
          Some (s\<lparr>tl_current_conn_id := cur, tl_pipelines := m\<rparr>,
                pack_id (tl_thread_id s) conn_id))"

definition TLCM_OnConnectionClosed ::
  "'p tl_conn_mgr \<Rightarrow> u64 \<Rightarrow> 'p \<Rightarrow> 'p tl_conn_mgr \<times> bool" where
  "TLCM_OnConnectionClosed s conn_id pipeline =
     (case tl_pipelines s (id_lo conn_id) of
        Some _ \<Rightarrow> (s\<lparr>tl_pipelines := (tl_pipelines s)(id_lo conn_id := None)\<rparr>, True)
      | None \<Rightarrow> (s, False))"

text \<open>
  \<open>SendIOBufByConnID\<close> writes to the pipeline it finds and returns true in either case:
  the result is the pipeline written to, if any, and the returned flag.
\<close>

definition TLCM_SendIOBufByConnID ::
  "'p tl_conn_mgr \<Rightarrow> u64 \<Rightarrow> 'b \<Rightarrow> ('p \<times> 'b) option \<times> bool" where
  "TLCM_SendIOBufByConnID s conn_id data =
     (case tl_pipelines s (id_lo conn_id) of
        Some p \<Rightarrow> (Some (p, data), True)
      | None \<Rightarrow> (None, True))"

section \<open>The contract holds\<close>

lemma TLCM_OnNewConnection_result:
  assumes "TLCM_OnNewConnection s p = Some (s', c)"
  obtains k where "c = pack_id (tl_thread_id s) k" "tl_pipelines s k = None"
    "s' = s\<lparr>tl_current_conn_id := (if k = 0 then 1 else k),
            tl_pipelines := (tl_pipelines s)(k \<mapsto> p)\<rparr>"
  using assms
  by (auto simp: TLCM_OnNewConnection_def split: option.splits prod.splits
      dest!: new_conn_loop_result)

interpretation tlcm: conn_registry TLCM_OnNewConnection
  "\<lambda>s c p. fst (TLCM_OnConnectionClosed s c p)" tl_pipelines
proof unfold_locales
  show "tl_pipelines s (id_lo c) = None" if "TLCM_OnNewConnection s p = Some (s', c)"
    for s s' :: "'p tl_conn_mgr" and p c
    using that by (auto elim: TLCM_OnNewConnection_result)
  show "tl_pipelines s' = (tl_pipelines s)(id_lo c \<mapsto> p)"
    if "TLCM_OnNewConnection s p = Some (s', c)" for s s' :: "'p tl_conn_mgr" and p c
    using that by (auto elim: TLCM_OnNewConnection_result)
  show "tl_pipelines (fst (TLCM_OnConnectionClosed s c p)) = (tl_pipelines s)(id_lo c := None)"
    for s :: "'p tl_conn_mgr" and c p
    by (auto simp: TLCM_OnConnectionClosed_def split: option.splits)
qed

lemma TLCM_OnNewConnection_thread:
  "TLCM_OnNewConnection s p = Some (s', c) \<Longrightarrow> tl_thread_id s' = tl_thread_id s"
  by (auto elim: TLCM_OnNewConnection_result)

lemma TLCM_OnConnectionClosed_frame [simp]:
  "tl_thread_id (fst (TLCM_OnConnectionClosed s c p)) = tl_thread_id s"
  "tl_current_conn_id (fst (TLCM_OnConnectionClosed s c p)) = tl_current_conn_id s"
  by (auto simp: TLCM_OnConnectionClosed_def split: option.splits)

section \<open>Numbers before the counter wraps\<close>

text \<open>
  Until the counter reaches its largest value, every number in the table is at most the
  counter, so the loop succeeds at its first try and numbers are handed out in order.
\<close>

definition below_counter :: "'p tl_conn_mgr \<Rightarrow> bool" where
  "below_counter s \<longleftrightarrow>
     (\<forall>k \<in> dom (tl_pipelines s). k \<noteq> 0 \<and> unat k \<le> unat (tl_current_conn_id s))"

lemma below_counter_new: "below_counter new_ThreadLocalConnManager"
  by (simp add: below_counter_def new_ThreadLocalConnManager_def)

lemma below_counter_next_free:
  assumes "below_counter s" "tl_current_conn_id s \<noteq> - 1"
  shows "tl_pipelines s (tl_current_conn_id s + 1) = None"
proof (rule ccontr)
  assume "tl_pipelines s (tl_current_conn_id s + 1) \<noteq> None"
  then have "unat (tl_current_conn_id s + 1) \<le> unat (tl_current_conn_id s)"
    using assms(1) by (auto simp: below_counter_def dom_def)
  moreover have "tl_current_conn_id s + 1 \<noteq> 0" using assms(2) by (simp add: u32_succ_eq_0)
  ultimately show False using unat_succ_no_wrap by fastforce
qed

lemma TLCM_OnNewConnection_no_wrap:
  assumes "below_counter s" "tl_current_conn_id s \<noteq> - 1"
  shows "TLCM_OnNewConnection s p =
     Some (s\<lparr>tl_current_conn_id := tl_current_conn_id s + 1,
             tl_pipelines := (tl_pipelines s)(tl_current_conn_id s + 1 \<mapsto> p)\<rparr>,
           pack_id (tl_thread_id s) (tl_current_conn_id s + 1))"
  using below_counter_next_free [OF assms] assms(2)
  by (simp add: TLCM_OnNewConnection_def u32_succ_eq_0)

lemma below_counter_open:
  assumes "below_counter s" "tl_current_conn_id s \<noteq> - 1"
    and "TLCM_OnNewConnection s p = Some (s', c)"
  shows "below_counter s'"
proof -
  let ?c = "tl_current_conn_id s"
  have nz: "?c + 1 \<noteq> 0" using assms(2) by (simp add: u32_succ_eq_0)
  have "s' = s\<lparr>tl_current_conn_id := ?c + 1, tl_pipelines := (tl_pipelines s)(?c + 1 \<mapsto> p)\<rparr>"
    using assms(3) TLCM_OnNewConnection_no_wrap [OF assms(1,2)] by simp
  then show ?thesis
    using assms(1) nz unat_succ_no_wrap [OF nz] by (auto simp: below_counter_def le_Suc_eq)
qed

lemma below_counter_close: "below_counter s \<Longrightarrow> below_counter (fst (TLCM_OnConnectionClosed s c p))"
  by (auto simp: below_counter_def tlcm.close_find split: if_splits)

section \<open>Properties\<close>

text \<open>
  C9. Opening a connection: as long as fewer than $2^{32} - 1$ connections are open on the
  thread, \<open>OnNewConnection\<close> returns; the number it hands out was free, a send to the new id
  writes to the new pipeline, every id that reached a pipeline before still reaches it, and
  after closing the new id the table is the old one.
\<close>

theorem TLCM_open_send_close:
  assumes "card (dom (tl_pipelines s)) < 2 ^ 32 - 1"
  shows "\<exists>s' c. TLCM_OnNewConnection s p = Some (s', c) \<and>
     TLCM_SendIOBufByConnID s c d = (None, True) \<and>
     TLCM_SendIOBufByConnID s' c d = (Some (p, d), True) \<and>
     (\<forall>c' q. fst (TLCM_SendIOBufByConnID s c' d) = Some (q, d) \<longrightarrow>
        TLCM_SendIOBufByConnID s' c' d = (Some (q, d), True)) \<and>
     tl_pipelines (fst (TLCM_OnConnectionClosed s' c p)) = tl_pipelines s \<and>
     snd (TLCM_OnConnectionClosed s' c p)"
proof -
  obtain s' c where op: "TLCM_OnNewConnection s p = Some (s', c)"
    using new_conn_loop_terminates [OF assms, of "tl_current_conn_id s" p]
    by (auto simp: TLCM_OnNewConnection_def)
  note find = tlcm.find_after_open [OF op]
  have "TLCM_SendIOBufByConnID s' c' d = (Some (q, d), True)"
    if "fst (TLCM_SendIOBufByConnID s c' d) = Some (q, d)" for c' q
    using tlcm.open_keeps_others [OF op, of "id_lo c'" q] that
    by (auto simp: TLCM_SendIOBufByConnID_def split: option.splits)
  then show ?thesis
    using op find tlcm.open_free [OF op] tlcm.open_close_restores [OF op, of p]
    by (auto simp: TLCM_SendIOBufByConnID_def TLCM_OnConnectionClosed_def)
qed

theorem TLCM_open_send_close_witness:
  "\<exists>s' c. TLCM_OnNewConnection (new_ThreadLocalConnManager :: nat tl_conn_mgr) 7 = Some (s', c) \<and>
     TLCM_SendIOBufByConnID s' c (0 :: nat) = (Some (7, 0), True)"
  using TLCM_open_send_close [of "new_ThreadLocalConnManager :: nat tl_conn_mgr" 7 "0 :: nat"]
  by (auto simp: new_ThreadLocalConnManager_def)

text \<open>
  When the counter wraps the number 0 is handed out: the test
  \<open>if (conn_id == 0) ++current_conn_id_\<close> moves the counter but not the number that was
  already taken from it. On thread 0 the whole connection id is then 0, the value the
  callbacks use for \<^emph>\<open>no connection\<close>.
\<close>

theorem TLCM_wrap_hands_out_zero:
  assumes "tl_current_conn_id s = - 1" "tl_pipelines s 0 = None"
  shows "TLCM_OnNewConnection s p =
     Some (s\<lparr>tl_current_conn_id := 1, tl_pipelines := (tl_pipelines s)(0 \<mapsto> p)\<rparr>,
           pack_id (tl_thread_id s) 0)"
  using assms by (simp add: TLCM_OnNewConnection_def)

theorem TLCM_wrap_hands_out_zero_witness:
  "snd (the (TLCM_OnNewConnection
     \<lparr>tl_current_conn_id = - 1, tl_thread_id = 0, tl_pipelines = [5 \<mapsto> ''a'']\<rparr> ''b'')) = 0"
  using TLCM_wrap_hands_out_zero
    [of "\<lparr>tl_current_conn_id = - 1, tl_thread_id = 0, tl_pipelines = [5 \<mapsto> ''a'']\<rparr>" "''b''"]
  by (simp add: pack_id_def)

end
