(* ===== verification/Transition_Systems.thy ===== *)
theory Transition_Systems
  imports Prelude
begin

text \<open>
  Labelled transition systems, for the components whose operations are interleaved by
  event loops: the runs of a system from a given state, invariants by induction on a run,
  and, as a contract between two systems, what it takes for a detailed one to simulate an
  abstract one through an abstraction function. Steps of the detailed system that the
  abstract one does not see carry no abstract label.
\<close>

section \<open>Runs\<close>

inductive run :: "('s \<Rightarrow> 'l \<Rightarrow> 's \<Rightarrow> bool) \<Rightarrow> 's \<Rightarrow> 'l list \<Rightarrow> 's \<Rightarrow> bool"
  for step s0 where
  run_nil: "run step s0 [] s0"
| run_snoc: "run step s0 tr s \<Longrightarrow> step s l s' \<Longrightarrow> run step s0 (tr @ [l]) s'"

inductive_cases run_nilE: "run step s0 [] s"
inductive_cases run_snocE: "run step s0 (tr @ [l]) s"

lemma run_single: "step s l s' \<Longrightarrow> run step s [l] s'"
  using run_snoc [OF run_nil, of step s l s'] by simp

lemma run_trans: "run step s1 tr2 s2 \<Longrightarrow> run step s0 tr1 s1 \<Longrightarrow> run step s0 (tr1 @ tr2) s2"
proof (induction rule: run.induct)
  case (run_snoc tr s l s')
  then show ?case using run.run_snoc [of step s0 "tr1 @ tr" s l s'] by simp
qed simp

lemma run_cons: "step s0 l s1 \<Longrightarrow> run step s1 tr s2 \<Longrightarrow> run step s0 (l # tr) s2"
  using run_trans [OF _ run_single] by fastforce

lemma run_invariant [consumes 2, case_names step]:
  assumes "run step s0 tr s" "I s0"
    and "\<And>s l s'. I s \<Longrightarrow> step s l s' \<Longrightarrow> I s'"
  shows "I s"
  using assms(1) by (induction rule: run.induct) (use assms(2,3) in blast)+

section \<open>Simulation\<close>

locale simulation =
  fixes cstep :: "'s \<Rightarrow> 'l \<Rightarrow> 's \<Rightarrow> bool"
    and astep :: "'t \<Rightarrow> 'm \<Rightarrow> 't \<Rightarrow> bool"
    and lab :: "'l \<Rightarrow> 'm option"
    and abs :: "'s \<Rightarrow> 't"
    and inv :: "'s \<Rightarrow> bool"
  assumes keeps_inv: "inv s \<Longrightarrow> cstep s l s' \<Longrightarrow> inv s'"
    and simulates: "inv s \<Longrightarrow> cstep s l s' \<Longrightarrow> lab l = Some m \<Longrightarrow> astep (abs s) m (abs s')"
    and stutters: "inv s \<Longrightarrow> cstep s l s' \<Longrightarrow> lab l = None \<Longrightarrow> abs s' = abs s"
begin

lemma run_inv: "run cstep s0 tr s \<Longrightarrow> inv s0 \<Longrightarrow> inv s"
  by (induction rule: run.induct) (auto intro: keeps_inv)

text \<open>Every run of the detailed system is, label by label, a run of the abstract one.\<close>

lemma run_abs:
  "run cstep s0 tr s \<Longrightarrow> inv s0 \<Longrightarrow> run astep (abs s0) (List.map_filter lab tr) (abs s)"
proof (induction rule: run.induct)
  case run_nil
  show ?case by (simp add: run.run_nil List.map_filter_def)
next
  case (run_snoc tr s l s')
  have inv: "inv s" using run_inv [OF run_snoc.hyps(1)] run_snoc.prems .
  have map: "List.map_filter lab (tr @ [l]) =
      List.map_filter lab tr @ (case lab l of None \<Rightarrow> [] | Some m \<Rightarrow> [m])"
    by (simp add: List.map_filter_def split: option.splits)
  show ?case
  proof (cases "lab l")
    case None
    then show ?thesis
      using run_snoc.IH [OF run_snoc.prems] stutters [OF inv run_snoc.hyps(2)] by (simp add: map)
  next
    case (Some m)
    then show ?thesis
      using run.run_snoc [OF run_snoc.IH [OF run_snoc.prems] simulates [OF inv run_snoc.hyps(2) Some]]
      by (simp add: map)
  qed
qed

end

end
