(* ===== verification/Conn_Handler.thy ===== *)
theory Conn_Handler
  imports Thread_Local_Conn Transition_Systems
begin

text \<open>
  \<open>ConnHandler\<close> (\<open>net/conn_handler.h\<close>, \<open>.cc\<close>), the pipeline handler between a socket and the
  connection table, with the services it reports to (\<open>TcpServer\<close>, \<open>TcpServerT\<close>, \<open>TcpClient\<close>,
  \<open>TcpClientGroup\<close>). The main result: in a thread whose handlers only receive the events
  wangle sends, the table holds exactly the pipelines of the connected handlers. The lemma
  \<open>handle_cases\<close> says what one event does to handler and table; the composition of all
  threads rests on it too.
\<close>

section \<open>The services behind a handler\<close>

datatype tcp_service = TcpServer | TcpServerT | TcpClient | TcpClientGroup

text \<open>A \<open>ServiceBase*\<close>: the handler keeps it only if it is a \<open>TcpServiceBase\<close>.\<close>

datatype service_object = Tcp tcp_service | Http

text \<open>
  The virtual \<open>OnNewConnection\<close>: the server and the client forward to the thread's
  manager, the group inherits the default of \<open>TcpConnEventCallback\<close>, which returns 0.
\<close>

fun service_OnNewConnection ::
  "tcp_service \<Rightarrow> 'p tl_conn_mgr \<Rightarrow> 'p \<Rightarrow> ('p tl_conn_mgr \<times> u64) option" where
  "service_OnNewConnection TcpServer m p = TLCM_OnNewConnection m p"
| "service_OnNewConnection TcpServerT m p = TLCM_OnNewConnection m p"
| "service_OnNewConnection TcpClient m p = TLCM_OnNewConnection m p"
| "service_OnNewConnection TcpClientGroup m p = Some (m, 0)"

fun service_OnConnectionClosed ::
  "tcp_service \<Rightarrow> 'p tl_conn_mgr \<Rightarrow> u64 \<Rightarrow> 'p \<Rightarrow> 'p tl_conn_mgr \<times> bool" where
  "service_OnConnectionClosed TcpServer m c p = TLCM_OnConnectionClosed m c p"
| "service_OnConnectionClosed TcpServerT m c p = TLCM_OnConnectionClosed m c p"
| "service_OnConnectionClosed TcpClient m c p = TLCM_OnConnectionClosed m c p"
| "service_OnConnectionClosed TcpClientGroup m c p = (m, False)"

section \<open>\<open>ConnHandler\<close>\<close>

datatype conn_state = kNone | kConnected | kConnectedButDisable | kClosed | kError

record 'a conn_handler =
  ch_service :: "tcp_service option"
  ch_conn_id :: u64
  ch_attach_data :: "'a option"
  ch_conn_state :: conn_state
  ch_remote_address :: string

text \<open>What a handler passes on to the next outbound handler of its pipeline.\<close>

datatype fired = FireWrite iobuf | FireClose

definition new_ConnHandler :: "service_object option \<Rightarrow> 'a conn_handler" where
  "new_ConnHandler service =
     \<lparr>ch_service = (case service of Some (Tcp t) \<Rightarrow> Some t | _ \<Rightarrow> None),
      ch_conn_id = 0, ch_attach_data = None, ch_conn_state = kNone, ch_remote_address = []\<rparr>"

definition SetAttachData :: "'a conn_handler \<Rightarrow> 'a option \<Rightarrow> 'a conn_handler" where
  "SetAttachData h v = h\<lparr>ch_attach_data := v\<rparr>"

definition ConnHandler_close ::
  "'p tl_conn_mgr \<Rightarrow> 'a conn_handler \<Rightarrow> 'p \<Rightarrow> 'p tl_conn_mgr \<times> 'a conn_handler \<times> fired list" where
  "ConnHandler_close m h p =
     (if ch_conn_state h = kConnected
      then (case ch_service h of
              Some sv \<Rightarrow> fst (service_OnConnectionClosed sv m (ch_conn_id h) p)
            | None \<Rightarrow> m,
            h\<lparr>ch_conn_state := kClosed, ch_remote_address := []\<rparr>, [FireClose])
      else (m, h, [FireClose]))"

text \<open>
  No message, or one whose first buffer is empty, closes the connection; other data is left
  to subclasses.
\<close>

definition ConnHandler_read ::
  "'p tl_conn_mgr \<Rightarrow> 'a conn_handler \<Rightarrow> 'p \<Rightarrow> iobuf list option
   \<Rightarrow> 'p tl_conn_mgr \<times> 'a conn_handler \<times> fired list" where
  "ConnHandler_read m h p msg =
     (if msg = None \<or> iobuf_length (the msg) \<le> 0 then ConnHandler_close m h p else (m, h, []))"

definition ConnHandler_write :: "iobuf \<Rightarrow> fired list" where
  "ConnHandler_write out = [FireWrite out]"

text \<open>
  \<open>readEOF\<close> and \<open>readException\<close> log \<open>service_->GetServiceConfig()\<close> before they close, so
  a handler without a service does not survive them; \<open>transportActive\<close> does the same
  after the guarded call.
\<close>

definition ConnHandler_readEOF ::
  "'p tl_conn_mgr \<Rightarrow> 'a conn_handler \<Rightarrow> 'p
   \<Rightarrow> ('p tl_conn_mgr \<times> 'a conn_handler \<times> fired list) res" where
  "ConnHandler_readEOF m h p =
     (case ch_service h of None \<Rightarrow> Inl NullDeref | Some _ \<Rightarrow> Inr (ConnHandler_close m h p))"

definition ConnHandler_readException ::
  "'p tl_conn_mgr \<Rightarrow> 'a conn_handler \<Rightarrow> 'p
   \<Rightarrow> ('p tl_conn_mgr \<times> 'a conn_handler \<times> fired list) res" where
  "ConnHandler_readException m h p =
     (case ch_service h of None \<Rightarrow> Inl NullDeref | Some _ \<Rightarrow> Inr (ConnHandler_close m h p))"

definition ConnHandler_transportActive ::
  "'p tl_conn_mgr \<Rightarrow> 'a conn_handler \<Rightarrow> 'p \<Rightarrow> string \<Rightarrow> ('p tl_conn_mgr \<times> 'a conn_handler) res option" where
  "ConnHandler_transportActive m h p addr =
     (let h1 = h\<lparr>ch_conn_state := kConnected, ch_remote_address := addr\<rparr>
      in case ch_service h1 of
           None \<Rightarrow> Some (Inl NullDeref)
         | Some sv \<Rightarrow>
             (case service_OnNewConnection sv m p of
                None \<Rightarrow> None
              | Some (m', c) \<Rightarrow> Some (Inr (m', h1\<lparr>ch_conn_id := c\<rparr>))))"

section \<open>Events\<close>

datatype conn_event =
    TransportActive string | ReadMsg "iobuf list option" | ReadEOF | ReadException | CloseCall

fun handle ::
  "conn_event \<Rightarrow> 'p tl_conn_mgr \<Rightarrow> 'a conn_handler \<Rightarrow> 'p
   \<Rightarrow> ('p tl_conn_mgr \<times> 'a conn_handler \<times> fired list) res option" where
  "handle (TransportActive addr) m h p =
     map_option (map_sum id (\<lambda>(m', h'). (m', h', []))) (ConnHandler_transportActive m h p addr)"
| "handle (ReadMsg msg) m h p = Some (Inr (ConnHandler_read m h p msg))"
| "handle ReadEOF m h p = Some (ConnHandler_readEOF m h p)"
| "handle ReadException m h p = Some (ConnHandler_readException m h p)"
| "handle CloseCall m h p = Some (Inr (ConnHandler_close m h p))"

text \<open>
  wangle activates the transport of a pipeline once, when its connection is established;
  reads, end of file, read errors and closes arrive in any order and any number.
\<close>

definition may_happen :: "conn_event \<Rightarrow> 'a conn_handler \<Rightarrow> bool" where
  "may_happen ev h \<longleftrightarrow> (case ev of TransportActive _ \<Rightarrow> ch_conn_state h = kNone | _ \<Rightarrow> True)"

lemma service_callbacks:
  assumes "sv \<noteq> TcpClientGroup"
  shows "service_OnNewConnection sv m p = TLCM_OnNewConnection m p"
    and "service_OnConnectionClosed sv m c p = TLCM_OnConnectionClosed m c p"
  using assms by (cases sv; simp)+

lemma ConnHandler_close_cases:
  assumes "ConnHandler_close m h p = (m', h', out)" "ch_service h = Some sv" "sv \<noteq> TcpClientGroup"
  obtains (closed) "ch_conn_state h = kConnected"
    "m' = fst (TLCM_OnConnectionClosed m (ch_conn_id h) p)"
    "ch_conn_id h' = ch_conn_id h" "ch_conn_state h' = kClosed" "ch_service h' = ch_service h"
  | (idle) "m' = m" "h' = h"
  using assms by (auto simp: ConnHandler_close_def service_callbacks split: if_splits)

text \<open>
  What an event does: it registers the connection, it unregisters it, or it changes nothing.
\<close>

lemma handle_cases:
  assumes "handle ev m h p = Some (Inr (m', h', out))" "may_happen ev h"
    and "ch_service h = Some sv" "sv \<noteq> TcpClientGroup"
  obtains (opened) "ch_conn_state h = kNone" "TLCM_OnNewConnection m p = Some (m', ch_conn_id h')"
    "ch_conn_state h' = kConnected" "ch_service h' = ch_service h"
  | (closed) "ch_conn_state h = kConnected"
    "m' = fst (TLCM_OnConnectionClosed m (ch_conn_id h) p)"
    "ch_conn_id h' = ch_conn_id h" "ch_conn_state h' = kClosed" "ch_service h' = ch_service h"
  | (idle) "m' = m" "h' = h"
proof -
  have close: thesis if "ConnHandler_close m h p = (m', h', out)"
    using that assms(3,4) by (rule ConnHandler_close_cases) (rule closed idle; assumption)+
  show thesis
  proof (cases ev)
    case (TransportActive addr)
    with assms show ?thesis
      by (intro opened)
         (auto simp: ConnHandler_transportActive_def service_callbacks may_happen_def
           map_sum_Inr_iff split: option.splits)
  next
    case (ReadMsg msg)
    show ?thesis
      by (cases "msg = None \<or> iobuf_length (the msg) \<le> 0")
         (use ReadMsg assms(1) close idle in \<open>auto simp: ConnHandler_read_def\<close>)
  next
    case ReadEOF
    with assms(1,3) show ?thesis by (intro close) (simp add: ConnHandler_readEOF_def)
  next
    case ReadException
    with assms(1,3) show ?thesis by (intro close) (simp add: ConnHandler_readException_def)
  next
    case CloseCall
    with assms(1) show ?thesis by (intro close) simp
  qed
qed

section \<open>The handlers of one thread\<close>

text \<open>One event-loop thread: its manager and the handler of every pipeline that lives on it.\<close>

record ('p, 'a) conn_thread =
  ct_mgr :: "'p tl_conn_mgr"
  ct_handlers :: "'p \<Rightarrow> 'a conn_handler"

lemma conn_thread_eta [simp]: "\<lparr>ct_mgr = ct_mgr t, ct_handlers = ct_handlers t\<rparr> = t"
  by (cases t) simp

inductive conn_step ::
  "('p, 'a) conn_thread \<Rightarrow> 'p \<times> conn_event \<Rightarrow> ('p, 'a) conn_thread \<Rightarrow> bool" where
  handled: "may_happen ev (ct_handlers t p) \<Longrightarrow>
     handle ev (ct_mgr t) (ct_handlers t p) p = Some (Inr (m, h, out)) \<Longrightarrow>
     conn_step t (p, ev) \<lparr>ct_mgr = m, ct_handlers = (ct_handlers t)(p := h)\<rparr>"

inductive_cases conn_stepE: "conn_step t (p, ev) t'"

definition conn_thread_init :: "u64 \<Rightarrow> ('p \<Rightarrow> tcp_service) \<Rightarrow> ('p, 'a) conn_thread" where
  "conn_thread_init tid sv =
     \<lparr>ct_mgr = set_thread_id new_ThreadLocalConnManager tid,
      ct_handlers = (\<lambda>p. new_ConnHandler (Some (Tcp (sv p))))\<rparr>"

definition connected :: "('p, 'a) conn_thread \<Rightarrow> 'p set" where
  "connected t = {p. ch_conn_state (ct_handlers t p) = kConnected}"

text \<open>
  Table and handlers agree, every handler keeps its service, and the ids of live connections
  carry the index of the thread.
\<close>

definition registry_exact :: "u64 \<Rightarrow> ('p \<Rightarrow> tcp_service) \<Rightarrow> ('p, 'a) conn_thread \<Rightarrow> bool" where
  "registry_exact tid sv t \<longleftrightarrow>
     tlcm.exact (ct_mgr t) (connected t) (\<lambda>p. ch_conn_id (ct_handlers t p)) \<and>
     (\<forall>p. ch_service (ct_handlers t p) = Some (sv p)) \<and>
     tl_thread_id (ct_mgr t) = tid \<and>
     (\<forall>p \<in> connected t. \<exists>k. ch_conn_id (ct_handlers t p) = pack_id tid k)"

lemma registry_exact_init: "registry_exact tid sv (conn_thread_init tid sv)"
  by (simp add: registry_exact_def conn_thread_init_def tlcm.exact_def connected_def
      new_ConnHandler_def set_thread_id_def new_ThreadLocalConnManager_def)

lemma connected_upd:
  "connected \<lparr>ct_mgr = m, ct_handlers = (ct_handlers t)(p := h)\<rparr> =
     (if ch_conn_state h = kConnected then insert p (connected t) else connected t - {p})"
  by (auto simp: connected_def)

lemma registry_exact_opened:
  assumes inv: "registry_exact tid sv t" and new: "ch_conn_state (ct_handlers t p) = kNone"
    and op: "TLCM_OnNewConnection (ct_mgr t) p = Some (m, ch_conn_id h)"
    and h: "ch_conn_state h = kConnected" "ch_service h = Some (sv p)"
  shows "registry_exact tid sv \<lparr>ct_mgr = m, ct_handlers = (ct_handlers t)(p := h)\<rparr>"
proof -
  have "p \<notin> connected t" using new by (simp add: connected_def)
  from tlcm.exact_open [OF _ this op] inv
  have "tlcm.exact m (insert p (connected t)) ((\<lambda>p. ch_conn_id (ct_handlers t p))(p := ch_conn_id h))"
    by (simp add: registry_exact_def)
  moreover have "(\<lambda>q. ch_conn_id (((ct_handlers t)(p := h)) q)) =
      (\<lambda>q. ch_conn_id (ct_handlers t q))(p := ch_conn_id h)"
    by auto
  moreover have "\<exists>k. ch_conn_id h = pack_id tid k"
    using op inv by (auto simp: registry_exact_def elim: TLCM_OnNewConnection_result)
  ultimately show ?thesis
    using inv h TLCM_OnNewConnection_thread [OF op] by (auto simp: registry_exact_def connected_upd)
qed

lemma registry_exact_closed:
  assumes inv: "registry_exact tid sv t" and live: "ch_conn_state (ct_handlers t p) = kConnected"
    and m: "m = fst (TLCM_OnConnectionClosed (ct_mgr t) (ch_conn_id (ct_handlers t p)) p)"
    and h: "ch_conn_id h = ch_conn_id (ct_handlers t p)" "ch_conn_state h = kClosed" "ch_service h = Some (sv p)"
  shows "registry_exact tid sv \<lparr>ct_mgr = m, ct_handlers = (ct_handlers t)(p := h)\<rparr>"
proof -
  let ?cid = "\<lambda>p. ch_conn_id (ct_handlers t p)"
  have "p \<in> connected t" using live by (simp add: connected_def)
  then have "tlcm.exact m (connected t - {p}) ?cid"
    using inv tlcm.exact_close [of "ct_mgr t" "connected t" ?cid p] by (simp add: registry_exact_def m)
  moreover have "(\<lambda>q. ch_conn_id (((ct_handlers t)(p := h)) q)) = ?cid"
    by (auto simp: h(1))
  ultimately show ?thesis
    using inv h by (auto simp: registry_exact_def connected_upd m)
qed

lemma conn_step_registry_exact:
  assumes "conn_step t l t'" "registry_exact tid sv t" "\<forall>p. sv p \<noteq> TcpClientGroup"
  shows "registry_exact tid sv t'"
  using assms(1)
proof cases
  case (handled ev p m h out)
  have s: "ch_service (ct_handlers t p) = Some (sv p)" using assms(2) by (simp add: registry_exact_def)
  have sv: "sv p \<noteq> TcpClientGroup" using assms(3) by simp
  show ?thesis
    unfolding handled(2)
    by (cases rule: handle_cases [OF handled(4,3) s sv])
       (use assms(2) s in \<open>auto intro: registry_exact_opened registry_exact_closed\<close>)
qed

lemma conn_run_registry_exact:
  "run conn_step (conn_thread_init tid sv) tr t \<Longrightarrow> \<forall>p. sv p \<noteq> TcpClientGroup \<Longrightarrow> registry_exact tid sv t"
  using run_invariant [of conn_step "conn_thread_init tid sv" tr t "registry_exact tid sv"]
    registry_exact_init conn_step_registry_exact by blast

lemma registry_exact_table:
  assumes "registry_exact tid sv t"
  shows "tl_pipelines (ct_mgr t) k = Some p \<longleftrightarrow>
     ch_conn_state (ct_handlers t p) = kConnected \<and> ch_conn_id (ct_handlers t p) = pack_id tid k"
  using assms by (auto simp: registry_exact_def tlcm.exact_def connected_def)

lemma registry_exact_id:
  assumes "registry_exact tid sv t" "ch_conn_state (ct_handlers t p) = kConnected"
  obtains k where "ch_conn_id (ct_handlers t p) = pack_id tid k"
  using assms by (auto simp: registry_exact_def connected_def)

section \<open>Properties\<close>

text \<open>
  C8. In every state a thread can reach, its connection table and its handlers agree: the
  number \<open>k\<close> leads to a pipeline exactly when the handler of that pipeline is connected and
  holds the connection id made of the thread's index and \<open>k\<close>.
  No closed connection stays registered and no open one is missing, however reads, ends
  of file, errors and closes interleave.
\<close>

theorem conn_table_exact:
  assumes "run conn_step (conn_thread_init tid sv) tr t" "\<forall>p. sv p \<noteq> TcpClientGroup"
  shows "tl_pipelines (ct_mgr t) k = Some p \<longleftrightarrow>
     ch_conn_state (ct_handlers t p) = kConnected \<and> ch_conn_id (ct_handlers t p) = pack_id tid k"
  by (rule registry_exact_table [OF conn_run_registry_exact [OF assms]])

theorem conn_table_exact_witness:
  "\<exists>t :: (nat, nat) conn_thread.
     run conn_step (conn_thread_init 0 (\<lambda>_. TcpServer)) [(7, TransportActive ''peer'')] t \<and>
     tl_pipelines (ct_mgr t) 1 = Some 7"
proof -
  let ?t = "conn_thread_init 0 (\<lambda>_. TcpServer) :: (nat, nat) conn_thread"
  let ?h = "(ct_handlers ?t 7)\<lparr>ch_conn_state := kConnected, ch_remote_address := ''peer'', ch_conn_id := 1\<rparr>"
  let ?m = "\<lparr>tl_current_conn_id = 1, tl_thread_id = 0, tl_pipelines = [1 \<mapsto> 7]\<rparr> :: nat tl_conn_mgr"
  let ?t' = "\<lparr>ct_mgr = ?m, ct_handlers = (ct_handlers ?t)(7 := ?h)\<rparr>"
  have "handle (TransportActive ''peer'') (ct_mgr ?t) (ct_handlers ?t 7) 7 = Some (Inr (?m, ?h, []))"
    by (simp add: ConnHandler_transportActive_def conn_thread_init_def set_thread_id_def pack_id_def
        new_ThreadLocalConnManager_def new_ConnHandler_def TLCM_OnNewConnection_def)
  then have r: "run conn_step ?t [(7, TransportActive ''peer'')] ?t'"
    by (intro run_single conn_step.handled) (auto simp: may_happen_def conn_thread_init_def new_ConnHandler_def)
  have "tl_pipelines (ct_mgr ?t') 1 = Some 7"
    by (subst conn_table_exact [OF r]) (simp_all add: pack_id_def)
  with r show ?thesis by blast
qed

end
