(* ===== verification/Config.thy ===== *)
theory Config
  imports Prelude Complex_Main "HOL-Library.List_Lexorder" "HOL-Library.Char_ord"
begin

text \<open>
  The configuration layer: the part of the vendored JSON library that the configuration
  code calls (\<open>find\<close>, \<open>operator[]\<close>, \<open>get<T>\<close>, iteration), the \<open>Configurable\<close> structures of
  \<open>base/config_util\<close>, \<open>base/glog_util\<close> and \<open>server/IotHubServer/IotHubUtil\<close>,
  \<open>ConfigManager\<close> (\<open>base/config_manager\<close>) and \<open>Configuration\<close> (\<open>base/configuration\<close>).
  Parsing of JSON text and reading of files are arguments of the operations.
\<close>

section \<open>JSON values\<close>

text \<open>
  The value types of \<open>nlohmann::json\<close>. An object is a \<open>std::map\<close>, kept here as its list of
  entries. A finite double is a rational number.
\<close>

datatype json =
    JNull | JBool bool | JInt int | JUInt nat | JFloat rat | JString string
  | JArray "json list" | JObject "(string \<times> json) list"

text \<open>\<open>conf.find(key)\<close>: \<open>None\<close> is \<open>conf.end()\<close>, also for a value that is no object.\<close>

fun json_find :: "json \<Rightarrow> string \<Rightarrow> json option" where
  "json_find (JObject kvs) k = map_of kvs k"
| "json_find _ k = None"

definition to_i32 :: "int \<Rightarrow> int" where
  "to_i32 x = signed_take_bit 31 x"

text \<open>Conversion of a double to an integer type truncates; out of the type's range it is undefined.\<close>

definition trunc_rat :: "rat \<Rightarrow> int" where
  "trunc_rat r = (if 0 \<le> r then \<lfloor>r\<rfloor> else \<lceil>r\<rceil>)"

text \<open>\<open>get<int>()\<close>: numbers of every kind and booleans convert, anything else throws.\<close>

fun json_get_int :: "json \<Rightarrow> int res" where
  "json_get_int (JUInt n) = Inr (to_i32 (int n))"
| "json_get_int (JInt i) = Inr (to_i32 i)"
| "json_get_int (JFloat r) =
     (if - (2 ^ 31) \<le> trunc_rat r \<and> trunc_rat r < 2 ^ 31 then Inr (trunc_rat r) else Inl OutOfRange)"
| "json_get_int (JBool b) = Inr (if b then 1 else 0)"
| "json_get_int _ = Inl TypeError"

fun json_get_string :: "json \<Rightarrow> string res" where
  "json_get_string (JString s) = Inr s"
| "json_get_string _ = Inl TypeError"

fun json_get_bool :: "json \<Rightarrow> bool res" where
  "json_get_bool (JBool b) = Inr b"
| "json_get_bool _ = Inl TypeError"

text \<open>\<open>for (auto item : conf)\<close>: the elements of an array, the values of an object, a scalar itself.\<close>

fun json_items :: "json \<Rightarrow> json list" where
  "json_items (JArray xs) = xs"
| "json_items (JObject kvs) = map snd kvs"
| "json_items JNull = []"
| "json_items v = [v]"

text \<open>The idiom \<open>if (conf.find(k) != conf.end()) field = conf[k].get<T>();\<close>\<close>

definition conf_field :: "json \<Rightarrow> string \<Rightarrow> (json \<Rightarrow> 'a res) \<Rightarrow> 'a \<Rightarrow> 'a res" where
  "conf_field conf k get field = (case json_find conf k of None \<Rightarrow> Inr field | Some v \<Rightarrow> get v)"

lemma conf_field_absent [simp]: "json_find conf k = None \<Longrightarrow> conf_field conf k get d = Inr d"
  by (simp add: conf_field_def)

lemma conf_field_present [simp]: "json_find conf k = Some v \<Longrightarrow> conf_field conf k get d = get v"
  by (simp add: conf_field_def)

lemma to_i32_id: "- (2 ^ 31) \<le> x \<Longrightarrow> x < 2 ^ 31 \<Longrightarrow> to_i32 x = x"
  by (simp add: to_i32_def signed_take_bit_int_eq_self)

lemma to_i32_bounds: "- (2 ^ 31) \<le> to_i32 x \<and> to_i32 x < 2 ^ 31"
  using signed_take_bit_int_greater_eq_minus_exp [of 31 x] signed_take_bit_int_less_exp [of 31 x]
  by (simp add: to_i32_def)

lemma json_get_int_bounds: "json_get_int v = Inr x \<Longrightarrow> - (2 ^ 31) \<le> x \<and> x < 2 ^ 31"
  using to_i32_bounds by (cases v) (auto split: if_splits)

section \<open>Service configuration\<close>

record service_config =
  service_name :: string
  service_type :: string
  hosts :: string
  port :: u32
  max_conn_cnt :: u32

text \<open>The declaration gives \<open>port\<close> no initial value: it is an argument.\<close>

definition new_ServiceConfig :: "u32 \<Rightarrow> service_config" where
  "new_ServiceConfig indeterminate =
     \<lparr>service_name = [], service_type = [], hosts = [], port = indeterminate, max_conn_cnt = 0\<rparr>"

definition ServiceConfig_SetConf :: "service_config \<Rightarrow> string \<Rightarrow> json \<Rightarrow> service_config res" where
  "ServiceConfig_SetConf c conf_name conf =
     rbind (conf_field conf ''service_name'' json_get_string (service_name c)) (\<lambda>n.
     rbind (conf_field conf ''service_type'' json_get_string (service_type c)) (\<lambda>t.
     rbind (conf_field conf ''hosts'' json_get_string (hosts c)) (\<lambda>h.
     rbind (conf_field conf ''port'' (\<lambda>v. map_sum id word_of_int (json_get_int v)) (port c)) (\<lambda>p.
     rbind (conf_field conf ''max_conn_cnt'' (\<lambda>v. map_sum id word_of_int (json_get_int v))
              (max_conn_cnt c)) (\<lambda>m.
       Inr \<lparr>service_name = n, service_type = t, hosts = h, port = p, max_conn_cnt = m\<rparr>)))))"

fun ToServiceConfigs_loop :: "u32 \<Rightarrow> json list \<Rightarrow> service_config list res" where
  "ToServiceConfigs_loop g [] = Inr []"
| "ToServiceConfigs_loop g (item # items) =
     rbind (ServiceConfig_SetConf (new_ServiceConfig g) [] item) (\<lambda>c.
     rbind (ToServiceConfigs_loop g items) (\<lambda>cs. Inr (c # cs)))"

definition ToServiceConfigs :: "u32 \<Rightarrow> json \<Rightarrow> service_config list res" where
  "ToServiceConfigs g conf = ToServiceConfigs_loop g (json_items conf)"

definition ServicesConfig_SetConf :: "u32 \<Rightarrow> string \<Rightarrow> json \<Rightarrow> service_config list res" where
  "ServicesConfig_SetConf g conf_name conf = ToServiceConfigs g conf"

definition SystemConfig_SetConf :: "u32 \<Rightarrow> string \<Rightarrow> json \<Rightarrow> u32 res" where
  "SystemConfig_SetConf io_thread_pool_size conf_name conf =
     conf_field conf ''io_thread_pool_size'' (\<lambda>v. map_sum id word_of_int (json_get_int v))
       io_thread_pool_size"

text \<open>What the structures print; \<open>folly::sformat\<close> writes a number in decimal and \<open>{{\<close> as one brace.\<close>

definition ServiceConfig_ToString :: "service_config \<Rightarrow> string" where
  "ServiceConfig_ToString c =
     ''{service_name:'' @ service_name c @ '', service_type:'' @ service_type c @ '', hosts:'' @ hosts c @
     '', port:'' @ dec (unat (port c)) @ '', max_conn_cnt:'' @ dec (unat (max_conn_cnt c)) @ ''}''"

definition ServiceConfig_PrintDebug :: "service_config \<Rightarrow> string" where
  "ServiceConfig_PrintDebug c =
     ''service_name: '' @ service_name c @ '', service_type: '' @ service_type c @ '', hosts: '' @ hosts c @
     '', port: '' @ dec (unat (port c)) @ '', max_conn_cnt: '' @ dec (unat (max_conn_cnt c)) @ [CHR 0x0A]"

definition ServicesConfig_PrintDebug :: "service_config list \<Rightarrow> string" where
  "ServicesConfig_PrintDebug cs = concat (map ServiceConfig_PrintDebug cs)"

definition SystemConfig_PrintDebug :: "u32 \<Rightarrow> string" where
  "SystemConfig_PrintDebug io_thread_pool_size =
     ''io_thread_pool_size: '' @ dec (unat io_thread_pool_size) @ [CHR 0x0A]"

lemma ToServiceConfigs_loop_result:
  "ToServiceConfigs_loop g items = Inr cs \<longleftrightarrow>
   list_all2 (\<lambda>item c. ServiceConfig_SetConf (new_ServiceConfig g) [] item = Inr c) items cs"
proof (induction items arbitrary: cs)
  case Nil
  show ?case by auto
next
  case (Cons item items)
  then show ?case by (cases cs) (auto simp: rbind_eq_Inr_iff)
qed

section \<open>The server's own configuration\<close>

record iothub_config =
  server_number :: u16
  server_ips :: string
  server_port :: int

definition new_IotHubConfig :: "u16 \<Rightarrow> iothub_config" where
  "new_IotHubConfig indeterminate =
     \<lparr>server_number = indeterminate, server_ips = [], server_port = 443\<rparr>"

definition IotHubConfig_SetConf :: "iothub_config \<Rightarrow> string \<Rightarrow> json \<Rightarrow> iothub_config res" where
  "IotHubConfig_SetConf c conf_name conf =
     rbind (conf_field conf ''server_number'' (\<lambda>v. map_sum id word_of_int (json_get_int v))
              (server_number c)) (\<lambda>n.
     rbind (conf_field conf ''server_ips'' json_get_string (server_ips c)) (\<lambda>ips.
     rbind (conf_field conf ''server_port'' json_get_int (server_port c)) (\<lambda>p.
       Inr \<lparr>server_number = n, server_ips = ips, server_port = p\<rparr>)))"

definition GetServerNumber :: "iothub_config \<Rightarrow> u16" where
  "GetServerNumber c = server_number c"

section \<open>Logging configuration\<close>

datatype severity = INFO | WARNING | ERROR | FATAL

record log_flags =
  log_destination :: "severity \<rightharpoonup> string"
  logbufsecs :: int
  logbuflevel :: int
  max_log_size :: int
  minloglevel :: int
  stop_logging_if_full_disk :: bool
  v_level :: int
  GLOG_trace :: bool
  GLOG_trace_call_chain :: bool
  GLOG_trace_fiber :: bool
  GLOG_trace_http :: bool
  GLOG_trace_message_handler :: bool
  GLOG_trace_cost :: bool

text \<open>
  One \<open>xxx_dest\<close> entry: the configured prefix, the program name and a suffix, set with
  \<open>google::SetLogDestination\<close>.
\<close>

definition set_dest ::
  "json \<Rightarrow> string \<Rightarrow> string \<Rightarrow> string \<Rightarrow> severity \<Rightarrow> log_flags \<Rightarrow> log_flags res" where
  "set_dest conf key program_name suffix sev f =
     (case json_find conf key of
        None \<Rightarrow> Inr f
      | Some v \<Rightarrow> rbind (json_get_string v) (\<lambda>d.
          Inr (f\<lparr>log_destination := (log_destination f)(sev \<mapsto> d @ program_name @ suffix)\<rparr>)))"

definition LogInitializer_SetConf ::
  "string \<Rightarrow> log_flags \<Rightarrow> string \<Rightarrow> json \<Rightarrow> log_flags res" where
  "LogInitializer_SetConf program_name f conf_name conf =
     rbind (set_dest conf ''fatal_dest'' program_name ''_fatal_'' INFO f) (\<lambda>f.
     rbind (set_dest conf ''error_dest'' program_name ''_error_'' ERROR f) (\<lambda>f.
     rbind (set_dest conf ''warning_dest'' program_name ''_warning_'' WARNING f) (\<lambda>f.
     rbind (set_dest conf ''info_dest'' program_name ''_info_'' INFO f) (\<lambda>f.
     rbind (conf_field conf ''logbufsecs'' json_get_int 10) (\<lambda>a.
     rbind (conf_field conf ''logbuflevel'' json_get_int 4) (\<lambda>b.
     rbind (conf_field conf ''max_log_size'' json_get_int 1000) (\<lambda>c.
     rbind (conf_field conf ''minloglevel'' json_get_int 0) (\<lambda>d.
     rbind (conf_field conf ''stop_logging_if_full_disk'' json_get_bool True) (\<lambda>e.
     rbind (conf_field conf ''enable_folly_debug'' json_get_bool False) (\<lambda>debug.
     rbind (conf_field conf ''trace'' json_get_bool (GLOG_trace f)) (\<lambda>t1.
     rbind (conf_field conf ''trace_call_chain'' json_get_bool (GLOG_trace_call_chain f)) (\<lambda>t2.
     rbind (conf_field conf ''trace_fiber'' json_get_bool (GLOG_trace_fiber f)) (\<lambda>t3.
     rbind (conf_field conf ''trace_http'' json_get_bool (GLOG_trace_http f)) (\<lambda>t4.
     rbind (conf_field conf ''trace_message_handler'' json_get_bool
              (GLOG_trace_message_handler f)) (\<lambda>t5.
     rbind (conf_field conf ''trace_cost'' json_get_bool (GLOG_trace_cost f)) (\<lambda>t6.
       Inr \<lparr>log_destination = log_destination f,
            logbufsecs = a, logbuflevel = b, max_log_size = c, minloglevel = d,
            stop_logging_if_full_disk = e, v_level = (if debug then 20 else v_level f),
            GLOG_trace = t1, GLOG_trace_call_chain = t2, GLOG_trace_fiber = t3,
            GLOG_trace_http = t4, GLOG_trace_message_handler = t5, GLOG_trace_cost = t6\<rparr>
     ))))))))))))))))"

lemma set_dest_other:
  "set_dest conf key prog suffix sev f = Inr f' \<Longrightarrow> x \<noteq> sev \<Longrightarrow> log_destination f' x = log_destination f x"
  by (auto simp: set_dest_def rbind_eq_Inr_iff split: option.splits)

lemma set_dest_present:
  "set_dest conf key prog suffix sev f = Inr f' \<Longrightarrow> json_find conf key = Some (JString d) \<Longrightarrow>
   log_destination f' sev = Some (d @ prog @ suffix)"
  by (auto simp: set_dest_def)

lemma set_dest_absent: "set_dest conf key prog suffix sev f = Inr f' \<Longrightarrow> json_find conf key = None \<Longrightarrow> f' = f"
  by (simp add: set_dest_def)

lemma LogInitializer_dests:
  assumes "LogInitializer_SetConf prog f n conf = Inr f'"
  obtains f1 f2 f3 f4 where "set_dest conf ''fatal_dest'' prog ''_fatal_'' INFO f = Inr f1"
    "set_dest conf ''error_dest'' prog ''_error_'' ERROR f1 = Inr f2"
    "set_dest conf ''warning_dest'' prog ''_warning_'' WARNING f2 = Inr f3"
    "set_dest conf ''info_dest'' prog ''_info_'' INFO f3 = Inr f4"
    "log_destination f' = log_destination f4"
  using assms unfolding LogInitializer_SetConf_def rbind_eq_Inr_iff by (elim exE conjE) auto

section \<open>\<open>ConfigManager\<close>\<close>

text \<open>
  \<open>config_items_\<close> is a \<open>std::map\<close> from item name to object, iterated in key order; an
  object is given by its index in a store of \<open>Configurable\<close> states. The virtual
  \<open>SetConf\<close>, reading a file and parsing JSON text are arguments.
\<close>

record 'i config_manager =
  config_param :: string
  is_watched :: bool
  config_items :: "(string \<times> 'i) list"

definition new_ConfigManager :: "'i config_manager" where
  "new_ConfigManager = \<lparr>config_param = [], is_watched = False, config_items = []\<rparr>"

definition ConfigManager_Register :: "'i config_manager \<Rightarrow> string \<Rightarrow> 'i \<Rightarrow> 'i config_manager" where
  "ConfigManager_Register cm item_name item =
     (if map_of (config_items cm) item_name \<noteq> None then cm
      else cm\<lparr>config_items := insort_key fst (item_name, item) (config_items cm)\<rparr>)"

definition ConfigManager_UnRegister :: "'i config_manager \<Rightarrow> string \<Rightarrow> 'i config_manager" where
  "ConfigManager_UnRegister cm item_name =
     cm\<lparr>config_items := filter (\<lambda>(k, _). k \<noteq> item_name) (config_items cm)\<rparr>"

fun OnConfigDataUpdated_loop ::
  "('c \<Rightarrow> string \<Rightarrow> json \<Rightarrow> 'c res) \<Rightarrow> json \<Rightarrow> (string \<times> 'i) list \<Rightarrow> ('i \<Rightarrow> 'c) \<Rightarrow> ('i \<Rightarrow> 'c) res" where
  "OnConfigDataUpdated_loop setConf j [] st = Inr st"
| "OnConfigDataUpdated_loop setConf j ((k, i) # items) st =
     (case json_find j k of
        None \<Rightarrow> OnConfigDataUpdated_loop setConf j items st
      | Some v \<Rightarrow> rbind (setConf (st i) k v) (\<lambda>c.
          OnConfigDataUpdated_loop setConf j items (st(i := c))))"

definition OnConfigDataUpdated ::
  "('c \<Rightarrow> string \<Rightarrow> json \<Rightarrow> 'c res) \<Rightarrow> (string \<Rightarrow> json option) \<Rightarrow> 'i config_manager \<Rightarrow> string
   \<Rightarrow> ('i \<Rightarrow> 'c) \<Rightarrow> (('i \<Rightarrow> 'c) \<times> bool) res" where
  "OnConfigDataUpdated setConf parse cm data st =
     (case parse data of
        None \<Rightarrow> Inl ParseError
      | Some j \<Rightarrow> rbind (OnConfigDataUpdated_loop setConf j (config_items cm) st) (\<lambda>st'. Inr (st', True)))"

definition OnConfigUpdated ::
  "('c \<Rightarrow> string \<Rightarrow> json \<Rightarrow> 'c res) \<Rightarrow> (string \<Rightarrow> json option) \<Rightarrow> (string \<Rightarrow> string option)
   \<Rightarrow> 'i config_manager \<Rightarrow> ('i \<Rightarrow> 'c) \<Rightarrow> (('i \<Rightarrow> 'c) \<times> bool) res" where
  "OnConfigUpdated setConf parse readFile cm st =
     (case readFile (config_param cm) of
        None \<Rightarrow> Inr (st, False)
      | Some data \<Rightarrow> OnConfigDataUpdated setConf parse cm data st)"

definition ConfigManager_Initialize ::
  "('c \<Rightarrow> string \<Rightarrow> json \<Rightarrow> 'c res) \<Rightarrow> (string \<Rightarrow> json option) \<Rightarrow> (string \<Rightarrow> string option)
   \<Rightarrow> 'i config_manager \<Rightarrow> string \<Rightarrow> ('i \<Rightarrow> 'c) \<Rightarrow> ('i config_manager \<times> ('i \<Rightarrow> 'c) \<times> bool) res" where
  "ConfigManager_Initialize setConf parse readFile cm param st =
     (if param = [] then Inr (cm, st, False)
      else let cm' = cm\<lparr>config_param := param\<rparr>
           in rbind (OnConfigUpdated setConf parse readFile cm' st) (\<lambda>(st', b). Inr (cm', st', b)))"

definition StartObservingConfig :: "'i config_manager \<Rightarrow> 'i config_manager" where
  "StartObservingConfig cm = (if is_watched cm then cm else cm\<lparr>is_watched := True\<rparr>)"

subsection \<open>Registered items\<close>

lemma map_of_insort_key:
  "map_of xs k = None \<Longrightarrow> map_of (insort_key fst (k, i) xs) = (map_of xs)(k \<mapsto> i)"
  by (induction xs) (auto simp: fun_eq_iff)

interpretation cfg: first_wins ConfigManager_Register "\<lambda>cm. map_of (config_items cm)"
  by unfold_locales (auto simp: ConfigManager_Register_def map_of_insort_key)

lemma UnRegister_lookup:
  "map_of (config_items (ConfigManager_UnRegister cm k)) k' =
     (if k' = k then None else map_of (config_items cm) k')"
proof -
  have "map_of (filter (\<lambda>(x, _). x \<noteq> k) xs) k' = (if k' = k then None else map_of xs k')"
    for xs :: "(string \<times> 'a) list"
    by (induction xs) auto
  then show ?thesis by (simp add: ConfigManager_UnRegister_def)
qed

lemma distinct_snd_insort_key:
  "distinct (map snd (insort_key fst (k, i) xs)) \<longleftrightarrow> i \<notin> snd ` set xs \<and> distinct (map snd xs)"
  by (induction xs) (auto simp: set_insort_key)

lemma Register_objects:
  assumes "distinct (map snd (config_items cm))" "i \<notin> snd ` set (config_items cm)"
  shows "distinct (map snd (config_items (ConfigManager_Register cm k i)))"
    "snd ` set (config_items (ConfigManager_Register cm k i)) \<subseteq> insert i (snd ` set (config_items cm))"
  using assms by (auto simp: ConfigManager_Register_def distinct_snd_insort_key set_insort_key)

lemma Register_fold_objects:
  "distinct (map snd (config_items cm) @ map snd regs) \<Longrightarrow>
   distinct (map snd (config_items (fold (\<lambda>(k, i) cm. ConfigManager_Register cm k i) regs cm))) \<and>
   snd ` set (config_items (fold (\<lambda>(k, i) cm. ConfigManager_Register cm k i) regs cm))
     \<subseteq> snd ` set (config_items cm) \<union> snd ` set regs"
proof (induction regs arbitrary: cm)
  case (Cons r regs)
  obtain k i where r: "r = (k, i)" by (cases r)
  let ?cm = "ConfigManager_Register cm k i"
  have "distinct (map snd (config_items ?cm))"
    and sub: "snd ` set (config_items ?cm) \<subseteq> insert i (snd ` set (config_items cm))"
    using Register_objects [of cm i k] Cons.prems r by auto
  moreover have "snd ` set (config_items ?cm) \<inter> snd ` set regs = {}"
    using sub Cons.prems r by (auto simp: disjoint_iff dest!: subsetD)
  ultimately have "distinct (map snd (config_items ?cm) @ map snd regs)"
    using Cons.prems r by auto
  from Cons.IH [OF this] sub show ?case unfolding r by simp blast
qed simp

lemma Register_fold_names:
  "distinct (map fst (config_items cm)) \<Longrightarrow>
   distinct (map fst (config_items (fold (\<lambda>(k, i) cm. ConfigManager_Register cm k i) regs cm)))"
proof (induction regs arbitrary: cm)
  case (Cons r regs)
  obtain k i where r: "r = (k, i)" by (cases r)
  have "distinct (map fst (config_items (ConfigManager_Register cm k i)))"
    using Cons.prems
    by (auto simp: ConfigManager_Register_def map_of_eq_None_iff distinct_insort_key)
  from Cons.IH [OF this] show ?case by (simp add: r)
qed simp

lemma OnConfigDataUpdated_loop_frame:
  "OnConfigDataUpdated_loop setConf j items st = Inr st' \<Longrightarrow> i \<notin> snd ` set items \<Longrightarrow> st' i = st i"
proof (induction items arbitrary: st)
  case (Cons a items)
  then show ?case
    by (cases a) (auto simp: rbind_eq_Inr_iff split: option.splits dest!: Cons.IH)
qed simp

lemma OnConfigDataUpdated_loop_item:
  assumes "OnConfigDataUpdated_loop setConf j items st = Inr st'"
    and "distinct (map snd items)" and "(k, i) \<in> set items"
  shows "(case json_find j k of None \<Rightarrow> st' i = st i | Some v \<Rightarrow> setConf (st i) k v = Inr (st' i))"
  using assms
proof (induction items arbitrary: st)
  case (Cons a items)
  obtain k0 i0 where a: "a = (k0, i0)" by (cases a)
  show ?case
  proof (cases "(k, i) = a")
    case True
    then have "i \<notin> snd ` set items" using Cons.prems(2) a by auto
    with Cons.prems(1) True a show ?thesis
      by (auto simp: rbind_eq_Inr_iff split: option.splits dest: OnConfigDataUpdated_loop_frame)
  next
    case False
    then have i: "i \<noteq> i0" "(k, i) \<in> set items" using Cons.prems(2,3) a by force+
    from Cons.prems(1) a obtain st1 where
      "OnConfigDataUpdated_loop setConf j items st1 = Inr st'" "st1 i = st i"
      using i(1) by (auto simp: rbind_eq_Inr_iff split: option.splits)
    with Cons.IH [of st1] Cons.prems(2) i show ?thesis by (auto split: option.splits)
  qed
qed simp

section \<open>\<open>Configuration\<close>\<close>

text \<open>
  \<open>GetValue\<close> over a \<open>folly::dynamic\<close> (the same value shape): in an array, the first object
  that has the key; otherwise \<open>get_ptr\<close>, which throws unless the value is an object.
\<close>

fun GetValue_scan :: "json list \<Rightarrow> string \<Rightarrow> json" where
  "GetValue_scan [] k = JNull"
| "GetValue_scan (v2 # vs) k =
     (case v2 of
        JObject kvs \<Rightarrow> (case map_of kvs k of None \<Rightarrow> GetValue_scan vs k | Some r \<Rightarrow> r)
      | _ \<Rightarrow> GetValue_scan vs k)"

record configuration =
  dynamic_conf :: json

definition new_Configuration :: "json option \<Rightarrow> configuration" where
  "new_Configuration conf = \<lparr>dynamic_conf = (case conf of Some c \<Rightarrow> c | None \<Rightarrow> JNull)\<rparr>"

definition GetDynamicConf :: "configuration \<Rightarrow> json" where
  "GetDynamicConf c = dynamic_conf c"

definition SetDynamicConf :: "configuration \<Rightarrow> json \<Rightarrow> configuration" where
  "SetDynamicConf c conf = c\<lparr>dynamic_conf := conf\<rparr>"

fun Configuration_GetValue :: "json \<Rightarrow> string \<Rightarrow> json res" where
  "Configuration_GetValue (JArray vs) k = Inr (GetValue_scan vs k)"
| "Configuration_GetValue (JObject kvs) k =
     Inr (case map_of kvs k of Some r \<Rightarrow> r | None \<Rightarrow> JNull)"
| "Configuration_GetValue _ k = Inl TypeError"

section \<open>Properties\<close>

text \<open>
  C36. One configuration update reaches the registered objects and no other: after registering
  distinct objects under any names, the first registered under a name that occurs in the parsed
  configuration has \<open>SetConf\<close> applied once, to exactly the value of that name; every other object is
  untouched: the one whose name does not occur, the one whose name was taken when it registered,
  and the one that never registered.
\<close>

theorem config_update_reaches_items:
  assumes "cm = fold (\<lambda>(k, i) cm. ConfigManager_Register cm k i) regs new_ConfigManager"
    and "distinct (map snd regs)" and "parse data = Some j"
    and "OnConfigDataUpdated setConf parse cm data st = Inr (st', b)"
  shows "b \<and> (\<forall>k i. map_of regs k = Some i \<longrightarrow>
      (case json_find j k of None \<Rightarrow> st' i = st i | Some v \<Rightarrow> setConf (st i) k v = Inr (st' i))) \<and>
     (\<forall>i. (\<nexists>k. map_of regs k = Some i) \<longrightarrow> st' i = st i)"
proof -
  have look: "map_of (config_items cm) k = map_of regs k" for k
    using cfg.look_fold_reg [of regs new_ConfigManager k] by (simp add: assms(1) new_ConfigManager_def)
  have items: "distinct (map snd (config_items cm))" "distinct (map fst (config_items cm))"
    using Register_fold_objects [of new_ConfigManager regs] Register_fold_names [of new_ConfigManager regs] assms(2)
    by (simp_all add: assms(1) new_ConfigManager_def)
  have run: "OnConfigDataUpdated_loop setConf j (config_items cm) st = Inr st'" and "b"
    using assms(3,4) by (auto simp: OnConfigDataUpdated_def rbind_eq_Inr_iff)
  have "case json_find j k of None \<Rightarrow> st' i = st i | Some v \<Rightarrow> setConf (st i) k v = Inr (st' i)"
    if "map_of regs k = Some i" for k i
    using that OnConfigDataUpdated_loop_item [OF run items(1)] look by (metis map_of_SomeD)
  moreover have "st' i = st i" if "\<nexists>k. map_of regs k = Some i" for i
  proof -
    have "i \<notin> snd ` set (config_items cm)" using that map_of_is_SomeI [OF items(2)] look by force
    then show ?thesis by (rule OnConfigDataUpdated_loop_frame [OF run])
  qed
  ultimately show ?thesis using \<open>b\<close> by blast
qed

theorem config_update_reaches_items_witness:
  "\<exists>st'. OnConfigDataUpdated (\<lambda>c k v. json_get_int v) (\<lambda>_. Some (JObject [(''a'', JInt 5), (''b'', JInt 7)]))
      (fold (\<lambda>(k, i) cm. ConfigManager_Register cm k i) [(''b'', 1), (''a'', 0), (''b'', 2)] new_ConfigManager) [] (\<lambda>_. 0) =
      Inr (st', True) \<and> st' (0 :: nat) = 5 \<and> st' 1 = 7 \<and> st' 2 = 0"
proof -
  let ?regs = "[(''b'', 1), (''a'', 0), (''b'', 2 :: nat)]" and ?j = "JObject [(''a'', JInt 5), (''b'', JInt 7)]"
  let ?cm = "fold (\<lambda>(k, i) cm. ConfigManager_Register cm k i) ?regs new_ConfigManager"
  let ?set = "\<lambda>c k v. json_get_int v"
  have "\<exists>st'. OnConfigDataUpdated ?set (\<lambda>_. Some ?j) ?cm [] (\<lambda>_. 0) = Inr (st', True)"
    by (simp add: ConfigManager_Register_def new_ConfigManager_def OnConfigDataUpdated_def to_i32_id)
  then obtain st' where st': "OnConfigDataUpdated ?set (\<lambda>_. Some ?j) ?cm [] (\<lambda>_. 0) = Inr (st', True)" by blast
  have d: "distinct (map snd ?regs)" by simp
  note u = config_update_reaches_items [OF refl d refl st']
  have "json_get_int (JInt 5) = Inr (st' 0)" "json_get_int (JInt 7) = Inr (st' 1)" "st' 2 = 0"
    using u [THEN conjunct2, THEN conjunct1, rule_format, of "''a''" 0]
      u [THEN conjunct2, THEN conjunct1, rule_format, of "''b''" 1]
      u [THEN conjunct2, THEN conjunct2, rule_format, of 2] by (auto split: if_splits)
  with st' show ?thesis by (auto simp: to_i32_id)
qed

text \<open>
  Reading the list of services keeps its order and drops nothing: the call succeeds
  exactly when every item can be read, and then the i-th configuration is the i-th item read
  into a fresh structure. One unreadable item fails the whole list.
\<close>

theorem ToServiceConfigs_in_order:
  "ToServiceConfigs g conf = Inr cs \<longleftrightarrow>
     length cs = length (json_items conf) \<and>
     (\<forall>i < length cs. ServiceConfig_SetConf (new_ServiceConfig g) [] (json_items conf ! i) = Inr (cs ! i))"
  by (auto simp: ToServiceConfigs_def ToServiceConfigs_loop_result list_all2_conv_all_nth)

theorem ToServiceConfigs_in_order_witness:
  "ToServiceConfigs 0 (JArray [JObject [(''service_name'', JString ''echo''), (''port'', JUInt 22345)]]) =
     Inr [\<lparr>service_name = ''echo'', service_type = [], hosts = [], port = 22345, max_conn_cnt = 0\<rparr>]"
  by (subst ToServiceConfigs_in_order)
     (simp add: ServiceConfig_SetConf_def new_ServiceConfig_def conf_field_def to_i32_id)

text \<open>
  The \<open>fatal_dest\<close> entry sets the destination of the INFO log: a configuration that has
  it and no \<open>info_dest\<close> sends INFO messages to the fatal file, and no configuration ever sets
  a destination for FATAL.
\<close>

theorem fatal_dest_sets_info:
  assumes "LogInitializer_SetConf prog f n conf = Inr f'"
  shows "log_destination f' FATAL = log_destination f FATAL \<and>
     (\<forall>d. json_find conf ''fatal_dest'' = Some (JString d) \<and> json_find conf ''info_dest'' = None \<longrightarrow>
        log_destination f' INFO = Some (d @ prog @ ''_fatal_''))"
  using assms
proof (cases rule: LogInitializer_dests)
  case (1 f1 f2 f3 f4)
  have "log_destination f' FATAL = log_destination f FATAL"
    using 1(1-4) [THEN set_dest_other, of FATAL] 1(5) by simp
  moreover have "log_destination f' INFO = Some (d @ prog @ ''_fatal_'')"
    if "json_find conf ''fatal_dest'' = Some (JString d)" "json_find conf ''info_dest'' = None" for d
    using set_dest_present [OF 1(1) that(1)] 1(2,3) [THEN set_dest_other, of INFO]
      set_dest_absent [OF 1(4) that(2)] 1(5) by simp
  ultimately show ?thesis by blast
qed

theorem fatal_dest_sets_info_witness:
  "\<exists>f'. LogInitializer_SetConf ''srv''
      \<lparr>log_destination = Map.empty, logbufsecs = 30, logbuflevel = 0, max_log_size = 1800, minloglevel = 0,
       stop_logging_if_full_disk = False, v_level = 0, GLOG_trace = False, GLOG_trace_call_chain = False,
       GLOG_trace_fiber = False, GLOG_trace_http = False, GLOG_trace_message_handler = False,
       GLOG_trace_cost = False\<rparr> [] (JObject [(''fatal_dest'', JString ''/log/'')]) = Inr f' \<and>
     log_destination f' INFO = Some ''/log/srv_fatal_''"
proof -
  let ?f = "\<lparr>log_destination = Map.empty, logbufsecs = 30, logbuflevel = 0, max_log_size = 1800, minloglevel = 0,
       stop_logging_if_full_disk = False, v_level = 0, GLOG_trace = False, GLOG_trace_call_chain = False,
       GLOG_trace_fiber = False, GLOG_trace_http = False, GLOG_trace_message_handler = False,
       GLOG_trace_cost = False\<rparr>"
  obtain f' where "LogInitializer_SetConf ''srv'' ?f [] (JObject [(''fatal_dest'', JString ''/log/'')]) = Inr f'"
    by (simp add: LogInitializer_SetConf_def set_dest_def)
  with fatal_dest_sets_info [OF this] show ?thesis by simp
qed

end
