(* ===== verification/Thread_Groups.thy ===== *)
theory Thread_Groups
  imports Config Thread_Local_Conn
begin

text \<open>
  Thread groups (\<open>net/thread_group_list_manager.h\<close>, \<open>.cc\<close>): reading the thread
  configuration, creating the pools, giving every thread a process-wide index and storing
  that index in the thread's own connection manager, and the look-ups from thread index and
  thread type to event base. wangle's executors are arguments: which threads a new pool
  has, and the event base of an I/O thread.
\<close>

section \<open>Thread types\<close>

datatype thread_type = NORMAL | CONN_ACCEPT | CONN_CLIENT | CONN | FIBER | DB | REDIS | MAX_TYPE

fun thread_type_int :: "thread_type \<Rightarrow> nat" where
  "thread_type_int NORMAL = 1"
| "thread_type_int CONN_ACCEPT = 2"
| "thread_type_int CONN_CLIENT = 4"
| "thread_type_int CONN = 6"
| "thread_type_int FIBER = 8"
| "thread_type_int DB = 16"
| "thread_type_int REDIS = 32"
| "thread_type_int MAX_TYPE = 33"

fun ThreadType_ToString :: "thread_type \<Rightarrow> string" where
  "ThreadType_ToString NORMAL = ''NORMAL''"
| "ThreadType_ToString CONN_ACCEPT = ''CONN_ACCEPT''"
| "ThreadType_ToString CONN_CLIENT = ''CONN_CLIENT''"
| "ThreadType_ToString CONN = ''CONN''"
| "ThreadType_ToString FIBER = ''FIBER''"
| "ThreadType_ToString DB = ''DB''"
| "ThreadType_ToString REDIS = ''REDIS''"
| "ThreadType_ToString _ = ''UNKNOWN''"

lemma thread_type_int_inj: "thread_type_int a = thread_type_int b \<longleftrightarrow> a = b"
  by (cases a; cases b) simp_all

lemma thread_type_int_less: "t \<noteq> MAX_TYPE \<Longrightarrow> thread_type_int t < 33"
  by (cases t) simp_all

section \<open>Configuration\<close>

text \<open>\<open>std::thread::hardware_concurrency()\<close> is an argument; 0 means unknown.\<close>

definition GetIOThreadSize :: "u32 \<Rightarrow> u64" where
  "GetIOThreadSize hardware_concurrency =
     ucast (if hardware_concurrency \<le> 0 then 8 else hardware_concurrency)"

record thread_group_option =
  tgo_thread_type :: thread_type
  tgo_thread_size :: int

text \<open>\<open>n > 0 ? n : GetIOThreadSize()\<close>, stored in an \<open>int\<close>.\<close>

definition group_size :: "u32 \<Rightarrow> int \<Rightarrow> int" where
  "group_size hc n = (if n > 0 then n else to_i32 (uint (GetIOThreadSize hc)))"

definition conf_group ::
  "u32 \<Rightarrow> json \<Rightarrow> string \<Rightarrow> thread_type \<Rightarrow> thread_group_option list \<Rightarrow> thread_group_option list res" where
  "conf_group hc conf key t opts =
     (case json_find conf key of
        None \<Rightarrow> Inr opts
      | Some v \<Rightarrow> rbind (json_get_int v) (\<lambda>n.
          Inr (opts @ [\<lparr>tgo_thread_type = t, tgo_thread_size = group_size hc n\<rparr>])))"

definition ThreadGroupListOption_SetConf ::
  "u32 \<Rightarrow> thread_group_option list \<Rightarrow> string \<Rightarrow> json \<Rightarrow> thread_group_option list res" where
  "ThreadGroupListOption_SetConf hc opts conf_name conf =
     rbind (if json_find conf ''conn'' \<noteq> None then conf_group hc conf ''conn'' CONN opts
            else rbind (conf_group hc conf ''accept'' CONN_ACCEPT opts)
                   (conf_group hc conf ''client'' CONN_CLIENT)) (\<lambda>o1.
     rbind (conf_group hc conf ''fiber'' FIBER o1) (\<lambda>o2.
     rbind (conf_group hc conf ''db'' DB o2) (\<lambda>o3.
     conf_group hc conf ''redis'' REDIS o3)))"

section \<open>Groups and threads\<close>

datatype pool_kind = IOThreadPool | CPUThreadPool

record 'h thread_group =
  tg_pool :: "pool_kind \<times> 'h list"
  tg_type :: thread_type
  tg_thread_idxs :: "u64 list"

record 'e thread_data =
  td_group :: thread_type
  td_thread_idx :: u64
  td_evb :: "'e option"

text \<open>
  The manager, together with the thread-local connection manager of each event base, which
  the thread-start callback writes.
\<close>

record ('h, 'e, 'p) tg_manager =
  thread_groups :: "'h thread_group option list"
  thread_datas :: "'e thread_data list"
  conn_mgrs :: "'e \<Rightarrow> 'p tl_conn_mgr"

definition has_event_base :: "thread_type \<Rightarrow> bool" where
  "has_event_base t \<longleftrightarrow> t = CONN_ACCEPT \<or> t = CONN_CLIENT \<or> t = FIBER"

text \<open>
  The callback of \<open>MakeThreadGroup\<close>: the thread gets the next process-wide index, and an I/O
  thread stores it in its connection manager.
\<close>

definition new_thread_data ::
  "('h \<Rightarrow> 'e) \<Rightarrow> thread_type \<Rightarrow> 'h \<Rightarrow> 'e thread_data list \<times> ('e \<Rightarrow> 'p tl_conn_mgr)
   \<Rightarrow> u64 \<times> 'e thread_data list \<times> ('e \<Rightarrow> 'p tl_conn_mgr)" where
  "new_thread_data getEventBase t handle = (\<lambda>(datas, mgrs).
     let idx = word_of_nat (length datas);
         evb = (if has_event_base t then Some (getEventBase handle) else None);
         mgrs' = (case evb of Some e \<Rightarrow> mgrs(e := set_thread_id (mgrs e) idx) | None \<Rightarrow> mgrs)
     in (idx, datas @ [\<lparr>td_group = t, td_thread_idx = idx, td_evb = evb\<rparr>], mgrs'))"

text \<open>\<open>ThreadGroupObserver::threadStarted\<close>: the callback, whose result joins the indices of the group.\<close>

definition thread_started ::
  "('h \<Rightarrow> 'e) \<Rightarrow> thread_type \<Rightarrow> 'h \<Rightarrow> u64 list \<times> 'e thread_data list \<times> ('e \<Rightarrow> 'p tl_conn_mgr)
   \<Rightarrow> u64 list \<times> 'e thread_data list \<times> ('e \<Rightarrow> 'p tl_conn_mgr)" where
  "thread_started getEventBase t handle = (\<lambda>(idxs, dm).
     let (idx, dm') = new_thread_data getEventBase t handle dm in (idxs @ [idx], dm'))"

text \<open>
  The constructor of \<open>ThreadGroup\<close>: adding the observer to the pool reports each thread that
  the pool already has.
\<close>

definition new_ThreadGroup ::
  "('h \<Rightarrow> 'e) \<Rightarrow> pool_kind \<times> 'h list \<Rightarrow> thread_type \<Rightarrow> 'e thread_data list \<times> ('e \<Rightarrow> 'p tl_conn_mgr)
   \<Rightarrow> 'h thread_group \<times> 'e thread_data list \<times> ('e \<Rightarrow> 'p tl_conn_mgr)" where
  "new_ThreadGroup getEventBase pool t dm =
     (let (idxs, dm') = fold (thread_started getEventBase t) (snd pool) ([], dm)
      in (\<lparr>tg_pool = pool, tg_type = t, tg_thread_idxs = idxs\<rparr>, dm'))"

fun group_pool_kind :: "thread_type \<Rightarrow> pool_kind option" where
  "group_pool_kind NORMAL = None"
| "group_pool_kind CONN_ACCEPT = Some IOThreadPool"
| "group_pool_kind CONN_CLIENT = Some IOThreadPool"
| "group_pool_kind FIBER = Some IOThreadPool"
| "group_pool_kind DB = Some CPUThreadPool"
| "group_pool_kind REDIS = Some CPUThreadPool"
| "group_pool_kind _ = None"

text \<open>\<open>make_pool n kind size\<close> are the threads of the \<open>n\<close>-th pool created.\<close>

definition MakeThreadGroup ::
  "(nat \<Rightarrow> pool_kind \<Rightarrow> int \<Rightarrow> 'h list) \<Rightarrow> ('h \<Rightarrow> 'e) \<Rightarrow> ('h, 'e, 'p) tg_manager \<Rightarrow> nat \<Rightarrow> thread_type \<Rightarrow> int
   \<Rightarrow> 'h thread_group option \<times> ('h, 'e, 'p) tg_manager" where
  "MakeThreadGroup make_pool getEventBase s n t sz =
     (case group_pool_kind t of
        None \<Rightarrow> (None, s)
      | Some kind \<Rightarrow>
          let (group, datas, mgrs) =
                new_ThreadGroup getEventBase (kind, make_pool n kind sz) t (thread_datas s, conn_mgrs s)
          in (Some group, s\<lparr>thread_datas := datas, conn_mgrs := mgrs\<rparr>))"

fun Initialize_loop ::
  "(nat \<Rightarrow> pool_kind \<Rightarrow> int \<Rightarrow> 'h list) \<Rightarrow> ('h \<Rightarrow> 'e) \<Rightarrow> nat \<Rightarrow> thread_group_option list
   \<Rightarrow> ('h, 'e, 'p) tg_manager \<Rightarrow> ('h, 'e, 'p) tg_manager" where
  "Initialize_loop mp ge n [] s = s"
| "Initialize_loop mp ge n (opt # opts) s =
     (let (g, s') = MakeThreadGroup mp ge s n (tgo_thread_type opt) (tgo_thread_size opt)
      in Initialize_loop mp ge (Suc n) opts
           (s'\<lparr>thread_groups := (thread_groups s')[thread_type_int (tgo_thread_type opt) := g]\<rparr>))"

definition ThreadGroupListManager_Initialize ::
  "(nat \<Rightarrow> pool_kind \<Rightarrow> int \<Rightarrow> 'h list) \<Rightarrow> ('h \<Rightarrow> 'e) \<Rightarrow> thread_group_option list
   \<Rightarrow> ('h, 'e, 'p) tg_manager \<Rightarrow> ('h, 'e, 'p) tg_manager \<times> bool" where
  "ThreadGroupListManager_Initialize mp ge options s =
     (if options = [] then (s, False) else (Initialize_loop mp ge 0 options s, True))"

definition new_ThreadGroupListManager ::
  "(nat \<Rightarrow> pool_kind \<Rightarrow> int \<Rightarrow> 'h list) \<Rightarrow> ('h \<Rightarrow> 'e) \<Rightarrow> thread_group_option list \<Rightarrow> ('h, 'e, 'p) tg_manager" where
  "new_ThreadGroupListManager mp ge options =
     fst (ThreadGroupListManager_Initialize mp ge options
       \<lparr>thread_groups = replicate (thread_type_int MAX_TYPE) None, thread_datas = [],
        conn_mgrs = (\<lambda>_. new_ThreadLocalConnManager)\<rparr>)"

section \<open>Look-ups\<close>

definition GetThreadGroupByThreadType ::
  "('h, 'e, 'p) tg_manager \<Rightarrow> thread_type \<Rightarrow> 'h thread_group option res" where
  "GetThreadGroupByThreadType s t = vec_at (thread_groups s) (word_of_nat (thread_type_int t))"

definition GetIOThreadPoolExecutor ::
  "('h, 'e, 'p) tg_manager \<Rightarrow> thread_type \<Rightarrow> 'h list option res" where
  "GetIOThreadPoolExecutor s t =
     (if t = CONN_ACCEPT \<or> t = CONN_CLIENT \<or> t = FIBER
      then rbind (vec_at (thread_groups s) (word_of_nat (thread_type_int t))) (\<lambda>g.
             Inr (map_option (\<lambda>g. snd (tg_pool g)) g))
      else Inr None)"

definition GetEventBaseByThreadID :: "('h, 'e, 'p) tg_manager \<Rightarrow> u64 \<Rightarrow> 'e option res" where
  "GetEventBaseByThreadID s idx = rbind (vec_at (thread_datas s) idx) (\<lambda>d. Inr (td_evb d))"

text \<open>\<open>folly::Random::rand32(n)\<close> is an argument.\<close>

definition GetEventBaseByThreadType ::
  "(u32 \<Rightarrow> u32) \<Rightarrow> ('h, 'e, 'p) tg_manager \<Rightarrow> thread_type \<Rightarrow> 'e option res" where
  "GetEventBaseByThreadType rand32 s t =
     rbind (GetThreadGroupByThreadType s t) (\<lambda>group.
       case group of
         None \<Rightarrow> Inr None
       | Some g \<Rightarrow>
           let idx = rand32 (word_of_nat (length (tg_thread_idxs g)))
           in rbind (vec_at (thread_datas s) (ucast idx)) (\<lambda>d. Inr (td_evb d)))"

section \<open>Every thread knows its own index\<close>

text \<open>
  What \<open>IOThreadPoolExecutor\<close> provides: every thread of every pool has an event base of its own.
\<close>

definition own_event_bases :: "('h \<Rightarrow> 'e) \<Rightarrow> (nat \<Rightarrow> pool_kind \<Rightarrow> int \<Rightarrow> 'h list) \<Rightarrow> bool" where
  "own_event_bases ge mp \<longleftrightarrow>
     (\<forall>n k z. distinct (map ge (mp n k z))) \<and>
     (\<forall>n k z n' k' z'. n < n' \<longrightarrow> ge ` set (mp n k z) \<inter> ge ` set (mp n' k' z') = {})"

lemma own_event_basesD:
  assumes "own_event_bases ge mp"
  shows "distinct (map ge (mp n k z))"
    and "n < n' \<Longrightarrow> ge ` set (mp n k z) \<inter> ge ` set (mp n' k' z') = {}"
  using assms unfolding own_event_bases_def by blast+

text \<open>
  What the index of a thread is for: \<open>thread_datas_[i]\<close> describes the thread whose
  connection manager builds ids with \<open>i\<close> in the upper half.
\<close>

definition indexed :: "('h, 'e, 'p) tg_manager \<Rightarrow> bool" where
  "indexed s \<longleftrightarrow>
     (\<forall>i < length (thread_datas s).
        td_thread_idx (thread_datas s ! i) = word_of_nat i \<and>
        (\<forall>e. td_evb (thread_datas s ! i) = Some e \<longrightarrow>
           tl_thread_id (conn_mgrs s e) = word_of_nat i \<and> tl_pipelines (conn_mgrs s e) = Map.empty \<and>
           tl_current_conn_id (conn_mgrs s e) = 0))"

definition event_bases :: "'e thread_data list \<Rightarrow> 'e set" where
  "event_bases ds = {e. \<exists>d \<in> set ds. td_evb d = Some e}"

lemma event_bases_append [simp]: "event_bases (ds @ [d]) = event_bases ds \<union> set_option (td_evb d)"
  by (auto simp: event_bases_def)

definition datas_ok :: "'e thread_data list \<Rightarrow> ('e \<Rightarrow> 'p tl_conn_mgr) \<Rightarrow> bool" where
  "datas_ok ds m \<longleftrightarrow>
     (\<forall>i < length ds. td_thread_idx (ds ! i) = word_of_nat i \<and>
        (\<forall>e. td_evb (ds ! i) = Some e \<longrightarrow> tl_thread_id (m e) = word_of_nat i)) \<and>
     (\<forall>e. tl_pipelines (m e) = Map.empty \<and> tl_current_conn_id (m e) = 0)"

lemma indexed_datas_ok: "datas_ok (thread_datas s) (conn_mgrs s) \<Longrightarrow> indexed s"
  by (simp add: indexed_def datas_ok_def)

lemma thread_started_datas_ok:
  assumes ok: "datas_ok ds m" and new: "ge h \<notin> event_bases ds"
    and st: "thread_started ge t h (idxs, ds, m) = (idxs', ds', m')"
  shows "datas_ok ds' m' \<and> event_bases ds' \<subseteq> insert (ge h) (event_bases ds)"
proof -
  let ?idx = "word_of_nat (length ds) :: u64"
  let ?evb = "if has_event_base t then Some (ge h) else None"
  have ds': "ds' = ds @ [\<lparr>td_group = t, td_thread_idx = ?idx, td_evb = ?evb\<rparr>]"
    and m': "m' = (if has_event_base t then m(ge h := set_thread_id (m (ge h)) ?idx) else m)"
    using st by (auto simp: thread_started_def new_thread_data_def Let_def)
  have "ge h \<noteq> e" if "i < length ds" "td_evb (ds ! i) = Some e" for i e
    using new that by (auto simp: event_bases_def dest: nth_mem)
  then have "datas_ok ds' m'"
    using ok by (auto simp: datas_ok_def ds' m' set_thread_id_def nth_append less_Suc_eq)
  then show ?thesis by (auto simp: ds' split: if_splits)
qed

lemma thread_started_fold_datas_ok:
  assumes "datas_ok ds m" "distinct (map ge hs)" "ge ` set hs \<inter> event_bases ds = {}"
    and "fold (thread_started ge t) hs (idxs, ds, m) = (idxs', ds', m')"
  shows "datas_ok ds' m' \<and> event_bases ds' \<subseteq> ge ` set hs \<union> event_bases ds"
  using assms
proof (induction hs arbitrary: idxs ds m)
  case (Cons h hs)
  obtain i1 d1 m1 where one: "thread_started ge t h (idxs, ds, m) = (i1, d1, m1)"
    by (cases "thread_started ge t h (idxs, ds, m)") auto
  have ok1: "datas_ok d1 m1" "event_bases d1 \<subseteq> insert (ge h) (event_bases ds)"
    using thread_started_datas_ok [OF Cons.prems(1) _ one] Cons.prems(3) by auto
  have f: "fold (thread_started ge t) hs (i1, d1, m1) = (idxs', ds', m')"
    using Cons.prems(4) one by simp
  have "distinct (map ge hs)" using Cons.prems(2) by simp
  moreover have "ge ` set hs \<inter> event_bases d1 = {}"
  proof -
    have "ge h \<notin> ge ` set hs" using Cons.prems(2) by simp
    moreover have "ge ` set hs \<inter> event_bases ds = {}" using Cons.prems(3) by simp
    moreover have "e \<in> event_bases d1 \<Longrightarrow> e = ge h \<or> e \<in> event_bases ds" for e
      using ok1(2) by blast
    ultimately show ?thesis by (metis disjoint_iff)
  qed
  ultimately
  have "datas_ok ds' m' \<and> event_bases ds' \<subseteq> ge ` set hs \<union> event_bases d1"
    using Cons.IH [OF ok1(1) _ _ f] by simp
  with ok1(2) show ?case by auto
qed simp

lemma MakeThreadGroup_datas_ok:
  assumes "datas_ok (thread_datas s) (conn_mgrs s)"
    and "\<And>k z. distinct (map ge (mp n k z))"
    and "\<And>k z. ge ` set (mp n k z) \<inter> event_bases (thread_datas s) = {}"
    and "MakeThreadGroup mp ge s n t sz = (g, s')"
  shows "datas_ok (thread_datas s') (conn_mgrs s') \<and>
         event_bases (thread_datas s') \<subseteq>
           (\<Union>k z. ge ` set (mp n k z)) \<union> event_bases (thread_datas s)"
proof (cases "group_pool_kind t")
  case None
  then show ?thesis using assms by (auto simp: MakeThreadGroup_def new_ThreadGroup_def)
next
  case (Some kind)
  obtain idxs ds ms where f: "fold (thread_started ge t) (mp n kind sz)
      ([], thread_datas s, conn_mgrs s) = (idxs, ds, ms)"
    by (cases "fold (thread_started ge t) (mp n kind sz) ([], thread_datas s, conn_mgrs s)") auto
  have "s' = s\<lparr>thread_datas := ds, conn_mgrs := ms\<rparr>"
    using assms(4) Some f by (simp add: MakeThreadGroup_def new_ThreadGroup_def)
  with thread_started_fold_datas_ok [OF assms(1-3) f] show ?thesis by fastforce
qed

lemma Initialize_loop_datas_ok:
  assumes "datas_ok (thread_datas s) (conn_mgrs s)"
    and "own_event_bases ge mp"
    and "event_bases (thread_datas s) \<subseteq> (\<Union>i < n. \<Union>k z. ge ` set (mp i k z))"
  shows "datas_ok (thread_datas (Initialize_loop mp ge n opts s))
           (conn_mgrs (Initialize_loop mp ge n opts s))"
  using assms(1,3)
proof (induction opts arbitrary: n s)
  case (Cons opt opts)
  obtain g s1 where mk: "MakeThreadGroup mp ge s n (tgo_thread_type opt) (tgo_thread_size opt) = (g, s1)"
    by fastforce
  have disj: "ge ` set (mp n k z) \<inter> event_bases (thread_datas s) = {}" for k z
    using Cons.prems(2) own_event_basesD(2) [OF assms(2)] by blast
  have ok: "datas_ok (thread_datas s1) (conn_mgrs s1)"
    and sub: "event_bases (thread_datas s1) \<subseteq> (\<Union>i < Suc n. \<Union>k z. ge ` set (mp i k z))"
    using MakeThreadGroup_datas_ok [OF Cons.prems(1) own_event_basesD(1) [OF assms(2)] disj mk] Cons.prems(2)
    by (auto simp: lessThan_Suc)
  then show ?case using mk by (simp add: Cons.IH)
qed simp

lemma new_ThreadGroupListManager_indexed:
  assumes "own_event_bases ge mp"
  shows "indexed (new_ThreadGroupListManager mp ge options)"
proof -
  have "datas_ok [] (\<lambda>_. new_ThreadLocalConnManager)"
    by (simp add: datas_ok_def new_ThreadLocalConnManager_def)
  then show ?thesis
    unfolding new_ThreadGroupListManager_def ThreadGroupListManager_Initialize_def
    by (intro indexed_datas_ok)
       (auto simp: event_bases_def intro!: Initialize_loop_datas_ok assms)
qed

section \<open>Groups by type\<close>

lemma unat_ucast_u32: "unat (ucast (r :: u32) :: u64) = unat r"
  using unsigned_less [of r, where 'a = nat] by (simp add: unsigned_ucast_eq take_bit_nat_eq_self)

lemma MakeThreadGroup_groups: "MakeThreadGroup mp ge s n t z = (g, s') \<Longrightarrow> thread_groups s' = thread_groups s"
  by (auto simp: MakeThreadGroup_def new_ThreadGroup_def Let_def split: option.splits prod.splits)

lemma Initialize_loop_groups:
  "length (thread_groups (Initialize_loop mp ge n opts s)) = length (thread_groups s) \<and>
   (t \<notin> tgo_thread_type ` set opts \<longrightarrow>
    thread_groups (Initialize_loop mp ge n opts s) ! thread_type_int t = thread_groups s ! thread_type_int t)"
proof (induction opts arbitrary: n s)
  case (Cons opt opts)
  obtain g s1 where mk: "MakeThreadGroup mp ge s n (tgo_thread_type opt) (tgo_thread_size opt) = (g, s1)"
    by fastforce
  then show ?case using Cons.IH MakeThreadGroup_groups [OF mk] by (auto simp: thread_type_int_inj)
qed simp

lemma GetThreadGroup_unconfigured:
  assumes "t \<notin> tgo_thread_type ` set options" "t \<noteq> MAX_TYPE"
  shows "GetThreadGroupByThreadType (new_ThreadGroupListManager mp ge options) t = Inr None"
proof -
  have "unat (word_of_nat (thread_type_int t) :: u64) = thread_type_int t"
    using thread_type_int_less [OF assms(2)] by (simp add: unsigned_of_nat take_bit_nat_eq_self)
  then show ?thesis
    using assms(1) thread_type_int_less [OF assms(2)]
    by (simp add: vec_at_def Initialize_loop_groups [THEN conjunct1]
        Initialize_loop_groups [THEN conjunct2, rule_format] GetThreadGroupByThreadType_def new_ThreadGroupListManager_def
        ThreadGroupListManager_Initialize_def)
qed

lemma conf_group_cases:
  assumes "conf_group hc conf key t opts = Inr opts'"
  obtains "opts' = opts" "json_find conf key = None"
  | v n where "json_find conf key = Some v" "json_get_int v = Inr n"
      "opts' = opts @ [\<lparr>tgo_thread_type = t, tgo_thread_size = group_size hc n\<rparr>]"
  using assms by (auto simp: conf_group_def rbind_eq_Inr_iff split: option.splits)

lemma conf_group_types:
  "conf_group hc conf key t opts = Inr opts' \<Longrightarrow>
   \<exists>zs. opts' = opts @ map (\<lambda>z. \<lparr>tgo_thread_type = t, tgo_thread_size = group_size hc z\<rparr>) zs \<and> length zs \<le> 1"
  by (erule conf_group_cases) (force intro: exI [of _ "[]"] exI [of _ "[x]" for x])+

lemma group_size_pos: "unat hc < 2 ^ 31 \<Longrightarrow> 0 < group_size hc n"
proof -
  assume hc: "unat hc < 2 ^ 31"
  have "uint (GetIOThreadSize hc) = (if hc = 0 then 8 else uint hc)"
    using order_less_trans [OF unsigned_less [of hc, where 'a = int], of "2 ^ 64"]
    by (simp add: GetIOThreadSize_def unsigned_ucast_eq take_bit_int_eq_self_iff)
  moreover have "uint hc < 2 ^ 31"
    using hc by (metis of_nat_less_iff of_nat_numeral of_nat_power uint_nat)
  moreover have "0 < uint hc" if "hc \<noteq> 0" using that by (simp add: word_neq_0_conv word_less_def)
  ultimately show ?thesis by (auto simp: group_size_def to_i32_id)
qed

lemma SetConf_steps:
  assumes "ThreadGroupListOption_SetConf hc opts n conf = Inr opts'"
  obtains (conn) o1 o2 o3 where "json_find conf ''conn'' \<noteq> None"
      "conf_group hc conf ''conn'' CONN opts = Inr o1" "conf_group hc conf ''fiber'' FIBER o1 = Inr o2"
      "conf_group hc conf ''db'' DB o2 = Inr o3" "conf_group hc conf ''redis'' REDIS o3 = Inr opts'"
  | (split) o0 o1 o2 o3 where "json_find conf ''conn'' = None"
      "conf_group hc conf ''accept'' CONN_ACCEPT opts = Inr o0"
      "conf_group hc conf ''client'' CONN_CLIENT o0 = Inr o1" "conf_group hc conf ''fiber'' FIBER o1 = Inr o2"
      "conf_group hc conf ''db'' DB o2 = Inr o3" "conf_group hc conf ''redis'' REDIS o3 = Inr opts'"
  using assms by (auto simp: ThreadGroupListOption_SetConf_def rbind_eq_Inr_iff split: if_splits)

text \<open>What one configuration key contributes.\<close>

lemma conf_group_adds:
  assumes "conf_group hc conf key t opts = Inr opts'"
  shows "tgo_thread_type ` set opts' =
       tgo_thread_type ` set opts \<union> (if json_find conf key = None then {} else {t})"
    and "distinct (map tgo_thread_type opts) \<Longrightarrow> t \<notin> tgo_thread_type ` set opts \<Longrightarrow>
       distinct (map tgo_thread_type opts')"
    and "unat hc < 2 ^ 31 \<Longrightarrow> \<forall>g \<in> set opts. 0 < tgo_thread_size g \<Longrightarrow> \<forall>g \<in> set opts'. 0 < tgo_thread_size g"
  using assms by (auto elim!: conf_group_cases simp: group_size_pos)

lemma SetConf_types:
  assumes "ThreadGroupListOption_SetConf hc opts n conf = Inr opts'"
  shows "tgo_thread_type ` set opts' = tgo_thread_type ` set opts \<union>
     {t. (t = CONN \<and> json_find conf ''conn'' \<noteq> None) \<or>
         (t = CONN_ACCEPT \<and> json_find conf ''conn'' = None \<and> json_find conf ''accept'' \<noteq> None) \<or>
         (t = CONN_CLIENT \<and> json_find conf ''conn'' = None \<and> json_find conf ''client'' \<noteq> None) \<or>
         (t = FIBER \<and> json_find conf ''fiber'' \<noteq> None) \<or>
         (t = DB \<and> json_find conf ''db'' \<noteq> None) \<or> (t = REDIS \<and> json_find conf ''redis'' \<noteq> None)}"
  using assms
proof (cases rule: SetConf_steps)
  case (conn o1 o2 o3)
  note a = conn(2-5) [THEN conf_group_adds(1)]
  show ?thesis using conn(1) by (auto simp: a)
next
  case (split o0 o1 o2 o3)
  note a = split(2-6) [THEN conf_group_adds(1)]
  show ?thesis using split(1) by (auto simp: a)
qed

text \<open>A connection group has an executor exactly if it is configured.\<close>

lemma Initialize_loop_configured:
  assumes "t \<in> tgo_thread_type ` set opts" "group_pool_kind t \<noteq> None" "thread_type_int t < length (thread_groups s)"
  shows "thread_groups (Initialize_loop mp ge n opts s) ! thread_type_int t \<noteq> None"
  using assms
proof (induction opts arbitrary: n s)
  case (Cons opt opts)
  obtain g s1 where mk: "MakeThreadGroup mp ge s n (tgo_thread_type opt) (tgo_thread_size opt) = (g, s1)"
    by fastforce
  let ?s = "s1\<lparr>thread_groups := (thread_groups s1)[thread_type_int (tgo_thread_type opt) := g]\<rparr>"
  have len: "length (thread_groups ?s) = length (thread_groups s)" using MakeThreadGroup_groups [OF mk] by simp
  show ?case
  proof (cases "t \<in> tgo_thread_type ` set opts")
    case True
    then show ?thesis using Cons.IH [of ?s] Cons.prems(2,3) len mk by simp
  next
    case False
    then have t: "t = tgo_thread_type opt" using Cons.prems(1) by auto
    then have "g \<noteq> None" using mk Cons.prems(2) by (auto simp: MakeThreadGroup_def new_ThreadGroup_def Let_def split: prod.splits)
    then show ?thesis
      using Initialize_loop_groups [of mp ge "Suc n" opts ?s t] False t Cons.prems(3) len mk by simp
  qed
qed simp

lemma executor_configured:
  assumes "t \<in> tgo_thread_type ` set opts" "t = CONN_ACCEPT \<or> t = CONN_CLIENT"
  obtains pool where
    "GetIOThreadPoolExecutor (new_ThreadGroupListManager mp ge opts :: ('h, 'e, 'p) tg_manager) t = Inr (Some pool)"
proof -
  let ?s = "new_ThreadGroupListManager mp ge opts :: ('h, 'e, 'p) tg_manager"
  have ne: "opts \<noteq> []" using assms(1) by auto
  have "length (thread_groups ?s) = 33"
    using ne by (simp add: new_ThreadGroupListManager_def ThreadGroupListManager_Initialize_def
        Initialize_loop_groups [THEN conjunct1])
  moreover have "thread_groups ?s ! thread_type_int t \<noteq> None"
    unfolding new_ThreadGroupListManager_def ThreadGroupListManager_Initialize_def
    using ne assms by (simp del: not_None_eq, intro Initialize_loop_configured) auto
  ultimately show thesis using that assms(2) by (auto simp: GetIOThreadPoolExecutor_def vec_at_def)
qed

lemma executor_unconfigured:
  assumes "t \<notin> tgo_thread_type ` set opts" "t = CONN_ACCEPT \<or> t = CONN_CLIENT"
  shows "GetIOThreadPoolExecutor (new_ThreadGroupListManager mp ge opts) t = Inr None"
proof -
  have "t \<noteq> MAX_TYPE" using assms(2) by auto
  then show ?thesis using assms by (simp add: GetIOThreadPoolExecutor_def
      GetThreadGroup_unconfigured [unfolded GetThreadGroupByThreadType_def])
qed

text \<open>All threads of one pool: consecutive indices, in the order the observer reports them.\<close>

lemma thread_started_fold:
  assumes "fold (thread_started ge t) hs (ixs, ds, m) = (ixs', ds', m')"
  shows "ixs' = ixs @ map word_of_nat [length ds..<length ds + length hs] \<and>
     ds' = ds @ map (\<lambda>j. \<lparr>td_group = t, td_thread_idx = word_of_nat (length ds + j),
       td_evb = (if has_event_base t then Some (ge (hs ! j)) else None)\<rparr>) [0..<length hs]"
  using assms
proof (induction hs arbitrary: ixs ds m)
  case (Cons h hs)
  obtain m1 where one: "thread_started ge t h (ixs, ds, m) = (ixs @ [word_of_nat (length ds)],
      ds @ [\<lparr>td_group = t, td_thread_idx = word_of_nat (length ds),
             td_evb = (if has_event_base t then Some (ge h) else None)\<rparr>], m1)"
    by (simp add: thread_started_def new_thread_data_def Let_def)
  have "[length ds..<length ds + length (h # hs)] = length ds # [Suc (length ds)..<Suc (length ds) + length hs]"
    by (simp add: upt_conv_Cons del: upt_Suc)
  with Cons.IH [OF Cons.prems [unfolded fold_Cons comp_apply one]] show ?case
    by (simp add: map_upt_Suc add.left_commute del: upt_Suc)
qed simp

section \<open>The threads of an executor have event bases the manager knows\<close>

lemma event_bases_Un: "event_bases (xs @ ys) = event_bases xs \<union> event_bases ys"
  by (auto simp: event_bases_def)

lemma event_bases_upt: "event_bases (map F [0..<n]) = {e. \<exists>j < n. td_evb (F j) = Some e}"
  by (auto simp: event_bases_def)

lemma MakeThreadGroup_bases:
  assumes "MakeThreadGroup mp ge s n t z = (g, s')"
  shows "event_bases (thread_datas s) \<subseteq> event_bases (thread_datas s')"
    and "g = Some x \<Longrightarrow> has_event_base t \<Longrightarrow> ge ` set (snd (tg_pool x)) \<subseteq> event_bases (thread_datas s')"
proof -
  have "thread_datas s' = thread_datas s \<and> g = None \<or>
    (\<exists>kind m. s' = s\<lparr>thread_datas := thread_datas s @ map (\<lambda>j. \<lparr>td_group = t, td_thread_idx = word_of_nat (length (thread_datas s) + j),
       td_evb = (if has_event_base t then Some (ge (mp n kind z ! j)) else None)\<rparr>) [0..<length (mp n kind z)],
         conn_mgrs := m\<rparr> \<and> map_option (snd \<circ> tg_pool) g = Some (mp n kind z))"
  proof (cases "group_pool_kind t")
    case None
    then show ?thesis using assms by (simp add: MakeThreadGroup_def new_ThreadGroup_def)
  next
    case (Some kind)
    obtain ixs ds m where f: "fold (thread_started ge t) (mp n kind z) ([], thread_datas s, conn_mgrs s) = (ixs, ds, m)"
      by (metis prod_cases3)
    have "s' = s\<lparr>thread_datas := ds, conn_mgrs := m\<rparr>" "map_option (snd \<circ> tg_pool) g = Some (mp n kind z)"
      using assms Some f by (auto simp: MakeThreadGroup_def new_ThreadGroup_def)
    with thread_started_fold [OF f] show ?thesis by blast
  qed
  then show "event_bases (thread_datas s) \<subseteq> event_bases (thread_datas s')"
    and "g = Some x \<Longrightarrow> has_event_base t \<Longrightarrow> ge ` set (snd (tg_pool x)) \<subseteq> event_bases (thread_datas s')"
    by (auto simp: event_bases_Un event_bases_upt in_set_conv_nth)
qed

definition pools_known :: "('h \<Rightarrow> 'e) \<Rightarrow> ('h, 'e, 'p) tg_manager \<Rightarrow> bool" where
  "pools_known ge s \<longleftrightarrow>
     (\<forall>t g. has_event_base t \<longrightarrow> thread_type_int t < length (thread_groups s) \<longrightarrow>
        thread_groups s ! thread_type_int t = Some g \<longrightarrow>
        ge ` set (snd (tg_pool g)) \<subseteq> event_bases (thread_datas s))"

lemma Initialize_loop_pools_known:
  "pools_known ge s \<Longrightarrow> pools_known ge (Initialize_loop mp ge n opts s)"
proof (induction opts arbitrary: n s)
  case (Cons opt opts)
  obtain g s1 where mk: "MakeThreadGroup mp ge s n (tgo_thread_type opt) (tgo_thread_size opt) = (g, s1)"
    by fastforce
  note b = MakeThreadGroup_bases [OF mk] and gs = MakeThreadGroup_groups [OF mk]
  have "pools_known ge (s1\<lparr>thread_groups := (thread_groups s1)[thread_type_int (tgo_thread_type opt) := g]\<rparr>)"
    unfolding pools_known_def
  proof (intro allI impI)
    fix t x
    assume t: "has_event_base t"
      and len: "thread_type_int t < length (thread_groups (s1\<lparr>thread_groups := (thread_groups s1)[thread_type_int (tgo_thread_type opt) := g]\<rparr>))"
      and x: "thread_groups (s1\<lparr>thread_groups := (thread_groups s1)[thread_type_int (tgo_thread_type opt) := g]\<rparr>) ! thread_type_int t = Some x"
    show "ge ` set (snd (tg_pool x)) \<subseteq>
        event_bases (thread_datas (s1\<lparr>thread_groups := (thread_groups s1)[thread_type_int (tgo_thread_type opt) := g]\<rparr>))"
    proof (cases "t = tgo_thread_type opt")
      case True
      then show ?thesis using b(2) [of x] x len t by simp
    next
      case False
      then have "thread_groups s ! thread_type_int t = Some x" using x by (simp add: gs thread_type_int_inj)
      then have "ge ` set (snd (tg_pool x)) \<subseteq> event_bases (thread_datas s)"
        using Cons.prems t len by (simp add: pools_known_def gs)
      with b(1) show ?thesis by simp
    qed
  qed
  from Cons.IH [OF this] mk show ?case by simp
qed simp

lemma pools_known_start:
  "pools_known ge \<lparr>thread_groups = replicate n None, thread_datas = ds, conn_mgrs = m\<rparr>"
  by (simp add: pools_known_def)

lemma executor_threads:
  assumes "GetIOThreadPoolExecutor s t = Inr (Some pool)" "s = new_ThreadGroupListManager mp ge opts"
  shows "ge ` set pool \<subseteq> event_bases (thread_datas s)"
proof -
  have t: "has_event_base t" using assms(1) by (cases t; simp add: GetIOThreadPoolExecutor_def has_event_base_def)
  then have "unat (word_of_nat (thread_type_int t) :: u64) = thread_type_int t"
    by (auto simp: has_event_base_def)
  then obtain g where g: "thread_type_int t < length (thread_groups s)"
    "thread_groups s ! thread_type_int t = Some g" "pool = snd (tg_pool g)"
    using assms(1) t
    by (auto simp: GetIOThreadPoolExecutor_def has_event_base_def [symmetric] rbind_eq_Inr_iff vec_at_Inr_iff)
  have "pools_known ge s"
    by (simp add: assms(2) new_ThreadGroupListManager_def ThreadGroupListManager_Initialize_def
        Initialize_loop_pools_known pools_known_start)
  with t g show ?thesis unfolding pools_known_def by blast
qed

section \<open>A concrete set of pools\<close>

text \<open>Pools whose threads are numbered; the event base of a thread is the thread itself.\<close>

definition demo_pool :: "nat \<Rightarrow> pool_kind \<Rightarrow> int \<Rightarrow> (nat \<times> nat) list" where
  "demo_pool n k z = map (Pair n) [0..<nat z]"

definition demo_options :: "thread_group_option list" where
  "demo_options =
     [\<lparr>tgo_thread_type = CONN_ACCEPT, tgo_thread_size = 2\<rparr>,
      \<lparr>tgo_thread_type = CONN_CLIENT, tgo_thread_size = 1\<rparr>]"

lemma demo_pool_own: "own_event_bases id demo_pool"
  by (auto simp: own_event_bases_def demo_pool_def distinct_map inj_on_def)

lemmas demo_manager_simps =
  demo_options_def demo_pool_def new_ThreadGroupListManager_def event_bases_def
  ThreadGroupListManager_Initialize_def MakeThreadGroup_def new_ThreadGroup_def thread_started_def new_thread_data_def has_event_base_def
  set_thread_id_def new_ThreadLocalConnManager_def upt_rec numeral_2_eq_2

section \<open>Properties\<close>

text \<open>
  Thread indices lead home: for any pools whose threads have event bases of their own,
  an id handed out on an event-loop thread carries the index under which
  \<open>GetEventBaseByThreadID\<close> finds exactly that thread's event base.
\<close>

theorem conn_id_leads_home:
  assumes "own_event_bases ge mp"
    and "s = new_ThreadGroupListManager mp ge options" "length (thread_datas s) \<le> 2 ^ 32"
    and "e \<in> event_bases (thread_datas s)" "TLCM_OnNewConnection (conn_mgrs s e) p = Some (m, c)"
  shows "GetEventBaseByThreadID s (id_hi c) = Inr (Some e)"
proof -
  have ix: "indexed s" unfolding assms(2) by (rule new_ThreadGroupListManager_indexed [OF assms(1)])
  obtain i where i: "i < length (thread_datas s)" "td_evb (thread_datas s ! i) = Some e"
    using assms(4) by (auto simp: event_bases_def in_set_conv_nth)
  then have "tl_thread_id (conn_mgrs s e) = word_of_nat i" using ix unfolding indexed_def by blast
  moreover have u: "unat (word_of_nat i :: u64) = i"
    using i(1) assms(3) by (simp add: unsigned_of_nat take_bit_nat_eq_self)
  ultimately have "id_hi c = word_of_nat i"
    using assms(3,5) i(1) by (auto elim!: TLCM_OnNewConnection_result)
  then show ?thesis using i u by (simp add: GetEventBaseByThreadID_def)
qed

theorem conn_id_leads_home_witness:
  "GetEventBaseByThreadID
     (new_ThreadGroupListManager demo_pool id demo_options :: (nat \<times> nat, nat \<times> nat, string) tg_manager)
     (id_hi (snd (the (TLCM_OnNewConnection
        (conn_mgrs (new_ThreadGroupListManager demo_pool id demo_options) (1, 0)) ''p'')))) =
   Inr (Some (1, 0))"
proof -
  let ?s = "new_ThreadGroupListManager demo_pool id demo_options :: (nat \<times> nat, nat \<times> nat, string) tg_manager"
  have m: "conn_mgrs ?s (Suc 0, 0) = \<lparr>tl_current_conn_id = 0, tl_thread_id = 2, tl_pipelines = Map.empty\<rparr>"
    and d: "length (thread_datas ?s) = 3" "(Suc 0, 0) \<in> event_bases (thread_datas ?s)"
    by (simp_all add: demo_manager_simps)
  then obtain m c where "TLCM_OnNewConnection (conn_mgrs ?s (Suc 0, 0)) ''p'' = Some (m, c)"
    by (simp add: TLCM_OnNewConnection_def)
  with conn_id_leads_home [OF demo_pool_own refl _ d(2) this] d(1)
  show ?thesis by simp
qed

text \<open>
  Reading the thread configuration: each key that is present adds one group of its type,
  \<open>accept\<close> and \<open>client\<close> only count when \<open>conn\<close> is absent, no type occurs twice, and every
  size is positive, also for a configured size of zero or less.
\<close>

theorem ThreadGroupListOption_SetConf_groups:
  assumes "ThreadGroupListOption_SetConf hc [] n conf = Inr opts" "unat hc < 2 ^ 31"
  shows "distinct (map tgo_thread_type opts) \<and> (\<forall>g \<in> set opts. 0 < tgo_thread_size g) \<and>
     tgo_thread_type ` set opts =
       {t. (t = CONN \<and> json_find conf ''conn'' \<noteq> None) \<or>
           (t = CONN_ACCEPT \<and> json_find conf ''conn'' = None \<and> json_find conf ''accept'' \<noteq> None) \<or>
           (t = CONN_CLIENT \<and> json_find conf ''conn'' = None \<and> json_find conf ''client'' \<noteq> None) \<or>
           (t = FIBER \<and> json_find conf ''fiber'' \<noteq> None) \<or>
           (t = DB \<and> json_find conf ''db'' \<noteq> None) \<or> (t = REDIS \<and> json_find conf ''redis'' \<noteq> None)}"
  using assms(1)
proof (cases rule: SetConf_steps)
  case (conn o1 o2 o3)
  note a = conn(2-5) [THEN conf_group_adds(1)]
  have "distinct (map tgo_thread_type opts)"
    by (intro conn(2-5) [THEN conf_group_adds(2)]) (auto simp: a split: if_splits)
  moreover have "\<forall>g \<in> set opts. 0 < tgo_thread_size g"
    by (intro conn(2-5) [THEN conf_group_adds(3)] assms(2)) simp
  ultimately show ?thesis using conn(1) by (auto simp: a)
next
  case (split o0 o1 o2 o3)
  note a = split(2-6) [THEN conf_group_adds(1)]
  have "distinct (map tgo_thread_type opts)"
    by (intro split(2-6) [THEN conf_group_adds(2)]) (auto simp: a split: if_splits)
  moreover have "\<forall>g \<in> set opts. 0 < tgo_thread_size g"
    by (intro split(2-6) [THEN conf_group_adds(3)] assms(2)) simp
  ultimately show ?thesis using split(1) by (auto simp: a)
qed

theorem ThreadGroupListOption_SetConf_groups_witness:
  "tgo_thread_type ` set [\<lparr>tgo_thread_type = CONN_ACCEPT, tgo_thread_size = 8\<rparr>,
     \<lparr>tgo_thread_type = DB, tgo_thread_size = 3\<rparr>] = {CONN_ACCEPT, DB}"
proof -
  let ?conf = "JObject [(''accept'', JInt 0), (''db'', JUInt 3)]"
  have "ThreadGroupListOption_SetConf 0 [] [] ?conf =
     Inr [\<lparr>tgo_thread_type = CONN_ACCEPT, tgo_thread_size = 8\<rparr>, \<lparr>tgo_thread_type = DB, tgo_thread_size = 3\<rparr>]"
    by (simp add: ThreadGroupListOption_SetConf_def conf_group_def group_size_def to_i32_id GetIOThreadSize_def)
  from ThreadGroupListOption_SetConf_groups [OF this] show ?thesis by auto
qed

text \<open>
  A configuration that asks for the combined \<open>conn\<close> group gets no connection threads at
  all: \<open>MakeThreadGroup\<close> does not support the type, and \<open>accept\<close> and \<open>client\<close> are not read
  beside it, so neither executor exists.
\<close>

theorem conn_group_gives_no_executor:
  assumes "json_find conf ''conn'' = Some v" "ThreadGroupListOption_SetConf hc [] n conf = Inr opts"
    and "t = CONN_ACCEPT \<or> t = CONN_CLIENT"
  shows "GetIOThreadPoolExecutor (new_ThreadGroupListManager mp ge opts) t = Inr None"
proof -
  have "t \<notin> tgo_thread_type ` set opts" using SetConf_types [OF assms(2)] assms(1,3) by auto
  then show ?thesis using assms(3) by (rule executor_unconfigured)
qed

theorem conn_group_gives_no_executor_witness:
  "GetIOThreadPoolExecutor (new_ThreadGroupListManager demo_pool id
     [\<lparr>tgo_thread_type = CONN, tgo_thread_size = 4\<rparr>]) CONN_ACCEPT = Inr None"
  by (rule conn_group_gives_no_executor [of "JObject [(''conn'', JInt 4), (''accept'', JInt 2)]" "JInt 4" 0 "[]"])
     (simp_all add: ThreadGroupListOption_SetConf_def conf_group_def group_size_def to_i32_id)

text \<open>
  \<open>GetEventBaseByThreadType\<close> draws a position inside the group and uses it as a
  process-wide thread index: with the accepting group created first and at least as large as
  the client group, every draw for \<open>CONN_CLIENT\<close> yields the event base of an accepting
  thread.
\<close>

theorem GetEventBaseByThreadType_wrong_group:
  assumes "opts = [\<lparr>tgo_thread_type = CONN_ACCEPT, tgo_thread_size = a\<rparr>,
                   \<lparr>tgo_thread_type = CONN_CLIENT, tgo_thread_size = b\<rparr>]"
    and "length (mp 1 IOThreadPool b) \<le> length (mp 0 IOThreadPool a)"
    and "length (mp 0 IOThreadPool a) < 2 ^ 32"
    and "0 < length (mp 1 IOThreadPool b)"
    and "\<And>m. m \<noteq> 0 \<Longrightarrow> rand32 m < m"
  shows "\<exists>e \<in> ge ` set (mp 0 IOThreadPool a).
     GetEventBaseByThreadType rand32
       (new_ThreadGroupListManager mp ge opts :: ('h, 'e, 'p) tg_manager) CONN_CLIENT = Inr (Some e)"
proof -
  let ?A = "mp 0 IOThreadPool a" and ?B = "mp 1 IOThreadPool b"
  let ?s = "new_ThreadGroupListManager mp ge opts :: ('h, 'e, 'p) tg_manager" and ?n = "word_of_nat (length (mp 1 IOThreadPool b)) :: u32"
  obtain ix ds ms where A: "fold (thread_started ge CONN_ACCEPT) ?A
      ([], [], \<lambda>_. new_ThreadLocalConnManager :: 'p tl_conn_mgr) = (ix, ds, ms)"
    by (metis prod_cases3)
  obtain js ds' ms' where B: "fold (thread_started ge CONN_CLIENT) ?B ([], ds, ms) = (js, ds', ms')"
    by (metis prod_cases3)
  note la = thread_started_fold [OF A] and lb = thread_started_fold [OF B]
  have td: "thread_datas ?s = ds'" and tg: "vec_at (thread_groups ?s) 4 =
      Inr (Some \<lparr>tg_pool = (IOThreadPool, ?B), tg_type = CONN_CLIENT, tg_thread_idxs = js\<rparr>)"
    using A B by (simp_all add: assms(1) new_ThreadGroupListManager_def vec_at_def
        ThreadGroupListManager_Initialize_def MakeThreadGroup_def new_ThreadGroup_def Let_def)
  have n: "unat ?n = length ?B" using assms(2,3) by (simp add: unsigned_of_nat take_bit_nat_eq_self)
  then have "?n \<noteq> 0" using assms(4) by auto
  then have r: "unat (rand32 ?n) < length ?A"
    using assms(2,5) n by (metis order_less_le_trans word_less_nat_alt)
  have u: "unat (ucast (rand32 ?n) :: u64) = unat (rand32 ?n)"
    by (rule unat_ucast_u32)
  have "td_evb (ds' ! unat (rand32 ?n)) = Some (ge (?A ! unat (rand32 ?n)))"
    using r by (simp add: lb la nth_append has_event_base_def)
  then show ?thesis
    using r u by (auto simp: GetEventBaseByThreadType_def GetThreadGroupByThreadType_def td tg lb la)
qed

theorem GetEventBaseByThreadType_wrong_group_witness:
  "\<exists>e \<in> id ` set (demo_pool 0 IOThreadPool 2).
     GetEventBaseByThreadType (\<lambda>m. m - 1) (new_ThreadGroupListManager demo_pool id demo_options) CONN_CLIENT =
       Inr (Some e)"
  by (rule GetEventBaseByThreadType_wrong_group [of _ _ 1])
     (simp_all add: demo_options_def demo_pool_def word_less_nat_alt unat_minus_one unat_gt_0)

end
