(* ===== verification/Conn_Routing.thy ===== *)
theory Conn_Routing
  imports Thread_Groups Transition_Systems
begin

text \<open>
  Sending by connection id: \<open>ServiceManager::SendIOBuf(conn_id, data)\<close> finds the event
  base named by the upper half of the id, posts a closure to it, and the closure looks the
  lower half up in that thread's connection manager. The theory follows connections, sends
  and event-loop turns through all threads at once and proves that a buffer reaches only
  the connection its id was handed out for, in the order of sending.
\<close>

section \<open>The operation\<close>

text \<open>
  \<open>runInEventBaseThread\<close> puts a closure from another thread into the notification queue of
  the event base and one from the event base's own thread into the callbacks of its loop; it
  promises to run each of the two in order, and nothing about which of them comes first.
\<close>

datatype lane = OtherThread | OwnThread

definition lane_of :: "'e option \<Rightarrow> 'e \<Rightarrow> lane" where
  "lane_of caller e = (if caller = Some e then OwnThread else OtherThread)"

text \<open>
  The threads with their connection managers, and the closures posted to each event base
  and not yet run.
\<close>

record ('h, 'e, 'p) net =
  n_threads :: "('h, 'e, 'p) tg_manager"
  n_queue :: "'e \<times> lane \<Rightarrow> (u64 \<times> iobuf) list"

text \<open>\<open>caller\<close> is the event base whose thread calls, if any.\<close>

definition ServiceManager_SendIOBuf_conn ::
  "('h, 'e, 'p) net \<Rightarrow> 'e option \<Rightarrow> u64 \<Rightarrow> iobuf \<Rightarrow> (('h, 'e, 'p) net \<times> bool) res" where
  "ServiceManager_SendIOBuf_conn s caller conn_id data =
     rbind (GetEventBaseByThreadID (n_threads s) (id_hi conn_id)) (\<lambda>evb.
       case evb of
         None \<Rightarrow> Inr (s, False)
       | Some e \<Rightarrow>
           let q = (e, lane_of caller e)
           in Inr (s\<lparr>n_queue := (n_queue s)(q := n_queue s q @ [(conn_id, data)])\<rparr>, True))"

definition conn_ToString :: "u64 \<Rightarrow> string" where
  "conn_ToString conn_id =
     ''[conn_id='' @ dec (unat conn_id) @ '', thread_idx='' @ dec (unat (drop_bit 32 conn_id)) @
     '', conn_idx='' @ dec (unat (conn_id AND 0xffffffff)) @ '']''"

text \<open>
  One turn of an event loop: the oldest closure of one of the two queues, run on the
  thread's own manager.
\<close>

definition run_posted ::
  "('h, 'e, 'p) net \<Rightarrow> 'e \<Rightarrow> lane \<Rightarrow> ((u64 \<times> iobuf) \<times> 'p option \<times> ('h, 'e, 'p) net) option" where
  "run_posted s e l =
     (case n_queue s (e, l) of
        [] \<Rightarrow> None
      | (c, b) # q \<Rightarrow>
          Some ((c, b),
                map_option fst (fst (TLCM_SendIOBufByConnID (conn_mgrs (n_threads s) e) c b)),
                s\<lparr>n_queue := (n_queue s)((e, l) := q)\<rparr>))"

section \<open>Runs\<close>

datatype ('e, 'p) net_event =
    Opened 'e 'p u64 | Closed 'e u64
  | Sent "'e option" u64 iobuf | Wrote lane u64 'p iobuf | Dropped lane u64 iobuf

definition set_mgr :: "('h, 'e, 'p) net \<Rightarrow> 'e \<Rightarrow> 'p tl_conn_mgr \<Rightarrow> ('h, 'e, 'p) net" where
  "set_mgr s e m =
     s\<lparr>n_threads := (n_threads s)\<lparr>conn_mgrs := (conn_mgrs (n_threads s))(e := m)\<rparr>\<rparr>"

inductive net_step :: "('h, 'e, 'p) net \<Rightarrow> ('e, 'p) net_event \<Rightarrow> ('h, 'e, 'p) net \<Rightarrow> bool" where
  opened: "e \<in> event_bases (thread_datas (n_threads s)) \<Longrightarrow>
     TLCM_OnNewConnection (conn_mgrs (n_threads s) e) p = Some (m, c) \<Longrightarrow>
     net_step s (Opened e p c) (set_mgr s e m)"
| closed: "e \<in> event_bases (thread_datas (n_threads s)) \<Longrightarrow>
     TLCM_OnConnectionClosed (conn_mgrs (n_threads s) e) c p = (m, b) \<Longrightarrow>
     net_step s (Closed e c) (set_mgr s e m)"
| sent: "ServiceManager_SendIOBuf_conn s caller c b = Inr (s', True) \<Longrightarrow>
     net_step s (Sent caller c b) s'"
| wrote: "e \<in> event_bases (thread_datas (n_threads s)) \<Longrightarrow>
     run_posted s e l = Some ((c, b), Some p, s') \<Longrightarrow> net_step s (Wrote l c p b) s'"
| dropped: "e \<in> event_bases (thread_datas (n_threads s)) \<Longrightarrow>
     run_posted s e l = Some ((c, b), None, s') \<Longrightarrow> net_step s (Dropped l c b) s'"

definition opened_count :: "'e \<Rightarrow> ('e, 'p) net_event list \<Rightarrow> nat" where
  "opened_count e tr = length (filter (\<lambda>ev. \<exists>p c. ev = Opened e p c) tr)"

text \<open>
  Buffers sent towards a thread, given by its index and its event base, and buffers it
  has handled, in order, by the queue they take.
\<close>

fun sents :: "u64 \<Rightarrow> 'e \<Rightarrow> lane \<Rightarrow> ('e, 'p) net_event list \<Rightarrow> (u64 \<times> iobuf) list" where
  "sents i e l [] = []"
| "sents i e l (Sent caller c b # tr) =
     (if id_hi c = i \<and> lane_of caller e = l then (c, b) # sents i e l tr else sents i e l tr)"
| "sents i e l (ev # tr) = sents i e l tr"

fun handled :: "u64 \<Rightarrow> lane \<Rightarrow> ('e, 'p) net_event list \<Rightarrow> (u64 \<times> iobuf) list" where
  "handled i l [] = []"
| "handled i l (Wrote l' c p b # tr) = (if id_hi c = i \<and> l' = l then (c, b) # handled i l tr else handled i l tr)"
| "handled i l (Dropped l' c b # tr) = (if id_hi c = i \<and> l' = l then (c, b) # handled i l tr else handled i l tr)"
| "handled i l (ev # tr) = handled i l tr"

lemma sents_append [simp]: "sents i e l (tr @ tr') = sents i e l tr @ sents i e l tr'"
  by (induction i e l tr rule: sents.induct) auto

lemma handled_append [simp]: "handled i l (tr @ tr') = handled i l tr @ handled i l tr'"
  by (induction i l tr rule: handled.induct) auto

lemma set_sents:
  "set (sents i e l tr) = {(c, b). \<exists>caller. Sent caller c b \<in> set tr \<and> id_hi c = i \<and> lane_of caller e = l}"
  by (induction i e l tr rule: sents.induct) auto

lemma opened_count_append [simp]:
  "opened_count e (tr @ tr') = opened_count e tr + opened_count e tr'"
  by (simp add: opened_count_def)

lemma opened_count_Nil [simp]: "opened_count e [] = 0"
  by (simp add: opened_count_def)

lemma opened_count_single [simp]:
  "opened_count e [Opened e' p c] = (if e = e' then 1 else 0)"
  "opened_count e [Closed e' c] = 0"
  "opened_count e [Sent caller c b] = 0"
  "opened_count e [Wrote l c p b] = 0"
  "opened_count e [Dropped l c b] = 0"
  by (auto simp: opened_count_def)

lemma opened_count_Sent [simp]: "opened_count e (Sent caller c b # tr) = opened_count e tr"
  by (simp add: opened_count_def)

section \<open>The invariant\<close>

definition evb_index :: "('h, 'e, 'p) net \<Rightarrow> 'e \<Rightarrow> u64" where
  "evb_index s e = tl_thread_id (conn_mgrs (n_threads s) e)"

definition threads_ok :: "('h, 'e, 'p) net \<Rightarrow> bool" where
  "threads_ok s \<longleftrightarrow>
     length (thread_datas (n_threads s)) \<le> 2 ^ 32 \<and>
     (\<forall>i < length (thread_datas (n_threads s)). \<forall>e.
        td_evb (thread_datas (n_threads s) ! i) = Some e \<longrightarrow> evb_index s e = word_of_nat i)"

lemma unat_word_of_nat_u64: "n \<le> 2 ^ 32 \<Longrightarrow> unat (word_of_nat n :: u64) = n"
  by (simp add: unsigned_of_nat take_bit_nat_eq_self)

lemma threads_ok_index:
  assumes "threads_ok s" "e \<in> event_bases (thread_datas (n_threads s))"
  obtains i where "i < length (thread_datas (n_threads s))"
    "td_evb (thread_datas (n_threads s) ! i) = Some e" "evb_index s e = word_of_nat i"
    "unat (evb_index s e) = i" "i < 2 ^ 32"
proof -
  from assms(2) obtain i where i: "i < length (thread_datas (n_threads s))"
    "td_evb (thread_datas (n_threads s) ! i) = Some e"
    by (auto simp: event_bases_def in_set_conv_nth)
  with assms(1) have "evb_index s e = word_of_nat i" "i < 2 ^ 32"
    by (auto simp: threads_ok_def)
  with i show ?thesis using that [of i] by (simp add: unat_word_of_nat_u64)
qed

lemma evb_index_inj:
  assumes "threads_ok s" "e \<in> event_bases (thread_datas (n_threads s))"
    "e' \<in> event_bases (thread_datas (n_threads s))" "evb_index s e = evb_index s e'"
  shows "e = e'"
  using assms threads_ok_index [OF assms(1,2)] threads_ok_index [OF assms(1,3)]
  by (metis option.inject)

lemma evb_index_small:
  assumes "threads_ok s" "e \<in> event_bases (thread_datas (n_threads s))"
  shows "unat (evb_index s e) < 2 ^ 32"
  using threads_ok_index [OF assms] by metis

text \<open>Per thread: the table holds connections of the run only, numbered up to the counter.\<close>

definition mgr_ok :: "('e, 'p) net_event list \<Rightarrow> 'e \<Rightarrow> 'p tl_conn_mgr \<Rightarrow> bool" where
  "mgr_ok tr e m \<longleftrightarrow>
     below_counter m \<and> unat (tl_current_conn_id m) = opened_count e tr \<and>
     (\<forall>k p. tl_pipelines m k = Some p \<longrightarrow> Opened e p (pack_id (tl_thread_id m) k) \<in> set tr)"

definition ids_ok :: "('e, 'p) net_event list \<Rightarrow> ('h, 'e, 'p) net \<Rightarrow> bool" where
  "ids_ok tr s \<longleftrightarrow>
     (\<forall>e p c. Opened e p c \<in> set tr \<longrightarrow>
        e \<in> event_bases (thread_datas (n_threads s)) \<and>
        id_hi c = evb_index s e \<and> unat (id_lo c) \<le> opened_count e tr) \<and>
     (\<forall>e p e' p' c. Opened e p c \<in> set tr \<longrightarrow> Opened e' p' c \<in> set tr \<longrightarrow> p = p')"

text \<open>Every write was preceded by the send and by the connection.\<close>

definition writes_ok :: "('e, 'p) net_event list \<Rightarrow> bool" where
  "writes_ok tr \<longleftrightarrow>
     (\<forall>l c p b. Wrote l c p b \<in> set tr \<longrightarrow>
        (\<exists>caller e. Sent caller c b \<in> set tr \<and> Opened e p c \<in> set tr \<and> lane_of caller e = l))"

lemma writes_ok_snoc:
  assumes "writes_ok tr"
    and "\<And>l c p b. ev = Wrote l c p b \<Longrightarrow>
        \<exists>caller e. Sent caller c b \<in> set tr \<and> Opened e p c \<in> set tr \<and> lane_of caller e = l"
  shows "writes_ok (tr @ [ev])"
  using assms unfolding writes_ok_def by fastforce

definition net_inv :: "('e, 'p) net_event list \<Rightarrow> ('h, 'e, 'p) net \<Rightarrow> bool" where
  "net_inv tr s \<longleftrightarrow>
     threads_ok s \<and> ids_ok tr s \<and>
     (\<forall>e \<in> event_bases (thread_datas (n_threads s)).
        mgr_ok tr e (conn_mgrs (n_threads s) e) \<and>
        (\<forall>l. sents (evb_index s e) e l tr = handled (evb_index s e) l tr @ n_queue s (e, l))) \<and>
     writes_ok tr"

lemma set_mgr_simps [simp]:
  "thread_datas (n_threads (set_mgr s e m)) = thread_datas (n_threads s)"
  "conn_mgrs (n_threads (set_mgr s e m)) = (conn_mgrs (n_threads s))(e := m)"
  "n_queue (set_mgr s e m) = n_queue s"
  by (simp_all add: set_mgr_def)

lemma evb_index_set_mgr [simp]:
  "tl_thread_id m = evb_index s e \<Longrightarrow> evb_index (set_mgr s e m) = evb_index s"
  by (auto simp: evb_index_def)

lemma threads_ok_set_mgr:
  "tl_thread_id m = evb_index s e \<Longrightarrow> threads_ok (set_mgr s e m) = threads_ok s"
  by (simp add: threads_ok_def)

lemma mgr_ok_mono:
  "mgr_ok tr e m \<Longrightarrow> opened_count e [ev] = 0 \<Longrightarrow> mgr_ok (tr @ [ev]) e m"
  by (simp add: mgr_ok_def)

section \<open>Every step keeps the invariant\<close>

lemma net_inv_opened:
  assumes inv: "net_inv tr s" and e: "e \<in> event_bases (thread_datas (n_threads s))"
    and op: "TLCM_OnNewConnection (conn_mgrs (n_threads s) e) p = Some (m, c)"
    and bound: "opened_count e tr + 1 < 2 ^ 32"
  shows "net_inv (tr @ [Opened e p c]) (set_mgr s e m)"
proof -
  let ?m = "conn_mgrs (n_threads s) e" and ?k = "tl_current_conn_id (conn_mgrs (n_threads s) e) + 1"
  let ?tr = "tr @ [Opened e p c]"
  have thr: "threads_ok s" and ids: "ids_ok tr s" and mo: "mgr_ok tr e ?m"
    using inv e by (auto simp: net_inv_def)
  have nw: "tl_current_conn_id ?m \<noteq> - 1"
  proof
    assume "tl_current_conn_id ?m = - 1"
    then have "unat (tl_current_conn_id ?m) = 2 ^ 32 - 1" by (simp add: unsigned_minus_1_eq_mask mask_eq_exp_minus_1)
    then show False using mo bound by (simp add: mgr_ok_def)
  qed
  then have k0: "?k \<noteq> 0" by (simp add: u32_succ_eq_0)
  have below: "below_counter ?m" using mo by (simp add: mgr_ok_def)
  have m: "m = ?m\<lparr>tl_current_conn_id := ?k, tl_pipelines := (tl_pipelines ?m)(?k \<mapsto> p)\<rparr>"
    and c: "c = pack_id (evb_index s e) ?k"
    using op TLCM_OnNewConnection_no_wrap [OF below nw] by (auto simp: evb_index_def)
  have tid: "tl_thread_id m = evb_index s e" by (simp add: m evb_index_def)
  have hi: "id_hi c = evb_index s e" using evb_index_small [OF thr e] by (simp add: c)
  have cnt: "unat ?k = opened_count e tr + 1"
    using mo unat_succ_no_wrap [OF k0] by (simp add: mgr_ok_def)
  have fresh: "Opened e' p' c \<notin> set tr" for e' p'
  proof
    assume o: "Opened e' p' c \<in> set tr"
    then have "e' \<in> event_bases (thread_datas (n_threads s))" "evb_index s e' = evb_index s e"
      and le: "unat (id_lo c) \<le> opened_count e' tr"
      using ids hi by (auto simp: ids_ok_def)
    then have "e' = e" using evb_index_inj [OF thr] e by blast
    then show False using le cnt by (simp add: c)
  qed
  have mgr: "mgr_ok ?tr e m"
    using mo below_counter_open [OF below nw op] cnt
    by (auto simp: mgr_ok_def m c evb_index_def)
  have "ids_ok ?tr (set_mgr s e m)"
    unfolding ids_ok_def using ids fresh e hi cnt
    by (auto simp: ids_ok_def tid c le_SucI trans_le_add1)
  moreover have "mgr_ok ?tr e' (((conn_mgrs (n_threads s))(e := m)) e')"
    if "e' \<in> event_bases (thread_datas (n_threads s))" for e'
    using inv that mgr by (auto simp: net_inv_def intro: mgr_ok_mono)
  moreover have "writes_ok ?tr" using inv by (auto simp: net_inv_def intro: writes_ok_snoc)
  ultimately show ?thesis
    using inv thr tid by (auto simp: net_inv_def threads_ok_set_mgr)
qed

lemma net_inv_closed:
  assumes inv: "net_inv tr s" and e: "e \<in> event_bases (thread_datas (n_threads s))"
    and cl: "TLCM_OnConnectionClosed (conn_mgrs (n_threads s) e) c p = (m, b)"
  shows "net_inv (tr @ [Closed e c]) (set_mgr s e m)"
proof -
  let ?m = "conn_mgrs (n_threads s) e"
  have m: "m = fst (TLCM_OnConnectionClosed ?m c p)" by (simp add: cl)
  have tid: "tl_thread_id m = evb_index s e" by (simp add: m evb_index_def)
  have "mgr_ok tr e ?m" using inv e by (auto simp: net_inv_def)
  then have "mgr_ok tr e m"
    using below_counter_close [of ?m c p]
    by (auto simp: mgr_ok_def m tlcm.close_find split: if_splits)
  then have mgr: "mgr_ok (tr @ [Closed e c]) e m" by (simp add: mgr_ok_mono)
  have "ids_ok (tr @ [Closed e c]) (set_mgr s e m)"
    using inv by (auto simp: net_inv_def ids_ok_def tid)
  with inv mgr show ?thesis
    by (auto simp: net_inv_def threads_ok_set_mgr tid intro: mgr_ok_mono writes_ok_snoc)
qed

lemma net_inv_queue:
  assumes inv: "net_inv tr s"
    and q: "\<And>e l. e \<in> event_bases (thread_datas (n_threads s)) \<Longrightarrow>
        sents (evb_index s e) e l (tr @ [ev]) = handled (evb_index s e) l (tr @ [ev]) @ q (e, l)"
    and ev: "\<And>e p c. ev \<noteq> Opened e p c"
    and wr: "\<And>l c p b. ev = Wrote l c p b \<Longrightarrow>
        \<exists>caller e. Sent caller c b \<in> set tr \<and> Opened e p c \<in> set tr \<and> lane_of caller e = l"
  shows "net_inv (tr @ [ev]) (s\<lparr>n_queue := q\<rparr>)"
proof -
  have cnt: "opened_count e [ev] = 0" for e using ev by (simp add: opened_count_def)
  have ix: "evb_index (s\<lparr>n_queue := q\<rparr>) = evb_index s" by (simp add: evb_index_def fun_eq_iff)
  have "ids_ok (tr @ [ev]) (s\<lparr>n_queue := q\<rparr>)"
    using inv ev cnt by (auto simp: net_inv_def ids_ok_def ix)
  moreover have "threads_ok (s\<lparr>n_queue := q\<rparr>)"
    using inv by (simp add: net_inv_def threads_ok_def ix)
  moreover have "writes_ok (tr @ [ev])"
    using inv wr by (intro writes_ok_snoc) (auto simp: net_inv_def)
  moreover have "mgr_ok (tr @ [ev]) e (conn_mgrs (n_threads s) e)"
    if "e \<in> event_bases (thread_datas (n_threads s))" for e
    using inv that cnt by (simp add: net_inv_def mgr_ok_mono)
  ultimately show ?thesis
    unfolding net_inv_def using q by (simp add: ix)
qed

lemma SendIOBuf_conn_posts:
  assumes "ServiceManager_SendIOBuf_conn s caller c b = Inr (s', True)" "threads_ok s"
  obtains e where "e \<in> event_bases (thread_datas (n_threads s))" "id_hi c = evb_index s e"
    "s' = s\<lparr>n_queue := (n_queue s)((e, lane_of caller e) := n_queue s (e, lane_of caller e) @ [(c, b)])\<rparr>"
proof -
  from assms(1) obtain e where
    d: "unat (id_hi c) < length (thread_datas (n_threads s))"
       "td_evb (thread_datas (n_threads s) ! unat (id_hi c)) = Some e"
    and s': "s' = s\<lparr>n_queue := (n_queue s)((e, lane_of caller e) := n_queue s (e, lane_of caller e) @ [(c, b)])\<rparr>"
    by (auto simp: ServiceManager_SendIOBuf_conn_def GetEventBaseByThreadID_def
        rbind_eq_Inr_iff vec_at_Inr_iff Let_def split: option.splits)
  have "e \<in> event_bases (thread_datas (n_threads s))" using d by (auto simp: event_bases_def)
  moreover have "id_hi c = evb_index s e" using assms(2) d by (auto simp: threads_ok_def)
  ultimately show thesis using that s' by blast
qed

lemma SendIOBuf_conn_accepts:
  assumes "threads_ok s" "e \<in> event_bases (thread_datas (n_threads s))" "id_hi c = evb_index s e"
  shows "ServiceManager_SendIOBuf_conn s caller c b =
     Inr (s\<lparr>n_queue := (n_queue s)((e, lane_of caller e) := n_queue s (e, lane_of caller e) @ [(c, b)])\<rparr>, True)"
proof -
  obtain i where "i < length (thread_datas (n_threads s))"
    "td_evb (thread_datas (n_threads s) ! i) = Some e" "unat (id_hi c) = i"
    using threads_ok_index [OF assms(1,2)] assms(3) by metis
  then show ?thesis
    by (simp add: ServiceManager_SendIOBuf_conn_def GetEventBaseByThreadID_def Let_def)
qed

lemma run_posted_SomeE:
  assumes "run_posted s e l = Some ((c, b), w, s')"
  obtains q where "n_queue s (e, l) = (c, b) # q"
    "s' = s\<lparr>n_queue := (n_queue s)((e, l) := q)\<rparr>"
    "w = tl_pipelines (conn_mgrs (n_threads s) e) (id_lo c)"
  using assms
  by (auto simp: run_posted_def TLCM_SendIOBufByConnID_def split: list.splits option.splits)

lemma net_inv_sent:
  assumes inv: "net_inv tr s" and send: "ServiceManager_SendIOBuf_conn s caller c b = Inr (s', True)"
  shows "net_inv (tr @ [Sent caller c b]) s'"
proof -
  have thr: "threads_ok s" using inv by (simp add: net_inv_def)
  from send thr obtain e where e: "e \<in> event_bases (thread_datas (n_threads s))"
    and hi: "id_hi c = evb_index s e"
    and s': "s' = s\<lparr>n_queue := (n_queue s)((e, lane_of caller e) := n_queue s (e, lane_of caller e) @ [(c, b)])\<rparr>"
    by (rule SendIOBuf_conn_posts)
  show ?thesis
    unfolding s' using inv e hi evb_index_inj [OF thr]
    by (intro net_inv_queue [OF inv]) (auto simp: net_inv_def)
qed

text \<open>What is queued at an event base was sent to an id of its thread.\<close>

lemma net_inv_queued:
  assumes "net_inv tr s" "e \<in> event_bases (thread_datas (n_threads s))" "(c, b) \<in> set (n_queue s (e, l))"
  shows "id_hi c = evb_index s e" and "\<exists>caller. Sent caller c b \<in> set tr \<and> lane_of caller e = l"
proof -
  have "sents (evb_index s e) e l tr = handled (evb_index s e) l tr @ n_queue s (e, l)"
    using assms(1,2) by (simp add: net_inv_def)
  then have "(c, b) \<in> set (sents (evb_index s e) e l tr)" using assms(3) by simp
  then show "id_hi c = evb_index s e" "\<exists>caller. Sent caller c b \<in> set tr \<and> lane_of caller e = l"
    by (auto simp: set_sents)
qed

lemma net_inv_handled:
  assumes inv: "net_inv tr s" and e: "e \<in> event_bases (thread_datas (n_threads s))"
    and run: "run_posted s e l = Some ((c, b), w, s')"
  shows "net_inv (tr @ [case w of Some p \<Rightarrow> Wrote l c p b | None \<Rightarrow> Dropped l c b]) s'"
proof -
  have thr: "threads_ok s" using inv by (simp add: net_inv_def)
  from run obtain q where q: "n_queue s (e, l) = (c, b) # q"
    and s': "s' = s\<lparr>n_queue := (n_queue s)((e, l) := q)\<rparr>"
    and w: "w = tl_pipelines (conn_mgrs (n_threads s) e) (id_lo c)"
    by (rule run_posted_SomeE)
  have sq: "sents (evb_index s e) e l tr = handled (evb_index s e) l tr @ n_queue s (e, l)"
    using inv e by (simp add: net_inv_def)
  have cb: "(c, b) \<in> set (n_queue s (e, l))" using q by simp
  note hi = net_inv_queued(1) [OF inv e cb]
  obtain caller where sent: "Sent caller c b \<in> set tr" "lane_of caller e = l"
    using net_inv_queued(2) [OF inv e cb] by blast
  have "Opened e p c \<in> set tr" if "w = Some p" for p
  proof -
    have "Opened e p (pack_id (evb_index s e) (id_lo c)) \<in> set tr"
      using inv e that w by (auto simp: net_inv_def mgr_ok_def evb_index_def)
    then show ?thesis using hi by (metis pack_id_unpack)
  qed
  then show ?thesis
    unfolding s' using inv e hi q sq sent evb_index_inj [OF thr]
    by (intro net_inv_queue [OF inv]) (auto simp: net_inv_def split: option.splits)
qed

lemma net_step_inv:
  assumes "net_step s ev s'" "net_inv tr s" "\<forall>e. opened_count e (tr @ [ev]) < 2 ^ 32"
  shows "net_inv (tr @ [ev]) s'"
  using assms(1)
proof cases
  case (opened e p m c)
  have "opened_count e tr + 1 < 2 ^ 32" using spec [OF assms(3), of e] opened(1) by simp
  then show ?thesis unfolding opened(1,2) by (rule net_inv_opened [OF assms(2) opened(3,4)])
next
  case (wrote e l c b p)
  then show ?thesis using net_inv_handled [OF assms(2) wrote(2,3)] by simp
next
  case (dropped e l c b)
  then show ?thesis using net_inv_handled [OF assms(2) dropped(2,3)] by simp
next
  case (closed e c p m b)
  show ?thesis unfolding closed(1,2) by (rule net_inv_closed [OF assms(2) closed(3,4)])
next
  case (sent caller c b)
  show ?thesis unfolding sent(1) by (rule net_inv_sent [OF assms(2) sent(2)])
qed

lemma net_run_inv:
  assumes "run net_step s0 tr s" "net_inv [] s0" "\<forall>e. opened_count e tr < 2 ^ 32"
  shows "net_inv tr s"
  using assms(1,3)
proof (induction rule: run.induct)
  case run_nil
  show ?case by (rule assms(2))
next
  case (run_snoc tr s ev s')
  have "opened_count e tr < 2 ^ 32" for e using spec [OF run_snoc.prems, of e] by simp
  then show ?case using run_snoc.IH run_snoc.hyps run_snoc.prems net_step_inv by blast
qed

lemma net_step_threads: "net_step s ev s' \<Longrightarrow> thread_datas (n_threads s') = thread_datas (n_threads s)"
  by (induction rule: net_step.induct)
     (auto simp: ServiceManager_SendIOBuf_conn_def run_posted_def rbind_eq_Inr_iff Let_def
       split: option.splits list.splits)

lemma net_run_threads: "run net_step s0 tr s \<Longrightarrow> thread_datas (n_threads s) = thread_datas (n_threads s0)"
  by (induction rule: run.induct) (simp_all add: net_step_threads)

section \<open>The start\<close>

definition net_init ::
  "(nat \<Rightarrow> pool_kind \<Rightarrow> int \<Rightarrow> 'h list) \<Rightarrow> ('h \<Rightarrow> 'e) \<Rightarrow> thread_group_option list \<Rightarrow> ('h, 'e, 'p) net" where
  "net_init mp ge options =
     \<lparr>n_threads = new_ThreadGroupListManager mp ge options, n_queue = (\<lambda>_. [])\<rparr>"

lemma net_inv_init:
  assumes "own_event_bases ge mp"
    and "s = net_init mp ge options" and "length (thread_datas (n_threads s)) \<le> 2 ^ 32"
  shows "net_inv [] s"
proof -
  have ix: "indexed (n_threads s)"
    using new_ThreadGroupListManager_indexed [OF assms(1), of options]
    by (simp add: net_init_def assms(2))
  have "mgr_ok [] e (conn_mgrs (n_threads s) e)"
    if "e \<in> event_bases (thread_datas (n_threads s))" for e
  proof -
    from that obtain i where "i < length (thread_datas (n_threads s))"
      "td_evb (thread_datas (n_threads s) ! i) = Some e"
      by (auto simp: event_bases_def in_set_conv_nth)
    with ix have "tl_pipelines (conn_mgrs (n_threads s) e) = Map.empty"
      "tl_current_conn_id (conn_mgrs (n_threads s) e) = 0"
      unfolding indexed_def by blast+
    then show ?thesis by (simp add: mgr_ok_def below_counter_def opened_count_def)
  qed
  moreover have "threads_ok s"
    using ix assms(3) by (auto simp: indexed_def threads_ok_def evb_index_def)
  moreover have "n_queue s = (\<lambda>_. [])" by (simp add: net_init_def assms(2))
  ultimately show ?thesis by (simp add: net_inv_def ids_ok_def writes_ok_def)
qed

section \<open>Properties\<close>

text \<open>
  A run used to show that the hypotheses of the properties can be met: two accepting
  threads and one client thread, a connection on each of two threads, a send to one of them.
\<close>

definition demo_net :: "(nat \<times> nat, nat \<times> nat, string) net" where
  "demo_net = net_init demo_pool id demo_options"

definition demo_trace :: "(nat \<times> nat, string) net_event list" where
  "demo_trace =
     [Opened (1, 0) ''a'' (pack_id 2 1), Sent None (pack_id 2 1) [42],
      Wrote OtherThread (pack_id 2 1) ''a'' [42]]"

lemma demo_opened: "opened_count e demo_trace < 2 ^ 32"
  using length_filter_le [of "\<lambda>ev. \<exists>p c. ev = Opened e p c" demo_trace]
  by (simp add: demo_trace_def opened_count_def)

lemma demo_threads:
  "thread_datas (n_threads demo_net) =
     [\<lparr>td_group = CONN_ACCEPT, td_thread_idx = 0, td_evb = Some (0, 0)\<rparr>,
      \<lparr>td_group = CONN_ACCEPT, td_thread_idx = 1, td_evb = Some (0, 1)\<rparr>,
      \<lparr>td_group = CONN_CLIENT, td_thread_idx = 2, td_evb = Some (1, 0)\<rparr>]"
  "tl_thread_id (conn_mgrs (n_threads demo_net) (Suc 0, 0)) = 2"
  "tl_current_conn_id (conn_mgrs (n_threads demo_net) (Suc 0, 0)) = 0"
  "tl_pipelines (conn_mgrs (n_threads demo_net) (Suc 0, 0)) = Map.empty"
  "n_queue demo_net = (\<lambda>_. [])"
  by (simp_all add: demo_net_def net_init_def demo_options_def demo_pool_def
      new_ThreadGroupListManager_def ThreadGroupListManager_Initialize_def MakeThreadGroup_def new_ThreadGroup_def
      thread_started_def new_thread_data_def has_event_base_def set_thread_id_def new_ThreadLocalConnManager_def
      Let_def upt_rec numeral_2_eq_2)

lemma demo_run: "\<exists>s. run net_step demo_net demo_trace s \<and> n_queue s ((1, 0), OtherThread) = []"
proof -
  let ?e = "(Suc 0, 0) :: nat \<times> nat" and ?c = "pack_id 2 1"
  let ?old = "conn_mgrs (n_threads demo_net) ?e"
  let ?m = "?old\<lparr>tl_current_conn_id := 1, tl_pipelines := [1 \<mapsto> ''a'']\<rparr>"
  let ?sa = "set_mgr demo_net ?e ?m" and ?sb = "(set_mgr demo_net ?e ?m)\<lparr>n_queue := (\<lambda>_. [])((?e, OtherThread) := [(?c, [42])])\<rparr>"
  have e: "?e \<in> event_bases (thread_datas (n_threads demo_net))"
    by (simp add: event_bases_def demo_threads)
  have "TLCM_OnNewConnection ?old ''a'' = Some (?m, ?c)"
    by (simp add: TLCM_OnNewConnection_def demo_threads)
  from run_single [where step = net_step, OF net_step.opened [OF e this]]
  have r1: "run net_step demo_net [Opened ?e ''a'' ?c] ?sa" .
  have "ServiceManager_SendIOBuf_conn ?sa None ?c [42] = Inr (?sb, True)"
    by (simp add: ServiceManager_SendIOBuf_conn_def GetEventBaseByThreadID_def demo_threads lane_of_def)
  from run_snoc [where step = net_step, OF r1 net_step.sent [OF this]]
  have r2: "run net_step demo_net [Opened ?e ''a'' ?c, Sent None ?c [42]] ?sb" by simp
  have "run_posted ?sb ?e OtherThread =
      Some ((?c, [42]), Some ''a'', ?sb\<lparr>n_queue := (n_queue ?sb)((?e, OtherThread) := [])\<rparr>)"
    by (simp add: run_posted_def TLCM_SendIOBufByConnID_def)
  from run_snoc [where step = net_step, OF r2 net_step.wrote [OF _ this]] e show ?thesis
    unfolding demo_trace_def by (intro exI conjI) (simp_all, simp)
qed

text \<open>
  C5. Routing is safe: a buffer is written to a pipeline only if it was sent to that
  pipeline's connection id, the id was handed out when that pipeline connected, and to no
  other pipeline of any thread, before or after, closed connections included. This is for runs in
  which fewer than $2^{32}$ connections are opened on each thread, closed ones counted: then the
  32-bit counter comes round, and the id of a closed connection is handed out to another pipeline.
\<close>

theorem net_routing_safe:
  assumes "own_event_bases ge mp"
    and "length (thread_datas (n_threads (net_init mp ge options :: ('h, 'e, 'p) net))) \<le> 2 ^ 32"
    and "run net_step (net_init mp ge options) tr s" and "\<forall>e. opened_count e tr < 2 ^ 32"
    and "Wrote l c (p :: 'p) b \<in> set tr"
  shows "\<exists>caller e. Sent caller c b \<in> set tr \<and> lane_of caller e = l \<and>
     Opened e p c \<in> set tr \<and> (\<forall>e' p'. Opened e' p' c \<in> set tr \<longrightarrow> e' = e \<and> p' = p)"
proof -
  have inv: "net_inv tr s"
    by (rule net_run_inv [OF assms(3) net_inv_init [OF assms(1) refl assms(2)] assms(4)])
  then have "writes_ok tr" by (simp add: net_inv_def)
  with assms(5) obtain caller e where e: "Sent caller c b \<in> set tr" "lane_of caller e = l"
    "Opened e p c \<in> set tr"
    unfolding writes_ok_def by blast
  have thr: "threads_ok s" and ids: "ids_ok tr s" using inv by (simp_all add: net_inv_def)
  have "e' = e \<and> p' = p" if "Opened e' p' c \<in> set tr" for e' p'
    using ids e(3) that evb_index_inj [OF thr, of e' e] unfolding ids_ok_def by metis
  with e show ?thesis by blast
qed

theorem net_routing_safe_witness:
  "\<exists>s caller. run net_step demo_net demo_trace s \<and> Sent caller (pack_id 2 1) [42] \<in> set demo_trace"
proof -
  obtain s where r: "run net_step demo_net demo_trace s" using demo_run by blast
  have "\<exists>caller. Sent caller (pack_id 2 1) [42] \<in> set demo_trace"
    using net_routing_safe [OF demo_pool_own _ r [unfolded demo_net_def],
        of OtherThread "pack_id 2 1" "''a''" "[42]"] demo_opened demo_threads(1)
    by (simp add: demo_net_def [symmetric]) (auto simp: demo_trace_def)
  with r show ?thesis by blast
qed

text \<open>
  C6. No send is lost, duplicated or reordered on its way to a thread: what other threads
  sent to ids of thread \<open>i\<close> is, in order, what the thread has handled of it (written, or
  dropped because the connection was gone) followed by what is still queued at its event
  base, and the same holds for what the thread sent to its own connections. (Fewer than $2^{32}$
  connections opened on each thread.)
\<close>

theorem net_routing_fifo:
  assumes "own_event_bases ge mp"
    and "length (thread_datas (n_threads (net_init mp ge options :: ('h, 'e, 'p) net))) \<le> 2 ^ 32"
    and "run net_step (net_init mp ge options) (tr :: ('e, 'p) net_event list) s"
    and "\<forall>e. opened_count e tr < 2 ^ 32"
    and "i < length (thread_datas (n_threads s))" "td_evb (thread_datas (n_threads s) ! i) = Some e"
  shows "sents (word_of_nat i) e l tr = handled (word_of_nat i) l tr @ n_queue s (e, l)"
proof -
  have inv: "net_inv tr s"
    by (rule net_run_inv [OF assms(3) net_inv_init [OF assms(1) refl assms(2)] assms(4)])
  have "evb_index s e = word_of_nat i" using inv assms(5,6) by (auto simp: net_inv_def threads_ok_def)
  moreover have "e \<in> event_bases (thread_datas (n_threads s))"
    using assms(5,6) by (auto simp: event_bases_def)
  ultimately show ?thesis using inv by (auto simp: net_inv_def)
qed

theorem net_routing_fifo_witness:
  "\<exists>s. run net_step demo_net demo_trace s \<and>
     sents 2 (1, 0) OtherThread demo_trace =
       handled 2 OtherThread demo_trace @ n_queue s ((Suc 0, 0), OtherThread)"
proof -
  obtain s where r: "run net_step demo_net demo_trace s" using demo_run by blast
  have "thread_datas (n_threads s) = thread_datas (n_threads demo_net)"
    using net_run_threads [OF r] .
  then have "sents (word_of_nat 2) (Suc 0, 0) OtherThread demo_trace =
      handled (word_of_nat 2) OtherThread demo_trace @ n_queue s ((Suc 0, 0), OtherThread)"
    using demo_opened demo_threads(1)
    by (intro net_routing_fifo [OF demo_pool_own _ r [unfolded demo_net_def]])
       (simp_all add: demo_net_def [symmetric])
  with r show ?thesis by auto
qed

end
