(* ===== verification/Fiber_Data.thy ===== *)
theory Fiber_Data
  imports Prelude
begin

text \<open>
  Statistics counters and the table of suspended fibers of a thread
  (\<open>net/fiber_data_manager.h\<close>, \<open>.cc\<close>, without \<open>FIBER_OBJ_POOL\<close> and
  \<open>USE_TIMEOUT_HANDLER\<close>, which the build does not define). Fiber objects are shared between
  the table and the suspended caller, so they live in a store and the table holds
  references.
\<close>

section \<open>\<open>base::Stat\<close> and \<open>base::Stats\<close>\<close>

record stat =
  stat_name :: string
  last_stat :: u64
  stat_value :: u64

definition new_Stat :: stat where
  "new_Stat = \<lparr>stat_name = [], last_stat = 0, stat_value = 0\<rparr>"

definition Stat_Increase :: "stat \<Rightarrow> u64 \<Rightarrow> stat" where
  "Stat_Increase s diff = s\<lparr>stat_value := stat_value s + diff\<rparr>"

definition Stat_Decrease :: "stat \<Rightarrow> u64 \<Rightarrow> stat" where
  "Stat_Decrease s diff = s\<lparr>stat_value := stat_value s - diff\<rparr>"

definition Stat_CalcAndRestoreLastStat :: "stat \<Rightarrow> u64 \<times> stat" where
  "Stat_CalcAndRestoreLastStat s =
     (let this_stat = stat_value s;
          calc = (if this_stat < last_stat s then 0xffffffff - last_stat s + this_stat
                  else this_stat - last_stat s)
      in (calc, s\<lparr>last_stat := this_stat\<rparr>))"

definition Stat_GetLatestStat :: "stat \<Rightarrow> u64" where
  "Stat_GetLatestStat s = stat_value s"

record stats =
  stats_name :: string
  stats_list :: "stat list"

definition new_Stats :: "string \<Rightarrow> nat \<Rightarrow> stats" where
  "new_Stats v n = \<lparr>stats_name = v, stats_list = replicate n new_Stat\<rparr>"

definition stats_upd :: "stats \<Rightarrow> nat \<Rightarrow> (stat \<Rightarrow> stat) \<Rightarrow> stats" where
  "stats_upd s idx f =
     (if idx < length (stats_list s)
      then s\<lparr>stats_list := (stats_list s)[idx := f (stats_list s ! idx)]\<rparr> else s)"

definition Stats_InitStat :: "stats \<Rightarrow> nat \<Rightarrow> string \<Rightarrow> stats" where
  "Stats_InitStat s idx name = stats_upd s idx (\<lambda>x. x\<lparr>stat_name := name\<rparr>)"

definition Stats_Increase :: "stats \<Rightarrow> nat \<Rightarrow> u64 \<Rightarrow> stats" where
  "Stats_Increase s idx diff = stats_upd s idx (\<lambda>x. Stat_Increase x diff)"

definition Stats_Decrease :: "stats \<Rightarrow> nat \<Rightarrow> u64 \<Rightarrow> stats" where
  "Stats_Decrease s idx diff = stats_upd s idx (\<lambda>x. Stat_Decrease x diff)"

definition Stats_CalcAndRestoreLastStat :: "stats \<Rightarrow> nat \<Rightarrow> u64 \<times> stats" where
  "Stats_CalcAndRestoreLastStat s idx =
     (if idx < length (stats_list s)
      then (fst (Stat_CalcAndRestoreLastStat (stats_list s ! idx)),
            stats_upd s idx (\<lambda>x. snd (Stat_CalcAndRestoreLastStat x)))
      else (0, s))"

definition Stats_GetLatestStat :: "stats \<Rightarrow> nat \<Rightarrow> u64" where
  "Stats_GetLatestStat s idx =
     (if idx < length (stats_list s) then Stat_GetLatestStat (stats_list s ! idx) else 0)"

definition Stats_GetStatsName :: "stats \<Rightarrow> nat \<Rightarrow> string" where
  "Stats_GetStatsName s idx =
     (if idx < length (stats_list s) then stat_name (stats_list s ! idx) else [])"

fun calc_entries :: "bool \<Rightarrow> stat list \<Rightarrow> string \<times> stat list" where
  "calc_entries first [] = ([], [])"
| "calc_entries first (x # xs) =
     (let (v, x') = Stat_CalcAndRestoreLastStat x; (out, xs') = calc_entries False xs
      in ((if first then [] else '', '') @ ''{'' @ stat_name x @ '':'' @ dec (unat v) @ ''}'' @ out,
          x' # xs'))"

definition Stats_CalcAndToString :: "stats \<Rightarrow> string \<times> stats" where
  "Stats_CalcAndToString s =
     (let (out, xs) = calc_entries True (stats_list s)
      in (''stats: {'' @ stats_name s @ '':['' @ out @ '']}'', s\<lparr>stats_list := xs\<rparr>))"

text \<open>The process-wide fiber counters.\<close>

datatype fiber_stat = f_add_task | f_rpc | f_db_tps | f_db_qps | f_reids | f_http | f_max_number

fun fiber_stat_idx :: "fiber_stat \<Rightarrow> nat" where
  "fiber_stat_idx f_add_task = 0"
| "fiber_stat_idx f_rpc = 1"
| "fiber_stat_idx f_db_tps = 2"
| "fiber_stat_idx f_db_qps = 3"
| "fiber_stat_idx f_reids = 4"
| "fiber_stat_idx f_http = 5"
| "fiber_stat_idx f_max_number = 6"

definition g_fiber_stats :: stats where
  "g_fiber_stats = new_Stats ''fiber'' (fiber_stat_idx f_max_number)"

definition InitFiberStats :: "stats \<Rightarrow> stats" where
  "InitFiberStats s =
     fold (\<lambda>(i, n) s. Stats_InitStat s (fiber_stat_idx i) n)
       [(f_add_task, ''f_add_task''), (f_rpc, ''f_rpc''), (f_db_tps, ''f_db_tps''),
        (f_db_qps, ''f_db_qps''), (f_reids, ''f_reids''), (f_http, ''f_http'')] s"

definition IncreaseStats :: "stats \<Rightarrow> fiber_stat \<Rightarrow> stats" where
  "IncreaseStats s i = Stats_Increase s (fiber_stat_idx i) 1"

section \<open>Fiber objects\<close>

datatype fiber_state = kIdle | kNotWaiting | kWaiting | kTimeout | kPosted | kPostedHasError

record fiber_data =
  fiber_id :: u64
  baton_posted :: bool
  fiber_state :: fiber_state

definition FiberDataInfo_Clear :: "fiber_data \<Rightarrow> fiber_data" where
  "FiberDataInfo_Clear d = d\<lparr>fiber_state := kIdle, baton_posted := False\<rparr>"

text \<open>
  \<open>baton.timed_wait\<close> returns whether the baton was posted in time; the value at the moment
  the fiber resumes is read from the baton.
\<close>

definition FiberDataInfo_Wait :: "fiber_data \<Rightarrow> fiber_data" where
  "FiberDataInfo_Wait d = (if \<not> baton_posted d then d\<lparr>fiber_state := kTimeout\<rparr> else d)"

definition FiberDataInfo_Post :: "fiber_data \<Rightarrow> bool \<Rightarrow> fiber_data" where
  "FiberDataInfo_Post d rc =
     d\<lparr>fiber_state := (if rc then kPosted else kPostedHasError), baton_posted := True\<rparr>"

definition GetThreadIDByFiberID :: "u64 \<Rightarrow> u64" where
  "GetThreadIDByFiberID fid = id_hi fid"

definition ToStringByFiberID :: "u64 \<Rightarrow> string" where
  "ToStringByFiberID fid =
     ''[fiber_data: {thread_id:'' @ dec (unat (id_hi fid)) @ '', pool_id:'' @
     dec (unat (fid AND 0xffffffff)) @ ''}]''"

section \<open>\<open>FiberDataManager\<close>\<close>

definition FIBER_MAX_QUEUE_SIZE :: nat where
  "FIBER_MAX_QUEUE_SIZE = 4096"

record 'e fiber_mgr =
  fm_main_evb :: "'e option"
  fm_thread_id :: u32
  fm_current_fiber_id :: u32
  fm_datas :: "(u64 \<times> nat) list"
  fm_inited :: bool
  fm_max_queue_size :: u64
  fm_store :: "nat \<Rightarrow> fiber_data"
  fm_next_obj :: nat

definition new_FiberDataManager :: "u64 \<Rightarrow> 'e fiber_mgr" where
  "new_FiberDataManager max_queue_size =
     \<lparr>fm_main_evb = None, fm_thread_id = 0, fm_current_fiber_id = 0, fm_datas = [],
      fm_inited = False, fm_max_queue_size = max_queue_size,
      fm_store = (\<lambda>_. \<lparr>fiber_id = 0, baton_posted = False, fiber_state = kIdle\<rparr>),
      fm_next_obj = 0\<rparr>"

definition FiberDataManager_Initialize :: "'e fiber_mgr \<Rightarrow> 'e \<Rightarrow> u32 \<Rightarrow> 'e fiber_mgr \<times> bool" where
  "FiberDataManager_Initialize m main_evb thread_id =
     (if \<not> fm_inited m
      then (m\<lparr>fm_main_evb := Some main_evb, fm_thread_id := thread_id, fm_inited := True\<rparr>, True)
      else (m, True))"

definition new_FiberDataManager_inited :: "'e \<Rightarrow> u32 \<Rightarrow> u64 \<Rightarrow> 'e fiber_mgr" where
  "new_FiberDataManager_inited main_evb thread_id max_queue_size =
     fst (FiberDataManager_Initialize
       ((new_FiberDataManager max_queue_size)\<lparr>fm_main_evb := Some main_evb, fm_thread_id := thread_id\<rparr>)
       main_evb thread_id)"

text \<open>The options of the fibers of a thread.\<close>

record fiber_options =
  stackSize :: nat
  recordStackEvery :: nat
  maxFibersPoolSize :: nat
  useGuardPages :: bool
  fibersPoolResizePeriodMs :: nat

definition getFiberManagerOptions :: fiber_options where
  "getFiberManagerOptions =
     \<lparr>stackSize = 96 * 1024, recordStackEvery = 100000, maxFibersPoolSize = 10240, useGuardPages = True,
      fibersPoolResizePeriodMs = 60000\<rparr>"

definition GetFiberQueueSize :: "'e fiber_mgr \<Rightarrow> nat" where
  "GetFiberQueueSize m = length (fm_datas m)"

definition FiberDataInfo_ToString :: "'e fiber_mgr \<Rightarrow> fiber_data \<Rightarrow> string" where
  "FiberDataInfo_ToString m d =
     ''[fiber_data: {thread_id:'' @ dec (unat (id_hi (fiber_id d))) @ '', pool_id:'' @
     dec (unat (fiber_id d AND 0xffffffff)) @ '', queue_size:'' @ dec (GetFiberQueueSize m) @ ''}]''"

text \<open>
  \<open>datas_.insert\<close> leaves an existing entry alone. The returned reference is \<open>None\<close> when
  the table is full.
\<close>

definition AllocFiberData :: "'e fiber_mgr \<Rightarrow> ('e fiber_mgr \<times> nat option) res" where
  "AllocFiberData m =
     (if \<not> fm_inited m then Inl CheckFailed
      else if length (fm_datas m) < FIBER_MAX_QUEUE_SIZE then
        let cur1 = fm_current_fiber_id m + 1;
            cur = (if cur1 = 0 then cur1 + 1 else cur1);
            obj = fm_next_obj m;
            data = \<lparr>fiber_id = pack_id (ucast (fm_thread_id m)) cur,
                    baton_posted = False, fiber_state = kIdle\<rparr>;
            key = ucast cur :: u64;
            datas = (if map_of (fm_datas m) key = None then (key, obj) # fm_datas m else fm_datas m)
        in Inr (m\<lparr>fm_current_fiber_id := cur, fm_datas := datas,
                  fm_store := (fm_store m)(obj := data), fm_next_obj := Suc obj\<rparr>, Some obj)
      else Inr (m, None))"

definition FindFiberData :: "'e fiber_mgr \<Rightarrow> u64 \<Rightarrow> nat option" where
  "FindFiberData m fid = map_of (fm_datas m) (fid AND 0xffffffff)"

definition DeleteFiberData :: "'e fiber_mgr \<Rightarrow> u64 \<Rightarrow> 'e fiber_mgr \<times> bool" where
  "DeleteFiberData m fid =
     (case map_of (fm_datas m) (fid AND 0xffffffff) of
        Some _ \<Rightarrow> (m\<lparr>fm_datas := filter (\<lambda>(k, _). k \<noteq> fid AND 0xffffffff) (fm_datas m)\<rparr>, True)
      | None \<Rightarrow> (m, False))"

definition DeleteFiberData_ptr :: "'e fiber_mgr \<Rightarrow> nat \<Rightarrow> 'e fiber_mgr \<times> bool" where
  "DeleteFiberData_ptr m obj = DeleteFiberData m (fiber_id (fm_store m obj))"

definition Post_fiber :: "'e fiber_mgr \<Rightarrow> nat \<Rightarrow> bool \<Rightarrow> 'e fiber_mgr" where
  "Post_fiber m obj rc =
     m\<lparr>fm_store := (fm_store m)(obj := FiberDataInfo_Post (fm_store m obj) rc)\<rparr>"

definition Wait_fiber :: "'e fiber_mgr \<Rightarrow> nat \<Rightarrow> 'e fiber_mgr" where
  "Wait_fiber m obj = m\<lparr>fm_store := (fm_store m)(obj := FiberDataInfo_Wait (fm_store m obj))\<rparr>"

section \<open>The table\<close>

text \<open>
  What every operation keeps: keys are distinct and at most \<open>FIBER_MAX_QUEUE_SIZE\<close>, each
  entry refers to an allocated object, and the object's id has the entry's key in its lower
  half and the thread's number in its upper half.
\<close>

definition fiber_inv :: "'e fiber_mgr \<Rightarrow> bool" where
  "fiber_inv m \<longleftrightarrow>
     distinct (map fst (fm_datas m)) \<and> length (fm_datas m) \<le> FIBER_MAX_QUEUE_SIZE \<and>
     (\<forall>(k, obj) \<in> set (fm_datas m). obj < fm_next_obj m \<and>
        k = ucast (id_lo (fiber_id (fm_store m obj))) \<and>
        id_hi (fiber_id (fm_store m obj)) = ucast (fm_thread_id m))"

lemma FindFiberData_eq: "FindFiberData m fid = map_of (fm_datas m) (ucast (id_lo fid))"
  by (simp add: FindFiberData_def and_mask32_eq)

lemma unat_ucast_u32_less: "unat (ucast (t :: u32) :: u64) < 2 ^ 32"
  using unsigned_less [of t, where 'a = nat] by (simp add: unsigned_ucast_eq take_bit_nat_eq_self)

lemma fiber_inv_entry:
  assumes "fiber_inv m" "(k, obj) \<in> set (fm_datas m)"
  shows "obj < fm_next_obj m" "k = ucast (id_lo (fiber_id (fm_store m obj)))"
    "id_hi (fiber_id (fm_store m obj)) = ucast (fm_thread_id m)"
  using assms by (auto simp: fiber_inv_def)

lemma fiber_inv_init:
  "fiber_inv (fst (FiberDataManager_Initialize (new_FiberDataManager q) e t))"
  by (simp add: fiber_inv_def FiberDataManager_Initialize_def new_FiberDataManager_def)

definition next_fiber :: "'e fiber_mgr \<Rightarrow> u32" where
  "next_fiber m = (if fm_current_fiber_id m + 1 = 0 then 1 else fm_current_fiber_id m + 1)"

lemma AllocFiberData_some:
  assumes "AllocFiberData m = Inr (m', Some obj)"
  shows "obj = fm_next_obj m" "fm_next_obj m' = Suc obj" "fm_thread_id m' = fm_thread_id m"
    "fm_store m' = (fm_store m)(obj := \<lparr>fiber_id = pack_id (ucast (fm_thread_id m)) (next_fiber m),
       baton_posted = False, fiber_state = kIdle\<rparr>)"
    "fm_datas m' = (if map_of (fm_datas m) (ucast (next_fiber m)) = None
       then (ucast (next_fiber m), obj) # fm_datas m else fm_datas m)"
    "length (fm_datas m) < FIBER_MAX_QUEUE_SIZE"
  using assms
  by (auto simp: AllocFiberData_def Let_def next_fiber_def eq_neg_iff_add_eq_0 split: if_splits)

lemma AllocFiberData_inv:
  assumes inv: "fiber_inv m" and al: "AllocFiberData m = Inr (m', r)"
  shows "fiber_inv m'"
proof (cases r)
  case None
  then have "m' = m" using al by (auto simp: AllocFiberData_def Let_def split: if_splits)
  then show ?thesis using inv by simp
next
  case (Some obj)
  note a = AllocFiberData_some [OF al [unfolded Some]]
  have "obj \<noteq> o'" if "(k, o') \<in> set (fm_datas m)" for k o'
    using fiber_inv_entry(1) [OF inv that] a(1) by simp
  then show ?thesis
    using inv a(6) unat_ucast_u32_less [of "fm_thread_id m"]
    by (auto simp: fiber_inv_def a(1-5) map_of_eq_None_iff less_Suc_eq image_iff split: if_splits)
qed

lemma DeleteFiberData_inv: "fiber_inv m \<Longrightarrow> fiber_inv (fst (DeleteFiberData m fid))"
  by (auto simp: fiber_inv_def DeleteFiberData_def distinct_map_filter
      intro: le_trans [OF length_filter_le] split: option.splits)

lemma Post_fiber_inv: "fiber_inv m \<Longrightarrow> fiber_inv (Post_fiber m obj rc)"
  by (auto simp: fiber_inv_def Post_fiber_def FiberDataInfo_Post_def)

lemma Wait_fiber_inv: "fiber_inv m \<Longrightarrow> fiber_inv (Wait_fiber m obj)"
  by (auto simp: fiber_inv_def Wait_fiber_def FiberDataInfo_Wait_def)

text \<open>Deleting a new fiber restores the table, also after it was posted and waited for.\<close>

lemma alloc_delete_datas:
  assumes "AllocFiberData m = Inr (m', Some obj)" "map_of (fm_datas m) (ucast (next_fiber m)) = None"
    and "fm_datas m'' = fm_datas m'" "fiber_id (fm_store m'' obj) = fiber_id (fm_store m' obj)"
  shows "fm_datas (fst (DeleteFiberData_ptr m'' obj)) = fm_datas m"
proof -
  note a = AllocFiberData_some [OF assms(1)]
  have "filter (\<lambda>(k, _). k \<noteq> (ucast (next_fiber m) :: u64)) (fm_datas m) = fm_datas m"
    using assms(2) by (force simp: filter_id_conv map_of_eq_None_iff)
  then show ?thesis
    using assms(2-4) by (simp add: a(4,5) DeleteFiberData_ptr_def DeleteFiberData_def and_mask32_eq)
qed

text \<open>The states of an initialised manager.\<close>

inductive fiber_reach :: "'e fiber_mgr \<Rightarrow> bool" where
  init: "fiber_reach (fst (FiberDataManager_Initialize (new_FiberDataManager q) e t))"
| alloc: "fiber_reach m \<Longrightarrow> AllocFiberData m = Inr (m', r) \<Longrightarrow> fiber_reach m'"
| delete: "fiber_reach m \<Longrightarrow> fiber_reach (fst (DeleteFiberData m fid))"
| post: "fiber_reach m \<Longrightarrow> fiber_reach (Post_fiber m obj rc)"
| wait: "fiber_reach m \<Longrightarrow> fiber_reach (Wait_fiber m obj)"

lemma fiber_reach_inv: "fiber_reach m \<Longrightarrow> fiber_inv m"
  by (induction rule: fiber_reach.induct)
     (auto intro: fiber_inv_init AllocFiberData_inv DeleteFiberData_inv Post_fiber_inv Wait_fiber_inv)

section \<open>Differences of counters\<close>

lemma Stat_Calc_ge:
  "last_stat s \<le> stat_value s \<Longrightarrow>
   unat (fst (Stat_CalcAndRestoreLastStat s)) = unat (stat_value s) - unat (last_stat s)"
  by (auto simp: Stat_CalcAndRestoreLastStat_def Let_def unat_sub)

text \<open>Alternating increases and reports: the reported differences.\<close>

fun report_run :: "stat \<Rightarrow> u64 list \<Rightarrow> u64 list \<times> stat" where
  "report_run s [] = ([], s)"
| "report_run s (d # ds) =
     (let (v, s1) = Stat_CalcAndRestoreLastStat (Stat_Increase s d); (vs, s2) = report_run s1 ds
      in (v # vs, s2))"

lemma report_run_values:
  "last_stat s = stat_value s \<Longrightarrow> unat (stat_value s) + (\<Sum>d \<leftarrow> ds. unat d) < 2 ^ 64 \<Longrightarrow>
   fst (report_run s ds) = ds \<and>
   unat (stat_value (snd (report_run s ds))) = unat (stat_value s) + (\<Sum>d \<leftarrow> ds. unat d)"
proof (induction ds arbitrary: s)
  case (Cons d ds)
  let ?s = "s\<lparr>last_stat := stat_value s + d, stat_value := stat_value s + d\<rparr>"
  have sum: "unat (stat_value s + d) = unat (stat_value s) + unat d"
    using Cons.prems(2) by (simp add: unat_word_ariths)
  then have "\<not> stat_value s + d < stat_value s" by (simp add: word_less_nat_alt)
  then have "Stat_CalcAndRestoreLastStat (Stat_Increase s d) = (d, ?s)"
    using Cons.prems(1)
    by (simp add: Stat_CalcAndRestoreLastStat_def Stat_Increase_def Let_def)
  then show ?case using Cons.IH [of ?s] Cons.prems(2) sum by (simp add: split_beta)
qed simp

section \<open>Properties\<close>

text \<open>
  C18. In every state of an initialised manager: at most 4096 suspended fibers, each found
  under its own id and only under ids with that lower half, and each id names the thread
  the manager was initialised for.
\<close>

theorem fiber_table_sound:
  assumes "fiber_reach m"
  shows "GetFiberQueueSize m \<le> 4096 \<and>
     (\<forall>fid obj. FindFiberData m fid = Some obj \<longrightarrow>
        FindFiberData m (fiber_id (fm_store m obj)) = Some obj \<and>
        id_lo (fiber_id (fm_store m obj)) = id_lo fid \<and>
        GetThreadIDByFiberID (fiber_id (fm_store m obj)) = ucast (fm_thread_id m))"
proof -
  have inv: "fiber_inv m" by (rule fiber_reach_inv [OF assms])
  have "FindFiberData m (fiber_id (fm_store m obj)) = Some obj \<and>
        id_lo (fiber_id (fm_store m obj)) = id_lo fid \<and>
        GetThreadIDByFiberID (fiber_id (fm_store m obj)) = ucast (fm_thread_id m)"
    if "FindFiberData m fid = Some obj" for fid obj
    using that fiber_inv_entry [OF inv map_of_SomeD, of "ucast (id_lo fid)" obj]
    by (simp add: FindFiberData_eq GetThreadIDByFiberID_def)
  then show ?thesis
    using inv by (auto simp: fiber_inv_def GetFiberQueueSize_def FIBER_MAX_QUEUE_SIZE_def)
qed

theorem fiber_table_sound_witness:
  "\<exists>m' obj. AllocFiberData (fst (FiberDataManager_Initialize (new_FiberDataManager 8) ''evb'' 3)) = Inr (m', Some obj) \<and>
     FindFiberData m' (fiber_id (fm_store m' obj)) = Some obj \<and> GetThreadIDByFiberID (fiber_id (fm_store m' obj)) = 3 \<and>
     GetFiberQueueSize m' \<le> 4096"
proof -
  let ?m = "fst (FiberDataManager_Initialize (new_FiberDataManager 8) ''evb'' 3)"
  obtain m' obj where al: "AllocFiberData ?m = Inr (m', Some obj)" "FindFiberData m' (fiber_id (fm_store m' obj)) = Some obj"
    "fm_thread_id m' = 3"
    by (simp add: AllocFiberData_def FiberDataManager_Initialize_def new_FiberDataManager_def FIBER_MAX_QUEUE_SIZE_def
        FindFiberData_eq Let_def)
  have "fiber_reach m'" by (rule fiber_reach.alloc [OF fiber_reach.init al(1)])
  from fiber_table_sound [OF this] al show ?thesis by auto
qed

text \<open>
  C19. Allocating a fiber in a table that has room and whose next number is not in use: the new
  object is found under its id, all other look-ups are unchanged, and deleting it by pointer
  restores every look-up. (What happens when the number is in use is \<open>fiber_number_collision\<close>.)
\<close>

theorem fiber_alloc_find_delete:
  assumes "fiber_reach m" "fm_inited m" "length (fm_datas m) < FIBER_MAX_QUEUE_SIZE"
    and "map_of (fm_datas m) (ucast (next_fiber m)) = None"
  shows "\<exists>m' obj. AllocFiberData m = Inr (m', Some obj) \<and>
     FindFiberData m' (fiber_id (fm_store m' obj)) = Some obj \<and>
     (\<forall>fid. id_lo fid \<noteq> next_fiber m \<longrightarrow> FindFiberData m' fid = FindFiberData m fid) \<and>
     (\<forall>fid. FindFiberData (fst (DeleteFiberData_ptr m' obj)) fid = FindFiberData m fid)"
proof -
  obtain m' obj where al: "AllocFiberData m = Inr (m', Some obj)"
    using assms(2,3) by (simp add: AllocFiberData_def Let_def)
  note a = AllocFiberData_some [OF al]
  have fid: "id_lo (fiber_id (fm_store m' obj)) = next_fiber m" by (simp add: a(4))
  have d: "fm_datas m' = (ucast (next_fiber m), obj) # fm_datas m" using a(5) assms(4) by simp
  have "fm_datas (fst (DeleteFiberData_ptr m' obj)) = fm_datas m" by (rule alloc_delete_datas [OF al assms(4) refl refl])
  with al d fid show ?thesis by (auto simp: FindFiberData_eq)
qed

theorem fiber_alloc_find_delete_witness:
  "\<exists>m' obj. AllocFiberData (fst (FiberDataManager_Initialize (new_FiberDataManager 8) ''evb'' 3)) =
      Inr (m', Some obj) \<and> FindFiberData m' (fiber_id (fm_store m' obj)) = Some obj"
proof -
  let ?m = "fst (FiberDataManager_Initialize (new_FiberDataManager 8) ''evb'' 3)"
  have "fm_inited ?m" "length (fm_datas ?m) < FIBER_MAX_QUEUE_SIZE" "map_of (fm_datas ?m) (ucast (next_fiber ?m)) = None"
    by (simp_all add: FiberDataManager_Initialize_def new_FiberDataManager_def FIBER_MAX_QUEUE_SIZE_def)
  from fiber_alloc_find_delete [OF fiber_reach.init this] show ?thesis by blast
qed

text \<open>
  When the counter comes round to a number that is still suspended, \<open>AllocFiberData\<close>
  returns an object that the table does not hold: a reply posted under its id wakes the
  older fiber, and deleting the new object removes the older one's entry.
\<close>

theorem fiber_number_collision:
  assumes "fiber_inv m" "fm_inited m" "length (fm_datas m) < FIBER_MAX_QUEUE_SIZE"
    and "map_of (fm_datas m) (ucast (next_fiber m)) = Some older"
  shows "\<exists>m' obj. AllocFiberData m = Inr (m', Some obj) \<and> obj \<noteq> older \<and>
     fiber_id (fm_store m' obj) = fiber_id (fm_store m' older) \<and>
     FindFiberData m' (fiber_id (fm_store m' obj)) = Some older \<and>
     FindFiberData (fst (DeleteFiberData_ptr m' obj)) (fiber_id (fm_store m' older)) = None"
proof -
  obtain m' obj where al: "AllocFiberData m = Inr (m', Some obj)"
    using assms(2,3) by (simp add: AllocFiberData_def Let_def)
  note a = AllocFiberData_some [OF al]
  note e = fiber_inv_entry [OF assms(1) map_of_SomeD [OF assms(4)]]
  have ne: "obj \<noteq> older" using e(1) a(1) by simp
  have fid: "fiber_id (fm_store m' obj) = pack_id (ucast (fm_thread_id m)) (next_fiber m)" by (simp add: a(4))
  moreover have "fiber_id (fm_store m older) = pack_id (ucast (fm_thread_id m)) (next_fiber m)"
    using e(2,3) by (metis pack_id_unpack ucast_u32_inj)
  ultimately have same: "fiber_id (fm_store m' obj) = fiber_id (fm_store m' older)"
    using ne by (simp add: a(4))
  have d: "fm_datas m' = fm_datas m" using a(5) assms(4) by simp
  have gone: "map_of (filter (\<lambda>(k, _). k \<noteq> x) ys) x = None" for x and ys :: "(u64 \<times> nat) list"
    by (force simp: map_of_eq_None_iff)
  have lo: "id_lo (fiber_id (fm_store m' older)) = next_fiber m" by (simp add: same [symmetric] fid)
  show ?thesis
    using al ne same d lo assms(4) gone [of "ucast (next_fiber m)" "fm_datas m"]
    by (intro exI [of _ m'] exI [of _ obj])
       (simp add: FindFiberData_eq DeleteFiberData_ptr_def DeleteFiberData_def and_mask32_eq)
qed

theorem fiber_number_collision_witness:
  "\<exists>m' obj. AllocFiberData \<lparr>fm_main_evb = Some ''evb'', fm_thread_id = 0, fm_current_fiber_id = 4,
       fm_datas = [(5, 0)], fm_inited = True, fm_max_queue_size = 8,
       fm_store = (\<lambda>_. \<lparr>fiber_id = 5, baton_posted = False, fiber_state = kIdle\<rparr>), fm_next_obj = 1\<rparr> =
     Inr (m', Some obj) \<and> FindFiberData m' (fiber_id (fm_store m' obj)) = Some 0"
proof -
  let ?m = "\<lparr>fm_main_evb = Some ''evb'', fm_thread_id = 0, fm_current_fiber_id = 4,
       fm_datas = [(5, 0)], fm_inited = True, fm_max_queue_size = 8,
       fm_store = (\<lambda>_. \<lparr>fiber_id = 5, baton_posted = False, fiber_state = kIdle\<rparr>), fm_next_obj = 1\<rparr>"
  have "fiber_inv ?m"
    by (simp add: fiber_inv_def FIBER_MAX_QUEUE_SIZE_def id_lo_def id_hi_def drop_bit_numeral_bit0)
  then have "\<exists>m' obj. AllocFiberData ?m = Inr (m', Some obj) \<and> obj \<noteq> 0 \<and>
     fiber_id (fm_store m' obj) = fiber_id (fm_store m' 0) \<and>
     FindFiberData m' (fiber_id (fm_store m' obj)) = Some 0 \<and>
     FindFiberData (fst (DeleteFiberData_ptr m' obj)) (fiber_id (fm_store m' 0)) = None"
    by (rule fiber_number_collision) (simp_all add: FIBER_MAX_QUEUE_SIZE_def next_fiber_def)
  then show ?thesis by blast
qed

text \<open>
  Reporting a counter after each increase reports exactly the increases, and nothing is
  lost or counted twice, as long as the total stays below $2^{64}$.
\<close>

theorem stat_reports_exact:
  assumes "(\<Sum>d \<leftarrow> ds. unat d) < 2 ^ 64"
  shows "fst (report_run new_Stat ds) = ds \<and>
     unat (Stat_GetLatestStat (snd (report_run new_Stat ds))) = (\<Sum>d \<leftarrow> ds. unat d)"
  using report_run_values [of new_Stat ds] assms by (simp add: new_Stat_def Stat_GetLatestStat_def)

theorem stat_reports_exact_witness: "fst (report_run new_Stat [3, 0, 4]) = [3, 0, 4]"
  using stat_reports_exact [of "[3, 0, 4]"] by simp

text \<open>
  When the 64-bit counter does wrap, the correction with the 32-bit constant
  \<open>0xffffffff\<close> reports an increase that is wrong by that constant.
\<close>

theorem stat_wrap_off_by_constant:
  assumes "last_stat s = stat_value s" "stat_value s + d < stat_value s"
  shows "fst (Stat_CalcAndRestoreLastStat (Stat_Increase s d)) = d + 0xffffffff"
  using assms by (simp add: Stat_CalcAndRestoreLastStat_def Stat_Increase_def Let_def add.commute)

theorem stat_wrap_off_by_constant_witness:
  "fst (Stat_CalcAndRestoreLastStat (Stat_Increase
     \<lparr>stat_name = ''n'', last_stat = - 1, stat_value = - 1\<rparr> 2)) = 0x100000001"
  using stat_wrap_off_by_constant [of "\<lparr>stat_name = ''n'', last_stat = - 1, stat_value = - 1\<rparr>" 2]
  by (simp add: word_less_nat_alt unsigned_minus_1_eq_mask mask_eq_exp_minus_1)

end
