(* ===== verification/IO_Thread_Pool.thy ===== *)
theory IO_Thread_Pool
  imports Conn_Registry Fiber_Data
begin

text \<open>
  The older connection layer (\<open>net/io_thread_pool_manager.h\<close>, \<open>.cc\<close>), on which
  \<open>ServiceRouterManager\<close> rests: \<open>IOThreadConnManager\<close>, the connections of one I/O thread
  with their grouping by service and the registered peer servers, and
  \<open>IOThreadPoolConnManager\<close>, the vector of these managers with routing by id, by server
  and round robin. The service name and the event base of a pipeline are arguments.
\<close>

section \<open>\<open>IOThreadConnManager\<close>\<close>

record 'p server_conn =
  sc_server_name :: string
  sc_server_number :: u32
  sc_pipeline :: "'p option"

definition ServerConnInfo_Equals :: "'p server_conn \<Rightarrow> string \<Rightarrow> u32 \<Rightarrow> bool" where
  "ServerConnInfo_Equals c name number \<longleftrightarrow> name = sc_server_name c \<and> sc_server_number c = number"

definition ServerConnInfo_Equals_pipeline :: "'p server_conn \<Rightarrow> 'p \<Rightarrow> bool" where
  "ServerConnInfo_Equals_pipeline c p \<longleftrightarrow> Some p = sc_pipeline c"

record ('e, 'p) io_conn_mgr =
  io_thread_id :: u64
  io_event_base :: 'e
  io_current_conn_id :: u32
  io_pipelines :: "u32 \<rightharpoonup> 'p"
  io_service_pipelines :: "string \<rightharpoonup> u32 set"
  io_server_conns :: "'p server_conn list"

definition new_IOThreadConnManager :: "u64 \<Rightarrow> 'e \<Rightarrow> ('e, 'p) io_conn_mgr" where
  "new_IOThreadConnManager tid evb =
     \<lparr>io_thread_id = tid, io_event_base = evb, io_current_conn_id = 0,
      io_pipelines = Map.empty, io_service_pipelines = Map.empty, io_server_conns = []\<rparr>"

definition IOT_OnNewConnection ::
  "('p \<Rightarrow> string) \<Rightarrow> ('e, 'p) io_conn_mgr \<Rightarrow> 'p \<Rightarrow> (('e, 'p) io_conn_mgr \<times> u32) option" where
  "IOT_OnNewConnection service_name_of s pipeline =
     (case new_conn_loop (io_current_conn_id s) (io_pipelines s) pipeline of
        None \<Rightarrow> None
      | Some (conn_id, cur, m) \<Rightarrow>
          let name = service_name_of pipeline;
              sp = (case io_service_pipelines s name of
                      None \<Rightarrow> (io_service_pipelines s)(name \<mapsto> {conn_id})
                    | Some ids \<Rightarrow> (io_service_pipelines s)(name \<mapsto> insert conn_id ids))
          in Some (s\<lparr>io_current_conn_id := cur, io_pipelines := m, io_service_pipelines := sp\<rparr>, conn_id))"

text \<open>A name that is already registered is only logged; the entry is added in every case.\<close>

definition IOT_OnServerRegister ::
  "('e, 'p) io_conn_mgr \<Rightarrow> 'p \<Rightarrow> string \<Rightarrow> u32 \<Rightarrow> ('e, 'p) io_conn_mgr" where
  "IOT_OnServerRegister s pipeline name number =
     s\<lparr>io_server_conns := io_server_conns s @
         [\<lparr>sc_server_name = name, sc_server_number = number, sc_pipeline = Some pipeline\<rparr>]\<rparr>"

text \<open>
  The clean-up loop of \<open>OnConnectionClosed\<close>: scan the list, erase the first entry of the
  pipeline and start again, until a scan finds none.
\<close>

fun erase_first :: "'p \<Rightarrow> 'p server_conn list \<Rightarrow> 'p server_conn list \<times> bool" where
  "erase_first p [] = ([], False)"
| "erase_first p (c # cs) =
     (if ServerConnInfo_Equals_pipeline c p then (cs, True)
      else let (cs', found) = erase_first p cs in (c # cs', found))"

lemma erase_first_shorter: "erase_first p cs = (cs', True) \<Longrightarrow> length cs' < length cs"
  by (induction cs arbitrary: cs') (auto split: if_splits prod.splits)

function erase_loop :: "'p \<Rightarrow> 'p server_conn list \<Rightarrow> 'p server_conn list" where
  "erase_loop p cs =
     (case erase_first p cs of (cs', True) \<Rightarrow> erase_loop p cs' | (cs', False) \<Rightarrow> cs')"
  by pat_completeness auto
termination
  by (relation "measure (\<lambda>(p, cs). length cs)") (auto dest: erase_first_shorter [OF sym])

declare erase_loop.simps [simp del]

definition IOT_OnConnectionClosed ::
  "('p \<Rightarrow> string) \<Rightarrow> ('e, 'p) io_conn_mgr \<Rightarrow> u32 \<Rightarrow> 'p \<Rightarrow> ('e, 'p) io_conn_mgr \<times> bool" where
  "IOT_OnConnectionClosed service_name_of s conn_id pipeline =
     (let name = service_name_of pipeline;
          s1 = s\<lparr>io_pipelines := (io_pipelines s)(conn_id := None)\<rparr>;
          s2 = (case io_service_pipelines s1 name of
                  Some ids \<Rightarrow> s1\<lparr>io_service_pipelines := (io_service_pipelines s1)(name \<mapsto> ids - {conn_id})\<rparr>
                | None \<Rightarrow> s1)
      in if io_server_conns s2 = [] then (s2, True)
         else (s2\<lparr>io_server_conns := erase_loop pipeline (io_server_conns s2)\<rparr>, True))"

definition IOT_DispatchIOBufByConnID ::
  "('e, 'p) io_conn_mgr \<Rightarrow> u32 \<Rightarrow> iobuf \<Rightarrow> ('p \<times> iobuf) list \<times> bool" where
  "IOT_DispatchIOBufByConnID s conn_id data =
     (case io_pipelines s conn_id of Some p \<Rightarrow> ([(p, data)], True) | None \<Rightarrow> ([], True))"

fun server_scan :: "'p server_conn list \<Rightarrow> string \<Rightarrow> u32 \<Rightarrow> iobuf \<Rightarrow> ('p \<times> iobuf) list \<times> bool" where
  "server_scan [] name number data = ([], False)"
| "server_scan (v # vs) name number data =
     (if ServerConnInfo_Equals v name number
      then (case sc_pipeline v of
              Some p \<Rightarrow> ([(p, data)], True)
            | None \<Rightarrow> server_scan vs name number data)
      else server_scan vs name number data)"

definition IOT_DispatchIOBufByServer ::
  "('e, 'p) io_conn_mgr \<Rightarrow> string \<Rightarrow> u32 \<Rightarrow> iobuf \<Rightarrow> ('p \<times> iobuf) list \<times> bool" where
  "IOT_DispatchIOBufByServer s name number data = server_scan (io_server_conns s) name number data"

text \<open>The table is a \<open>std::map\<close>: broadcasting follows the order of the numbers.\<close>

definition IOT_BroadCast :: "('e, 'p) io_conn_mgr \<Rightarrow> iobuf \<Rightarrow> ('p \<times> iobuf) list" where
  "IOT_BroadCast s data =
     map (\<lambda>k. (the (io_pipelines s k), data)) (sorted_list_of_set (dom (io_pipelines s)))"

definition IOT_FindPipeline :: "('e, 'p) io_conn_mgr \<Rightarrow> u32 \<Rightarrow> 'p option" where
  "IOT_FindPipeline s conn_id = io_pipelines s conn_id"

definition IOT_FindPipelines :: "('e, 'p) io_conn_mgr \<Rightarrow> string \<Rightarrow> u32 set" where
  "IOT_FindPipelines s service =
     (case io_service_pipelines s service of None \<Rightarrow> {} | Some ids \<Rightarrow> ids)"

section \<open>\<open>IOThreadPoolConnManager\<close>\<close>

record ('e, 'p) io_pool =
  pool_mgrs :: "('e, 'p) io_conn_mgr list"
  pool_current_thread_id :: u64

text \<open>
  The constructor: one manager per event base of the new pool, and the thread-local fiber
  manager of each of these threads initialised with the same index.
\<close>

definition new_IOThreadPoolConnManager ::
  "'e list \<Rightarrow> ('e \<Rightarrow> 'e fiber_mgr) \<Rightarrow> ('e, 'p) io_pool \<times> ('e \<Rightarrow> 'e fiber_mgr)" where
  "new_IOThreadPoolConnManager evbs fibers =
     (\<lparr>pool_mgrs = map (\<lambda>(i, e). new_IOThreadConnManager (word_of_nat i) e) (enumerate 0 evbs),
       pool_current_thread_id = 0\<rparr>,
      fold (\<lambda>(i, e) f. f(e := fst (FiberDataManager_Initialize (f e) e (word_of_nat i))))
        (enumerate 0 evbs) fibers)"

fun pool_find_evb :: "('e, 'p) io_conn_mgr list \<Rightarrow> 'e \<Rightarrow> nat \<Rightarrow> nat option" where
  "pool_find_evb [] e i = None"
| "pool_find_evb (m # ms) e i = (if io_event_base m = e then Some i else pool_find_evb ms e (Suc i))"

definition Pool_OnNewConnection ::
  "('p \<Rightarrow> string) \<Rightarrow> ('p \<Rightarrow> 'e) \<Rightarrow> ('e, 'p) io_pool \<Rightarrow> 'p \<Rightarrow> (('e, 'p) io_pool \<times> u64) option" where
  "Pool_OnNewConnection service_name_of evb_of s pipeline =
     (case pool_find_evb (pool_mgrs s) (evb_of pipeline) 0 of
        None \<Rightarrow> Some (s, - 1)
      | Some i \<Rightarrow>
          (case IOT_OnNewConnection service_name_of (pool_mgrs s ! i) pipeline of
             None \<Rightarrow> None
           | Some (m, low) \<Rightarrow>
               Some (s\<lparr>pool_mgrs := (pool_mgrs s)[i := m]\<rparr>, pack_id (word_of_nat i) low)))"

definition Pool_OnServerRegister ::
  "('p \<Rightarrow> 'e) \<Rightarrow> ('e, 'p) io_pool \<Rightarrow> 'p \<Rightarrow> string \<Rightarrow> u32 \<Rightarrow> ('e, 'p) io_pool" where
  "Pool_OnServerRegister evb_of s pipeline name number =
     (case pool_find_evb (pool_mgrs s) (evb_of pipeline) 0 of
        None \<Rightarrow> s
      | Some i \<Rightarrow> s\<lparr>pool_mgrs := (pool_mgrs s)[i := IOT_OnServerRegister (pool_mgrs s ! i) pipeline name number]\<rparr>)"

definition Pool_OnConnectionClosed ::
  "('p \<Rightarrow> string) \<Rightarrow> ('e, 'p) io_pool \<Rightarrow> u64 \<Rightarrow> 'p \<Rightarrow> (('e, 'p) io_pool \<times> bool) res" where
  "Pool_OnConnectionClosed service_name_of s conn_id pipeline =
     rbind (vec_at (pool_mgrs s) (id_hi conn_id)) (\<lambda>m.
       let (m', b) = IOT_OnConnectionClosed service_name_of m (id_lo conn_id) pipeline
       in Inr (s\<lparr>pool_mgrs := (pool_mgrs s)[unat (id_hi conn_id) := m']\<rparr>, b))"

text \<open>The closure of \<open>DispatchIOBufByConnID\<close> is posted to the manager's event base.\<close>

datatype 'e post =
    PostConn 'e nat u32 iobuf | PostServer 'e nat string u32 iobuf | PostBroadCast 'e nat iobuf

definition Pool_DispatchIOBufByConnID ::
  "('e, 'p) io_pool \<Rightarrow> u64 \<Rightarrow> iobuf \<Rightarrow> 'e post res" where
  "Pool_DispatchIOBufByConnID s conn_id data =
     rbind (vec_at (pool_mgrs s) (id_hi conn_id)) (\<lambda>conn.
       Inr (PostConn (io_event_base conn) (unat (id_hi conn_id)) (id_lo conn_id) data))"

text \<open>One hop of the search for a registered server: write, or post the search to the next thread.\<close>

definition Pool_DispatchIOBufByIdx ::
  "('e, 'p) io_pool \<Rightarrow> nat \<Rightarrow> string \<Rightarrow> u32 \<Rightarrow> iobuf \<Rightarrow> ('p \<times> iobuf) list \<times> 'e post option" where
  "Pool_DispatchIOBufByIdx s idx name number data =
     (if idx < length (pool_mgrs s) then
        (case IOT_DispatchIOBufByServer (pool_mgrs s ! idx) name number data of
           (w, True) \<Rightarrow> (w, None)
         | (w, False) \<Rightarrow>
             (let index = idx + 1 in
              if index < length (pool_mgrs s)
              then (w, Some (PostServer (io_event_base (pool_mgrs s ! index)) index name number data))
              else (w, None)))
      else ([], None))"

definition Pool_DispatchIOBufByServer ::
  "('e, 'p) io_pool \<Rightarrow> string \<Rightarrow> u32 \<Rightarrow> iobuf \<Rightarrow> 'e post res" where
  "Pool_DispatchIOBufByServer s name number data =
     rbind (vec_at (pool_mgrs s) 0) (\<lambda>m. Inr (PostServer (io_event_base m) 0 name number data))"

definition Pool_BroadCast :: "('e, 'p) io_pool \<Rightarrow> iobuf \<Rightarrow> 'e post list" where
  "Pool_BroadCast s data =
     map (\<lambda>(i, m). PostBroadCast (io_event_base m) i data) (enumerate 0 (pool_mgrs s))"

text \<open>Running a posted closure.\<close>

fun run_post :: "('e, 'p) io_pool \<Rightarrow> 'e post \<Rightarrow> ('p \<times> iobuf) list \<times> 'e post option" where
  "run_post s (PostConn e i low data) = (fst (IOT_DispatchIOBufByConnID (pool_mgrs s ! i) low data), None)"
| "run_post s (PostServer e i name number data) = Pool_DispatchIOBufByIdx s i name number data"
| "run_post s (PostBroadCast e i data) = (IOT_BroadCast (pool_mgrs s ! i) data, None)"

text \<open>
  A posted closure and, as long as each posts another, the closures after it, with the managers
  as they are: every step runs the closure that was posted. \<open>None\<close> means that the fuel ran out.
\<close>

fun run_chain :: "('e, 'p) io_pool \<Rightarrow> nat \<Rightarrow> 'e post \<Rightarrow> ('p \<times> iobuf) list option" where
  "run_chain s 0 po = None"
| "run_chain s (Suc fuel) po =
     (case run_post s po of
        (w, None) \<Rightarrow> Some w
      | (w, Some po') \<Rightarrow> map_option ((@) w) (run_chain s fuel po'))"

definition GetNextThreadConnManager :: "('e, 'p) io_pool \<Rightarrow> (('e, 'p) io_conn_mgr \<times> ('e, 'p) io_pool) res" where
  "GetNextThreadConnManager s =
     (if length (pool_mgrs s) = 1 then Inr (pool_mgrs s ! 0, s)
      else let cur = (if unat (pool_current_thread_id s) = length (pool_mgrs s) then 0
                      else pool_current_thread_id s)
           in rbind (vec_at (pool_mgrs s) cur) (\<lambda>m. Inr (m, s\<lparr>pool_current_thread_id := cur + 1\<rparr>)))"

definition GetThreadConnManager :: "('e, 'p) io_pool \<Rightarrow> u64 \<Rightarrow> ('e, 'p) io_conn_mgr option" where
  "GetThreadConnManager s conn_id =
     (if unat (id_hi conn_id) < length (pool_mgrs s) then Some (pool_mgrs s ! unat (id_hi conn_id)) else None)"

definition GetThreadConnManager_this :: "('e, 'p) io_pool \<Rightarrow> 'e \<Rightarrow> ('e, 'p) io_conn_mgr option" where
  "GetThreadConnManager_this s this_evb = find (\<lambda>m. io_event_base m = this_evb) (pool_mgrs s)"

section \<open>The process-wide pool\<close>

text \<open>\<open>g_io_thread_pool\<close>: the event bases of the last constructed pool, null after its destruction.\<close>

definition new_DefaultIOThreadPoolExecutor :: "'e list \<Rightarrow> 'e list option \<Rightarrow> 'e list option" where
  "new_DefaultIOThreadPoolExecutor threads g_io_thread_pool = Some threads"

definition delete_DefaultIOThreadPoolExecutor :: "'e list option \<Rightarrow> 'e list option" where
  "delete_DefaultIOThreadPoolExecutor g_io_thread_pool = None"

definition GetEventBaseSize :: "'e list \<Rightarrow> nat" where
  "GetEventBaseSize pool = length pool"

definition pool_GetEventBase :: "'e list \<Rightarrow> u64 \<Rightarrow> 'e res" where
  "pool_GetEventBase pool idx = vec_at pool idx"

definition global_GetEventBaseByThreadID :: "'e list option \<Rightarrow> u64 \<Rightarrow> 'e option res" where
  "global_GetEventBaseByThreadID g idx =
     (case g of None \<Rightarrow> Inr None | Some pool \<Rightarrow> map_sum id Some (pool_GetEventBase pool idx))"

text \<open>
  \<open>GetEventBaseByRand\<close>: random draws until an event base other than the caller's own
  comes up. The draws are a list; when it runs out, the loop is still running.
\<close>

fun rand_loop :: "'e list \<Rightarrow> 'e \<Rightarrow> u32 list \<Rightarrow> 'e res option" where
  "rand_loop pool me [] = None"
| "rand_loop pool me (r # rs) =
     (case vec_at pool (ucast r) of
        Inl err \<Rightarrow> Some (Inl err)
      | Inr evb \<Rightarrow> if me \<noteq> evb then Some (Inr evb) else rand_loop pool me rs)"

definition GetEventBaseByRand :: "'e list option \<Rightarrow> 'e \<Rightarrow> u32 list \<Rightarrow> 'e res option" where
  "GetEventBaseByRand g me draws =
     (case g of
        None \<Rightarrow> Some (Inl NullDeref)
      | Some pool \<Rightarrow> if GetEventBaseSize pool = 1 then Some (pool_GetEventBase pool 0) else rand_loop pool me draws)"

section \<open>The clean-up loop\<close>

lemma erase_first_None: "erase_first p cs = (cs', False) \<Longrightarrow>
    cs' = cs \<and> (\<forall>c \<in> set cs. \<not> ServerConnInfo_Equals_pipeline c p)"
  by (induction cs arbitrary: cs') (auto split: if_splits prod.splits)

lemma erase_first_filter: "erase_first p cs = (cs', True) \<Longrightarrow>
    filter (\<lambda>c. \<not> ServerConnInfo_Equals_pipeline c p) cs' =
    filter (\<lambda>c. \<not> ServerConnInfo_Equals_pipeline c p) cs"
  by (induction cs arbitrary: cs') (auto split: if_splits prod.splits)

lemma erase_loop_eq_filter:
  "erase_loop p cs = filter (\<lambda>c. \<not> ServerConnInfo_Equals_pipeline c p) cs"
proof (induction p cs rule: erase_loop.induct)
  case (1 p cs)
  show ?case
  proof (cases "erase_first p cs")
    case (Pair cs' found)
    show ?thesis
    proof (cases found)
      case True
      then show ?thesis
        using Pair "1.IH" [OF Pair [symmetric]] erase_first_filter [of p cs cs']
        by (subst erase_loop.simps) simp
    next
      case False
      then show ?thesis
        using Pair erase_first_None [of p cs cs'] by (subst erase_loop.simps) (auto simp: filter_id_conv)
    qed
  qed
qed

section \<open>The contract of the connection table\<close>

lemma IOT_OnNewConnection_result:
  assumes "IOT_OnNewConnection sn s p = Some (s', k)"
  shows "io_pipelines s k = None" "io_pipelines s' = (io_pipelines s)(k \<mapsto> p)"
    "IOT_FindPipelines s' n = (if n = sn p then insert k (IOT_FindPipelines s n) else IOT_FindPipelines s n)"
    "io_server_conns s' = io_server_conns s" "io_event_base s' = io_event_base s"
  using assms
  by (auto simp: IOT_OnNewConnection_def Let_def IOT_FindPipelines_def
      split: option.splits prod.splits if_splits dest!: new_conn_loop_result)

lemma IOT_OnConnectionClosed_result:
  assumes "IOT_OnConnectionClosed sn s k p = (s', b)"
  shows "io_pipelines s' = (io_pipelines s)(k := None)"
    "IOT_FindPipelines s' n = (if n = sn p then IOT_FindPipelines s n - {k} else IOT_FindPipelines s n)"
    "io_server_conns s' = filter (\<lambda>c. sc_pipeline c \<noteq> Some p) (io_server_conns s)"
    "b" "io_event_base s' = io_event_base s"
  using assms
  by (auto simp: IOT_OnConnectionClosed_def Let_def IOT_FindPipelines_def erase_loop_eq_filter
      ServerConnInfo_Equals_pipeline_def split: option.splits if_splits intro!: filter_cong)

interpretation iot: conn_registry
  "\<lambda>s p. map_option (\<lambda>(s', c). (s', ucast c :: u64)) (IOT_OnNewConnection sn s p)"
  "\<lambda>s c p. fst (IOT_OnConnectionClosed sn s (id_lo c) p)" io_pipelines
  for sn :: "'p \<Rightarrow> string"
proof unfold_locales
  fix s s' :: "('e, 'p) io_conn_mgr" and p and c :: u64
  assume "map_option (\<lambda>(s', c). (s', ucast c :: u64)) (IOT_OnNewConnection sn s p) = Some (s', c)"
  then obtain k where "IOT_OnNewConnection sn s p = Some (s', k)" "c = ucast k" by auto
  then show "io_pipelines s (id_lo c) = None" "io_pipelines s' = (io_pipelines s)(id_lo c \<mapsto> p)"
    using IOT_OnNewConnection_result by fastforce+
next
  fix s :: "('e, 'p) io_conn_mgr" and c p
  show "io_pipelines (fst (IOT_OnConnectionClosed sn s (id_lo c) p)) = (io_pipelines s)(id_lo c := None)"
    by (cases "IOT_OnConnectionClosed sn s (id_lo c) p") (simp add: IOT_OnConnectionClosed_result(1))
qed

text \<open>The grouping by service agrees with the table.\<close>

definition service_index_ok :: "('p \<Rightarrow> string) \<Rightarrow> ('e, 'p) io_conn_mgr \<Rightarrow> bool" where
  "service_index_ok sn s \<longleftrightarrow>
     (\<forall>n. IOT_FindPipelines s n = {k. \<exists>p. io_pipelines s k = Some p \<and> sn p = n})"

lemma service_index_new: "service_index_ok sn (new_IOThreadConnManager t e)"
  by (simp add: service_index_ok_def new_IOThreadConnManager_def IOT_FindPipelines_def)

lemma service_index_open:
  assumes "service_index_ok sn s" "IOT_OnNewConnection sn s p = Some (s', k)"
  shows "service_index_ok sn s'"
  using assms IOT_OnNewConnection_result [OF assms(2)] by (auto simp: service_index_ok_def)

lemma service_index_close:
  assumes "service_index_ok sn s" "IOT_OnConnectionClosed sn s k p = (s', b)"
    "io_pipelines s k = Some p"
  shows "service_index_ok sn s'"
  using assms IOT_OnConnectionClosed_result [OF assms(2)] by (auto simp: service_index_ok_def)

lemma IOT_OnServerRegister_frame:
  "io_pipelines (IOT_OnServerRegister s p n k) = io_pipelines s"
  "io_service_pipelines (IOT_OnServerRegister s p n k) = io_service_pipelines s"
  by (simp_all add: IOT_OnServerRegister_def)

lemma service_index_register: "service_index_ok sn (IOT_OnServerRegister s p n k) = service_index_ok sn s"
  by (simp add: service_index_ok_def IOT_FindPipelines_def IOT_OnServerRegister_frame)

section \<open>Finding a server through the threads\<close>

lemma server_scan_append:
  "server_scan (xs @ ys) n k d =
     (if snd (server_scan xs n k d) then server_scan xs n k d else server_scan ys n k d)"
  by (induction xs) (auto split: option.splits)

lemma server_scan_miss: "\<not> snd (server_scan xs n k d) \<Longrightarrow> server_scan xs n k d = ([], False)"
  by (induction xs) (auto split: option.splits if_splits)

lemma run_chain_scan:
  assumes "i < length (pool_mgrs s)" "length (pool_mgrs s) - i \<le> fuel"
  shows "run_chain s fuel (PostServer e i n k d) =
     Some (fst (server_scan (concat (map io_server_conns (drop i (pool_mgrs s)))) n k d))"
  using assms
proof (induction fuel arbitrary: e i)
  case (Suc fuel)
  let ?here = "server_scan (io_server_conns (pool_mgrs s ! i)) n k d"
  have drop: "drop i (pool_mgrs s) = pool_mgrs s ! i # drop (Suc i) (pool_mgrs s)"
    using Suc.prems(1) by (rule Cons_nth_drop_Suc [symmetric])
  note hop = drop server_scan_append Pool_DispatchIOBufByIdx_def IOT_DispatchIOBufByServer_def
  show ?case
  proof (cases "snd ?here")
    case True
    then obtain w where "?here = (w, True)" by (cases ?here) auto
    with Suc.prems show ?thesis by (simp add: hop)
  next
    case False
    then have miss: "?here = ([], False)" by (rule server_scan_miss)
    show ?thesis
    proof (cases "Suc i < length (pool_mgrs s)")
      case True
      with Suc.IH [OF True] Suc.prems miss show ?thesis by (simp add: hop)
    next
      case False
      with Suc.prems miss show ?thesis by (simp add: hop)
    qed
  qed
qed simp

section \<open>Round robin\<close>

fun take_managers :: "nat \<Rightarrow> ('e, 'p) io_pool \<Rightarrow> ('e, 'p) io_conn_mgr list res" where
  "take_managers 0 s = Inr []"
| "take_managers (Suc n) s =
     rbind (GetNextThreadConnManager s) (\<lambda>(m, s'). rbind (take_managers n s') (\<lambda>ms. Inr (m # ms)))"

lemma GetNextThreadConnManager_step:
  assumes "2 \<le> length (pool_mgrs s)" "length (pool_mgrs s) < 2 ^ 63"
    "unat (pool_current_thread_id s) \<le> length (pool_mgrs s)"
  defines "c \<equiv> unat (pool_current_thread_id s) mod length (pool_mgrs s)"
  shows "\<exists>s'. GetNextThreadConnManager s = Inr (pool_mgrs s ! c, s') \<and>
     pool_mgrs s' = pool_mgrs s \<and> unat (pool_current_thread_id s') = c + 1"
proof -
  let ?cur = "if unat (pool_current_thread_id s) = length (pool_mgrs s) then 0 else pool_current_thread_id s"
  have c: "unat ?cur = c"
    using assms(3) by (auto simp: c_def)
  have lt: "c < length (pool_mgrs s)"
    unfolding c_def using assms(1) by (intro mod_less_divisor) linarith
  have "unat (?cur + 1) = c + 1"
    using assms(2) lt c by (simp add: unat_word_ariths)
  then show ?thesis
    using assms(1) c lt by (auto simp: GetNextThreadConnManager_def Let_def)
qed

lemma take_managers_rr:
  assumes "2 \<le> length (pool_mgrs s)" "length (pool_mgrs s) < 2 ^ 63"
    "unat (pool_current_thread_id s) \<le> length (pool_mgrs s)"
  shows "take_managers n s =
     Inr (map (\<lambda>j. pool_mgrs s ! ((unat (pool_current_thread_id s) + j) mod length (pool_mgrs s))) [0..<n])"
  using assms
proof (induction n arbitrary: s)
  case (Suc n)
  let ?l = "length (pool_mgrs s)" and ?c = "unat (pool_current_thread_id s) mod length (pool_mgrs s)"
  obtain s' where st: "GetNextThreadConnManager s = Inr (pool_mgrs s ! ?c, s')"
    and s': "pool_mgrs s' = pool_mgrs s" "unat (pool_current_thread_id s') = ?c + 1"
    using GetNextThreadConnManager_step [OF Suc.prems] by blast
  have "?c < ?l" using Suc.prems(1) by (intro mod_less_divisor) linarith
  then have IH: "take_managers n s' = Inr (map (\<lambda>j. pool_mgrs s ! ((?c + 1 + j) mod ?l)) [0..<n])"
    using Suc.IH [of s'] Suc.prems s' by simp
  have "(?c + 1 + j) mod ?l = (unat (pool_current_thread_id s) + Suc j) mod ?l" for j
    by (metis add.assoc add.commute mod_add_left_eq plus_1_eq_Suc)
  then show ?case
    using st IH by (simp add: map_upt_Suc del: upt_Suc)
qed simp

section \<open>Connections of the pool\<close>

lemma pool_find_evb_some:
  "pool_find_evb ms e i = Some j \<Longrightarrow> i \<le> j \<and> j < i + length ms \<and> io_event_base (ms ! (j - i)) = e"
proof (induction ms arbitrary: i)
  case (Cons m ms)
  then show ?case
    by (cases "io_event_base m = e") (auto simp: Suc_diff_le dest!: Cons.IH [of "Suc i"] split: nat.split simp: nth_Cons')
qed simp

lemma pool_find_evb_none: "pool_find_evb ms e i = None \<longleftrightarrow> e \<notin> io_event_base ` set ms"
  by (induction ms arbitrary: i) auto

lemma pool_find_evb_0: "pool_find_evb ms e 0 = Some j \<Longrightarrow> j < length ms \<and> io_event_base (ms ! j) = e"
  using pool_find_evb_some [of ms e 0 j] by simp

section \<open>Properties\<close>

text \<open>The states of a thread's manager: connections open and close, servers register.\<close>

inductive iot_reach :: "('p \<Rightarrow> string) \<Rightarrow> ('e, 'p) io_conn_mgr \<Rightarrow> bool" for sn where
  init: "iot_reach sn (new_IOThreadConnManager t e)"
| open_conn: "iot_reach sn s \<Longrightarrow> IOT_OnNewConnection sn s p = Some (s', k) \<Longrightarrow> iot_reach sn s'"
| close_conn: "iot_reach sn s \<Longrightarrow> io_pipelines s k = Some p \<Longrightarrow>
     IOT_OnConnectionClosed sn s k p = (s', b) \<Longrightarrow> iot_reach sn s'"
| register: "iot_reach sn s \<Longrightarrow> iot_reach sn (IOT_OnServerRegister s p n k)"

lemma iot_reach_index: "iot_reach sn s \<Longrightarrow> service_index_ok sn s"
  by (induction rule: iot_reach.induct)
     (auto intro: service_index_new service_index_open service_index_close simp: service_index_register)

text \<open>
  C20. The grouping by service is exact: \<open>FindPipelines(name)\<close> holds the numbers of the open
  connections of that service and no others, after any sequence of opens, closes and server
  registrations.
\<close>

theorem service_index_exact:
  assumes "iot_reach sn s"
  shows "k \<in> IOT_FindPipelines s name \<longleftrightarrow> (\<exists>p. IOT_FindPipeline s k = Some p \<and> sn p = name)"
  using iot_reach_index [OF assms] by (auto simp: service_index_ok_def IOT_FindPipeline_def)

theorem service_index_exact_witness:
  "\<exists>s :: (nat, string) io_conn_mgr. iot_reach (\<lambda>p. p) s \<and> 1 \<in> IOT_FindPipelines s ''echo''"
proof -
  let ?s = "new_IOThreadConnManager 0 (0 :: nat)"
  obtain s' where "IOT_OnNewConnection (\<lambda>p. p) ?s ''echo'' = Some (s', 1)"
    by (simp add: IOT_OnNewConnection_def new_IOThreadConnManager_def)
  then have r: "iot_reach (\<lambda>p. p) s'" and "IOT_FindPipeline s' 1 = Some ''echo''"
    using iot_reach.open_conn [OF iot_reach.init] IOT_OnNewConnection_result(2)
    by (fastforce simp: IOT_FindPipeline_def)+
  with service_index_exact [OF r, of 1 "''echo''"] show ?thesis by auto
qed

text \<open>
  Closing a connection unregisters its pipeline: the restart loop ends and leaves exactly
  the entries of other pipelines, in their order, so no later dispatch by server name can
  reach the closed pipeline.
\<close>

theorem OnConnectionClosed_unregisters:
  assumes "IOT_OnConnectionClosed sn s k p = (s', b)"
  shows "io_server_conns s' = filter (\<lambda>c. sc_pipeline c \<noteq> Some p) (io_server_conns s) \<and>
     (\<forall>n m d. p \<notin> fst ` set (fst (IOT_DispatchIOBufByServer s' n m d)))"
proof -
  note sc = IOT_OnConnectionClosed_result(3) [OF assms]
  have "p \<notin> fst ` set (fst (server_scan cs n m d))" if "\<forall>c \<in> set cs. sc_pipeline c \<noteq> Some p" for cs n m d
    using that by (induction cs) (auto split: option.splits)
  then show ?thesis by (simp add: sc IOT_DispatchIOBufByServer_def)
qed

theorem OnConnectionClosed_unregisters_witness:
  "io_server_conns (fst (IOT_OnConnectionClosed (\<lambda>_. ''s'')
     (IOT_OnServerRegister (IOT_OnServerRegister (new_IOThreadConnManager 0 (0 :: nat)) ''a'' ''x'' 1) ''b'' ''x'' 1)
     3 ''a'')) = [\<lparr>sc_server_name = ''x'', sc_server_number = 1, sc_pipeline = Some ''b''\<rparr>]"
  by (subst OnConnectionClosed_unregisters [OF surjective_pairing, THEN conjunct1])
     (simp add: IOT_OnServerRegister_def new_IOThreadConnManager_def)

text \<open>
  C21. Dispatch by server name across threads, when no manager changes on the way: the closure
  that \<open>DispatchIOBufByServer\<close> posts, and the closures that its hops post, come to an end within one
  hop per thread and write exactly once, to the first registered entry with that name and
  number in the order of threads, or nowhere when there is none.
\<close>

theorem server_dispatch_first_match:
  assumes "pool_mgrs s \<noteq> []" "length (pool_mgrs s) \<le> fuel"
  shows "\<exists>po. Pool_DispatchIOBufByServer s name number data = Inr po \<and>
     run_chain s fuel po =
       Some (case find (\<lambda>c. ServerConnInfo_Equals c name number \<and> sc_pipeline c \<noteq> None)
               (concat (map io_server_conns (pool_mgrs s))) of
          Some c \<Rightarrow> [(the (sc_pipeline c), data)] | None \<Rightarrow> [])"
proof -
  have "fst (server_scan cs name number data) =
     (case find (\<lambda>c. ServerConnInfo_Equals c name number \<and> sc_pipeline c \<noteq> None) cs of
        Some c \<Rightarrow> [(the (sc_pipeline c), data)] | None \<Rightarrow> [])" for cs
    by (induction cs) (auto split: option.splits)
  moreover have "0 < length (pool_mgrs s)" using assms(1) by simp
  ultimately show ?thesis
    using run_chain_scan [of 0 s fuel _ name number data] assms(2)
    by (simp add: Pool_DispatchIOBufByServer_def vec_at_def)
qed

theorem server_dispatch_first_match_witness:
  "\<exists>po. Pool_DispatchIOBufByServer \<lparr>pool_mgrs = [new_IOThreadConnManager 0 (0 :: nat),
      IOT_OnServerRegister (new_IOThreadConnManager 1 1) ''b'' ''x'' 1], pool_current_thread_id = 0\<rparr> ''x'' 1 [9] = Inr po \<and>
     run_chain \<lparr>pool_mgrs = [new_IOThreadConnManager 0 (0 :: nat),
      IOT_OnServerRegister (new_IOThreadConnManager 1 1) ''b'' ''x'' 1], pool_current_thread_id = 0\<rparr> 2 po = Some [(''b'', [9])]"
proof -
  let ?s = "\<lparr>pool_mgrs = [new_IOThreadConnManager 0 (0 :: nat),
      IOT_OnServerRegister (new_IOThreadConnManager 1 1) ''b'' ''x'' 1], pool_current_thread_id = 0\<rparr>"
  have "pool_mgrs ?s \<noteq> []" "length (pool_mgrs ?s) \<le> 2" by simp_all
  from server_dispatch_first_match [OF this, of "''x''" 1 "[9]"] show ?thesis
    by (simp add: IOT_OnServerRegister_def new_IOThreadConnManager_def ServerConnInfo_Equals_def)
qed

text \<open>
  \<open>GetNextThreadConnManager\<close> is round robin: on a pool of two or more threads, any
  number of calls from a fresh pool returns the managers in cyclic order, never out of range.
\<close>

theorem GetNextThreadConnManager_round_robin:
  assumes "2 \<le> length (pool_mgrs s)" "length (pool_mgrs s) < 2 ^ 63" "pool_current_thread_id s = 0"
  shows "take_managers n s = Inr (map (\<lambda>j. pool_mgrs s ! (j mod length (pool_mgrs s))) [0..<n])"
  using take_managers_rr [OF assms(1,2)] assms(3) by simp

theorem GetNextThreadConnManager_round_robin_witness:
  "take_managers 3 (fst (new_IOThreadPoolConnManager [0 :: nat, 1] (\<lambda>_. new_FiberDataManager 1)) :: (nat, string) io_pool) =
     Inr [new_IOThreadConnManager 0 0, new_IOThreadConnManager 1 1, new_IOThreadConnManager 0 0]"
  by (subst GetNextThreadConnManager_round_robin)
     (simp_all add: new_IOThreadPoolConnManager_def numeral_3_eq_3 upt_rec)

text \<open>
  Connections of the pool: for a pipeline whose event base belongs to the pool, the id
  that \<open>OnNewConnection\<close> returns selects the thread with that event base, and dispatching to
  it posts there a closure that writes to that pipeline.
\<close>

theorem pool_open_dispatch:
  assumes "evb_of p \<in> io_event_base ` set (pool_mgrs s)" "length (pool_mgrs s) \<le> 2 ^ 32"
    and "Pool_OnNewConnection sn evb_of s p = Some (s', c)"
  shows "\<exists>post. Pool_DispatchIOBufByConnID s' c d = Inr post \<and>
     run_post s' post = ([(p, d)], None) \<and> (\<exists>i k. post = PostConn (evb_of p) i k d)"
proof -
  obtain i where f: "pool_find_evb (pool_mgrs s) (evb_of p) 0 = Some i"
    using assms(1) pool_find_evb_none [of "pool_mgrs s" "evb_of p" 0] by (cases "pool_find_evb (pool_mgrs s) (evb_of p) 0") auto
  note i = pool_find_evb_0 [OF f]
  obtain m k where op: "IOT_OnNewConnection sn (pool_mgrs s ! i) p = Some (m, k)"
    and s': "s' = s\<lparr>pool_mgrs := (pool_mgrs s)[i := m]\<rparr>" and c: "c = pack_id (word_of_nat i) k"
    using assms(3) f by (auto simp: Pool_OnNewConnection_def split: option.splits)
  have u: "unat (word_of_nat i :: u64) = i"
    using i assms(2) by (simp add: unsigned_of_nat take_bit_nat_eq_self)
  then have hi: "id_hi c = word_of_nat i" using i assms(2) by (simp add: c)
  have "io_event_base m = evb_of p" "io_pipelines m k = Some p"
    using IOT_OnNewConnection_result(2,5) [OF op] i by simp_all
  then show ?thesis
    using i u hi
    by (simp add: Pool_DispatchIOBufByConnID_def s' IOT_DispatchIOBufByConnID_def) (simp add: c)
qed

text \<open>
  For a pipeline of any other event base, \<open>OnNewConnection\<close> returns $-1$ as an unsigned
  id without registering anything; closing that id indexes the vector of managers out of
  range.
\<close>

theorem pool_foreign_event_base:
  assumes "evb_of p \<notin> io_event_base ` set (pool_mgrs s)" "length (pool_mgrs s) < 2 ^ 32"
  shows "Pool_OnNewConnection sn evb_of s p = Some (s, - 1) \<and>
     Pool_OnConnectionClosed sn s (- 1) p = Inl OutOfRange"
proof -
  have "id_hi (- 1) = mask 32" by (rule bit_word_eqI) (simp add: id_hi_def bit_simps)
  then have "unat (id_hi (- 1)) = 2 ^ 32 - 1" by (simp add: mask_eq_exp_minus_1)
  then show ?thesis
    using assms pool_find_evb_none [of "pool_mgrs s" "evb_of p" 0]
    by (simp add: Pool_OnNewConnection_def Pool_OnConnectionClosed_def)
qed

theorem pool_open_dispatch_witness:
  "\<exists>s' c post. Pool_OnNewConnection (\<lambda>_. ''echo'') (\<lambda>_. 1)
      (fst (new_IOThreadPoolConnManager [0 :: nat, 1] (\<lambda>_. new_FiberDataManager 1))) ''p'' = Some (s', c) \<and>
     Pool_DispatchIOBufByConnID s' c [7] = Inr post \<and> run_post s' post = ([(''p'', [7])], None)"
proof -
  let ?s = "fst (new_IOThreadPoolConnManager [0 :: nat, 1] (\<lambda>_. new_FiberDataManager 1)) :: (nat, string) io_pool"
  obtain s' c where "Pool_OnNewConnection (\<lambda>_. ''echo'') (\<lambda>_. 1) ?s ''p'' = Some (s', c)"
    by (simp add: Pool_OnNewConnection_def new_IOThreadPoolConnManager_def new_IOThreadConnManager_def
        IOT_OnNewConnection_def)
  moreover from pool_open_dispatch [OF _ _ this, of "[7]"]
  have "\<exists>post. Pool_DispatchIOBufByConnID s' c [7] = Inr post \<and> run_post s' post = ([(''p'', [7])], None)"
    by (auto simp: new_IOThreadPoolConnManager_def new_IOThreadConnManager_def)
  ultimately show ?thesis by blast
qed

theorem pool_foreign_event_base_witness:
  "Pool_OnConnectionClosed (\<lambda>_. ''echo'')
     (fst (new_IOThreadPoolConnManager [0 :: nat, 1] (\<lambda>_. new_FiberDataManager 1))) (- 1) ''p'' = Inl OutOfRange"
  by (rule pool_foreign_event_base [THEN conjunct2, of "\<lambda>_. 5"])
     (simp_all add: new_IOThreadPoolConnManager_def new_IOThreadConnManager_def)

end
