(* ===== verification/Time_Util.thy ===== *)
theory Time_Util
  imports Prelude
begin

text \<open>
  Readings of the clock: \<open>gettimeofday\<close> as an argument (seconds and microseconds) and the
  conversions of \<open>base/time_util\<close>, \<open>base/util.cc\<close> and \<open>IotHubUtil.cc\<close>, with the rounding
  of the C++ integer division that \<open>DiffTimeUtil\<close> uses on a negative difference.
\<close>

section \<open>Clock readings\<close>

record timeval =
  tv_sec :: int
  tv_usec :: int

text \<open>Division of signed integers truncates towards zero.\<close>

definition trunc_div :: "int \<Rightarrow> int \<Rightarrow> int" where
  "trunc_div a b = (if a < 0 then - ((- a) div b) else a div b)"

definition NowInMsecTime :: "timeval \<Rightarrow> int" where
  "NowInMsecTime tv = tv_sec tv * 1000 + trunc_div (tv_usec tv) 1000"

definition NowInUsecTime :: "timeval \<Rightarrow> int" where
  "NowInUsecTime tv = tv_sec tv * 1000000 + tv_usec tv"

definition nowMicro :: "timeval \<Rightarrow> u64" where
  "nowMicro tv = word_of_int (tv_sec tv) * 1000000 + word_of_int (tv_usec tv)"

definition get_local_time :: "timeval \<Rightarrow> u64" where
  "get_local_time tv = word_of_int (tv_sec tv * 1000 + trunc_div (tv_usec tv) 1000)"

text \<open>\<open>DiffTimeUtil\<close>: the constructor and \<open>Reset\<close> store a reading.\<close>

record diff_time = dt_now :: timeval

definition new_DiffTimeUtil :: "timeval \<Rightarrow> diff_time" where
  "new_DiffTimeUtil tv = \<lparr>dt_now = tv\<rparr>"

definition DiffTimeUtil_Reset :: "diff_time \<Rightarrow> timeval \<Rightarrow> diff_time" where
  "DiffTimeUtil_Reset d tv = d\<lparr>dt_now := tv\<rparr>"

definition GetDiffTime :: "diff_time \<Rightarrow> timeval \<Rightarrow> u64" where
  "GetDiffTime d t =
     word_of_int ((tv_sec t - tv_sec (dt_now d)) * 1000) +
     word_of_int (trunc_div (tv_usec t - tv_usec (dt_now d)) 1000)"

section \<open>Properties\<close>

definition valid_tv :: "timeval \<Rightarrow> bool" where
  "valid_tv t \<longleftrightarrow> 0 \<le> tv_sec t \<and> 0 \<le> tv_usec t \<and> tv_usec t < 1000000"

lemma trunc_div_bounds:
  assumes "0 < b"
  shows "a div b \<le> trunc_div a b" "trunc_div a b \<le> a div b + 1"
proof -
  have "- ((- a) div b) = a div b + (if a mod b = 0 then 0 else 1)"
    using assms by (simp add: zdiv_zminus1_eq_if)
  then show "a div b \<le> trunc_div a b" "trunc_div a b \<le> a div b + 1"
    by (auto simp: trunc_div_def)
qed

lemma uint_of_bounded: "0 \<le> x \<Longrightarrow> x < 2 ^ 64 \<Longrightarrow> uint (word_of_int x :: u64) = x"
  by (simp add: uint_word_of_int)

text \<open>
  The elapsed time in milliseconds: for two valid readings with the second not before
  the first, \<open>GetDiffTime\<close> is the whole number of elapsed milliseconds or one more (the
  seconds and microseconds are rounded separately), and it does not wrap.
\<close>

theorem GetDiffTime_off_by_at_most_one:
  assumes "valid_tv t0" "valid_tv t" "NowInUsecTime t0 \<le> NowInUsecTime t" "tv_sec t < 2 ^ 50"
  shows "(NowInUsecTime t - NowInUsecTime t0) div 1000 \<le> uint (GetDiffTime (new_DiffTimeUtil t0) t) \<and>
     uint (GetDiffTime (new_DiffTimeUtil t0) t) \<le> (NowInUsecTime t - NowInUsecTime t0) div 1000 + 1"
proof -
  let ?s = "tv_sec t - tv_sec t0" and ?u = "tv_usec t - tv_usec t0"
  have us: "NowInUsecTime t - NowInUsecTime t0 = ?s * 1000 * 1000 + ?u"
    by (simp add: NowInUsecTime_def algebra_simps)
  have ms: "(NowInUsecTime t - NowInUsecTime t0) div 1000 = ?s * 1000 + ?u div 1000"
    unfolding us by (simp add: div_mult_self3)
  let ?r = "?s * 1000 + trunc_div ?u 1000"
  have r: "(NowInUsecTime t - NowInUsecTime t0) div 1000 \<le> ?r"
    "?r \<le> (NowInUsecTime t - NowInUsecTime t0) div 1000 + 1"
    using trunc_div_bounds [of 1000 ?u] by (auto simp: ms)
  have "0 \<le> (NowInUsecTime t - NowInUsecTime t0) div 1000" using assms(3) by simp
  then have "0 \<le> ?r" using r(1) by linarith
  moreover have "trunc_div ?u 1000 \<le> 1000" using assms(1,2) trunc_div_bounds(2) [of 1000 ?u] by (auto simp: valid_tv_def)
  then have "?r < 2 ^ 64" using assms(1,4) by (auto simp: valid_tv_def)
  moreover have "GetDiffTime (new_DiffTimeUtil t0) t = word_of_int ?r"
    by (simp add: GetDiffTime_def new_DiffTimeUtil_def)
  ultimately have "uint (GetDiffTime (new_DiffTimeUtil t0) t) = ?r" by (simp only: uint_of_bounded)
  with r show ?thesis by simp
qed

theorem GetDiffTime_off_by_at_most_one_witness:
  "uint (GetDiffTime (new_DiffTimeUtil \<lparr>tv_sec = 10, tv_usec = 1\<rparr>) \<lparr>tv_sec = 11, tv_usec = 0\<rparr>) \<le> 1000"
  using GetDiffTime_off_by_at_most_one [of "\<lparr>tv_sec = 10, tv_usec = 1\<rparr>" "\<lparr>tv_sec = 11, tv_usec = 0\<rparr>"]
  by (simp add: valid_tv_def NowInUsecTime_def)

end
