(* ===== verification/Call_Chain.thy ===== *)
theory Call_Chain
  imports Time_Util
begin

text \<open>
  Call chains (\<open>message_util/call_chain_util.h\<close>, \<open>.cc\<close>): the stop-watch
  \<open>CallChainTimeUtil\<close>, the record \<open>CallChainData\<close> that a thread carries along a chain of
  calls, its textual form, and the thread-local copy. Clock readings are arguments.
\<close>

section \<open>\<open>CallChainTimeUtil\<close>\<close>

record call_chain_time =
  cct_chain_t :: u64
  cct_now :: u64

definition CalcTimeVal :: "timeval \<Rightarrow> u64" where
  "CalcTimeVal t = word_of_int (tv_sec t) * 1000000 + word_of_int (tv_usec t)"

definition new_CallChainTimeUtil :: "timeval \<Rightarrow> call_chain_time" where
  "new_CallChainTimeUtil t = (let now = CalcTimeVal t in \<lparr>cct_chain_t = now, cct_now = now\<rparr>)"

definition new_CallChainTimeUtil_begin :: "timeval \<Rightarrow> u64 \<Rightarrow> call_chain_time" where
  "new_CallChainTimeUtil_begin t b = \<lparr>cct_chain_t = b, cct_now = CalcTimeVal t\<rparr>"

definition new_CallChainTimeUtil_now :: "u64 \<Rightarrow> u64 \<Rightarrow> call_chain_time" where
  "new_CallChainTimeUtil_now b now = \<lparr>cct_chain_t = b, cct_now = now\<rparr>"

definition SetChainTime :: "call_chain_time \<Rightarrow> u64 \<Rightarrow> call_chain_time" where
  "SetChainTime c t = c\<lparr>cct_chain_t := t\<rparr>"

definition CallChainTimeUtil_Reset :: "call_chain_time \<Rightarrow> timeval \<Rightarrow> call_chain_time" where
  "CallChainTimeUtil_Reset c t = c\<lparr>cct_now := CalcTimeVal t\<rparr>"

definition CallChainTimeUtil_GetDiffTime :: "call_chain_time \<Rightarrow> timeval \<Rightarrow> u64" where
  "CallChainTimeUtil_GetDiffTime c t =
     (let n = CalcTimeVal t in if cct_now c > n then 0 else n - cct_now c)"

definition GetDiffChainTime :: "call_chain_time \<Rightarrow> timeval \<Rightarrow> u64" where
  "GetDiffChainTime c t =
     (let n = CalcTimeVal t in if cct_chain_t c > n then 0 else n - cct_chain_t c)"

text \<open>The two differences are taken at two readings of the clock.\<close>

definition GetChainDiffTimes :: "call_chain_time \<Rightarrow> timeval \<Rightarrow> timeval \<Rightarrow> u64 \<times> u64" where
  "GetChainDiffTimes c t1 t2 = (CallChainTimeUtil_GetDiffTime c t1, GetDiffChainTime c t2)"

section \<open>\<open>CallChainData\<close>\<close>

record call_chain_data =
  chain_timetick :: u64
  timetick :: u64
  call_chain_id :: u64

definition new_CallChainData :: call_chain_data where
  "new_CallChainData = \<lparr>chain_timetick = 0, timetick = 0, call_chain_id = 0\<rparr>"

text \<open>
  \<open>folly::to<std::string>\<close> appends the textual forms of its arguments; it does not read the
  first one as a format.
\<close>

definition CallChainData_ToString :: "call_chain_data \<Rightarrow> timeval \<Rightarrow> string" where
  "CallChainData_ToString d tv =
     (let now = word_of_int (NowInUsecTime tv) :: u64;
          chain_timetick_diff = (if now > chain_timetick d then now - chain_timetick d else 0);
          timetick_diff = (if now > timetick d then now - timetick d else 0)
      in ''{{call_chain_data - call_chain_id:{}, chain_timetick:{}, timetick:{}, now:{}, chain_cost:{}, cost:{}}}''
         @ dec (unat (call_chain_id d)) @ dec (unat (chain_timetick d)) @ dec (unat (timetick d))
         @ dec (unat now) @ dec (unat (chain_timetick_diff div 1000)) @ dec (unat (timetick_diff div 1000)))"

text \<open>The copy of a thread is made on its first use.\<close>

definition GetCallChainDataByThreadLocal ::
  "('th \<rightharpoonup> call_chain_data) \<Rightarrow> 'th \<Rightarrow> call_chain_data \<times> ('th \<rightharpoonup> call_chain_data)" where
  "GetCallChainDataByThreadLocal cache th =
     (case cache th of
        Some d \<Rightarrow> (d, cache)
      | None \<Rightarrow> (new_CallChainData, cache(th \<mapsto> new_CallChainData)))"

section \<open>Properties\<close>

text \<open>A reading whose microseconds fit into 64 bits.\<close>

definition fits_tv :: "timeval \<Rightarrow> bool" where
  "fits_tv t \<longleftrightarrow> valid_tv t \<and> tv_sec t < 2 ^ 43"

lemma uint_CalcTimeVal: "fits_tv t \<Longrightarrow> uint (CalcTimeVal t) = NowInUsecTime t"
proof -
  assume "fits_tv t"
  then have "0 \<le> NowInUsecTime t" "NowInUsecTime t < 2 ^ 64"
    by (auto simp: fits_tv_def valid_tv_def NowInUsecTime_def)
  moreover have "CalcTimeVal t = word_of_int (NowInUsecTime t)"
    by (simp add: CalcTimeVal_def NowInUsecTime_def)
  ultimately show ?thesis by (simp only: uint_of_bounded)
qed

lemma uint_saturating:
  "uint (if b > n then 0 else n - b) = max 0 (uint n - uint (b :: u64))"
  by (auto simp: word_less_def uint_sub_lem [THEN iffD1] not_less)

text \<open>
  C38. A stop-watch that was started at one reading and read at later ones reports the elapsed
  microseconds since the start of the call chain and since its own creation (or its last
  \<open>Reset\<close>); a clock that was set back gives 0 and never a wrapped value.
\<close>

theorem chain_times_exact:
  assumes "fits_tv t0" "fits_tv t1" "fits_tv t2"
    and "c = CallChainTimeUtil_Reset (SetChainTime (new_CallChainTimeUtil u) b) t0"
    and "GetChainDiffTimes c t1 t2 = (t, chain_t)"
  shows "uint t = max 0 (NowInUsecTime t1 - NowInUsecTime t0) \<and>
         uint chain_t = max 0 (NowInUsecTime t2 - uint b)"
proof -
  have c: "cct_now c = CalcTimeVal t0" "cct_chain_t c = b"
    by (simp_all add: assms(4) CallChainTimeUtil_Reset_def SetChainTime_def)
  have "t = CallChainTimeUtil_GetDiffTime c t1" "chain_t = GetDiffChainTime c t2"
    using assms(5) by (simp_all add: GetChainDiffTimes_def)
  then show ?thesis
    by (simp only: CallChainTimeUtil_GetDiffTime_def GetDiffChainTime_def Let_def c uint_saturating
        uint_CalcTimeVal assms(1-3))
qed

theorem chain_times_exact_witness:
  "\<exists>t chain_t. GetChainDiffTimes (CallChainTimeUtil_Reset (SetChainTime
       (new_CallChainTimeUtil \<lparr>tv_sec = 1, tv_usec = 0\<rparr>) 500000) \<lparr>tv_sec = 3, tv_usec = 5\<rparr>)
       \<lparr>tv_sec = 2, tv_usec = 0\<rparr> \<lparr>tv_sec = 4, tv_usec = 0\<rparr> = (t, chain_t) \<and>
     uint t = 0 \<and> uint chain_t = 3500000"
proof -
  let ?c = "CallChainTimeUtil_Reset (SetChainTime
       (new_CallChainTimeUtil \<lparr>tv_sec = 1, tv_usec = 0\<rparr>) 500000) \<lparr>tv_sec = 3, tv_usec = 5\<rparr>"
  obtain t chain_t where g: "GetChainDiffTimes ?c \<lparr>tv_sec = 2, tv_usec = 0\<rparr> \<lparr>tv_sec = 4, tv_usec = 0\<rparr> = (t, chain_t)"
    by (cases "GetChainDiffTimes ?c \<lparr>tv_sec = 2, tv_usec = 0\<rparr> \<lparr>tv_sec = 4, tv_usec = 0\<rparr>")
  have "fits_tv \<lparr>tv_sec = 2, tv_usec = 0\<rparr>" "fits_tv \<lparr>tv_sec = 3, tv_usec = 5\<rparr>" "fits_tv \<lparr>tv_sec = 4, tv_usec = 0\<rparr>"
    by (simp_all add: fits_tv_def valid_tv_def)
  from chain_times_exact [OF this(2,1,3) refl g] g show ?thesis by (simp add: NowInUsecTime_def)
qed

text \<open>
  The text does not determine the record: two call chains with different ids and start times
  are printed alike, because the numbers follow the unread format without a separator.
\<close>

theorem call_chain_text_ambiguous:
  "CallChainData_ToString \<lparr>chain_timetick = 23, timetick = 7, call_chain_id = 1\<rparr> \<lparr>tv_sec = 0, tv_usec = 100\<rparr> =
   CallChainData_ToString \<lparr>chain_timetick = 3, timetick = 7, call_chain_id = 12\<rparr> \<lparr>tv_sec = 0, tv_usec = 100\<rparr>"
proof -
  have "dec 1 = ''1''" "dec 23 = ''23''" "dec 12 = ''12''" "dec 3 = ''3''"
    by code_simp+
  then show ?thesis by (simp add: CallChainData_ToString_def NowInUsecTime_def)
qed

end
