(* ===== verification/Snowflake.thy ===== *)
theory Snowflake
  imports Time_Util Transition_Systems
begin

text \<open>
  The generator of unique ids (\<open>base/snowflake_id_util.cc\<close>): \<open>IdWorker\<close>, its process-wide
  settings and the worker each thread creates on first use. The clock is a list of readings,
  consumed one per call of \<open>nowInMsec\<close>; running out of readings while
  \<open>tilNextMillis\<close> still waits is \<open>None\<close>.
\<close>

section \<open>\<open>IdWorker\<close>\<close>

record id_worker =
  worker_id :: u16
  data_center_id :: u16
  last_timestamp :: u64
  sequence_number :: u32

text \<open>\<open>last_timestamp_\<close> has no initial value: it is an argument.\<close>

definition new_IdWorker :: "u64 \<Rightarrow> u16 \<Rightarrow> u16 \<Rightarrow> id_worker" where
  "new_IdWorker indeterminate w d =
     \<lparr>worker_id = w, data_center_id = d, last_timestamp = indeterminate, sequence_number = 0\<rparr>"

definition nowInMsec :: "timeval \<Rightarrow> u64" where
  "nowInMsec tv = word_of_int (tv_sec tv) * 1000 + word_of_int (trunc_div (tv_usec tv) 1000)"

fun tilNextMillis :: "u64 \<Rightarrow> timeval list \<Rightarrow> (u64 \<times> timeval list) option" where
  "tilNextMillis last_ts [] = None"
| "tilNextMillis last_ts (c # cs) =
     (let timestamp = nowInMsec c
      in if timestamp \<le> last_ts then tilNextMillis last_ts cs else Some (timestamp, cs))"

definition make_id :: "u64 \<Rightarrow> u16 \<Rightarrow> u16 \<Rightarrow> u32 \<Rightarrow> u64" where
  "make_id timestamp dc w sn =
     push_bit 22 (timestamp AND 0x1FFFFFF) OR push_bit 17 (ucast (dc AND 0x1F)) OR
     push_bit 12 (ucast (w AND 0x1F)) OR ucast (sn AND 0xFFF)"

definition IdWorker_GetNextID :: "id_worker \<Rightarrow> timeval list \<Rightarrow> (u64 \<times> id_worker \<times> timeval list) option" where
  "IdWorker_GetNextID w clock =
     (case clock of
        [] \<Rightarrow> None
      | c # cs \<Rightarrow>
          let timestamp = nowInMsec c;
              next = (if last_timestamp w = timestamp
                      then let sn = (sequence_number w + 1) AND 0xFFF
                           in if sn = 0
                              then map_option (\<lambda>(t, cs'). (t, sn, cs')) (tilNextMillis (ucast sn) cs)
                              else Some (timestamp, sn, cs)
                      else Some (timestamp, 0, cs))
          in case next of
               None \<Rightarrow> None
             | Some (t, sn, cs') \<Rightarrow>
                 Some (make_id t (data_center_id w) (worker_id w) sn,
                       w\<lparr>last_timestamp := t, sequence_number := sn\<rparr>, cs'))"

section \<open>The process-wide generators\<close>

record 'th snowflake =
  g_worker_id :: u16
  g_data_center_id :: u16
  g_thread_id :: u16
  id_workers :: "'th \<rightharpoonup> id_worker"
  g_id_worker :: "id_worker option"

definition new_Snowflake :: "'th snowflake" where
  "new_Snowflake = \<lparr>g_worker_id = 1, g_data_center_id = 1, g_thread_id = 0,
     id_workers = Map.empty, g_id_worker = None\<rparr>"

definition InitSnowflakeWorkerID :: "'th snowflake \<Rightarrow> u16 \<Rightarrow> u16 \<Rightarrow> 'th snowflake" where
  "InitSnowflakeWorkerID s w d = s\<lparr>g_worker_id := w, g_data_center_id := d\<rparr>"

text \<open>The thread-local worker is created on first use, numbered by an atomic counter.\<close>

definition GetIdWorkerByThreadLocal :: "u64 \<Rightarrow> 'th snowflake \<Rightarrow> 'th \<Rightarrow> id_worker \<times> 'th snowflake" where
  "GetIdWorkerByThreadLocal ind s th =
     (case id_workers s th of
        Some w \<Rightarrow> (w, s)
      | None \<Rightarrow>
          let w = new_IdWorker ind (g_worker_id s) (g_thread_id s)
          in (w, s\<lparr>g_thread_id := g_thread_id s + 1, id_workers := (id_workers s)(th \<mapsto> w)\<rparr>))"

definition GetNextIDBySnowflake ::
  "u64 \<Rightarrow> 'th snowflake \<Rightarrow> 'th \<Rightarrow> timeval list \<Rightarrow> (u64 \<times> 'th snowflake \<times> timeval list) option" where
  "GetNextIDBySnowflake ind s th clock =
     (let (w, s1) = GetIdWorkerByThreadLocal ind s th
      in case IdWorker_GetNextID w clock of
           None \<Rightarrow> None
         | Some (x, w', cs) \<Rightarrow> Some (x, s1\<lparr>id_workers := (id_workers s1)(th \<mapsto> w')\<rparr>, cs))"

definition GetNextIDBySnowflakeUnSafe ::
  "u64 \<Rightarrow> 'th snowflake \<Rightarrow> timeval list \<Rightarrow> (u64 \<times> 'th snowflake \<times> timeval list) option" where
  "GetNextIDBySnowflakeUnSafe ind s clock =
     (let w = (case g_id_worker s of
                 Some w \<Rightarrow> w | None \<Rightarrow> new_IdWorker ind (g_worker_id s) (g_data_center_id s))
      in case IdWorker_GetNextID w clock of
           None \<Rightarrow> None
         | Some (x, w', cs) \<Rightarrow> Some (x, s\<lparr>g_id_worker := Some w'\<rparr>, cs))"

section \<open>The fields of an id\<close>

lemma mask_consts:
  "(0x1FFFFFF :: u64) = mask 25" "(0x1F :: u16) = mask 5" "(0xFFF :: u32) = mask 12"
  "(0x1F :: u64) = mask 5" "(0xFFF :: u64) = mask 12"
  by (simp_all add: mask_eq_exp_minus_1)

lemma bit_make_id:
  assumes "n < 64"
  shows "bit (make_id t d w sn) n \<longleftrightarrow>
     (if n < 12 then bit sn n else if n < 17 then bit w (n - 12)
      else if n < 22 then bit d (n - 17) else n < 47 \<and> bit t (n - 22))"
proof -
  have "bit (push_bit 22 (t AND mask 25)) n \<longleftrightarrow> 22 \<le> n \<and> n < 47 \<and> bit t (n - 22)"
    using assms by (auto simp: bit_push_bit_iff bit_and_iff bit_mask_iff)
  moreover have "bit (push_bit 17 (ucast (d AND mask 5) :: u64)) n \<longleftrightarrow> 17 \<le> n \<and> n < 22 \<and> bit d (n - 17)"
    using assms by (auto simp: bit_push_bit_iff bit_and_iff bit_mask_iff bit_ucast_iff)
  moreover have "bit (push_bit 12 (ucast (w AND mask 5) :: u64)) n \<longleftrightarrow> 12 \<le> n \<and> n < 17 \<and> bit w (n - 12)"
    using assms by (auto simp: bit_push_bit_iff bit_and_iff bit_mask_iff bit_ucast_iff)
  moreover have "bit (ucast (sn AND mask 12) :: u64) n \<longleftrightarrow> n < 12 \<and> bit sn n"
    using assms by (auto simp: bit_and_iff bit_mask_iff bit_ucast_iff)
  ultimately show ?thesis
    unfolding make_id_def mask_consts bit_or_iff by (cases "n < 12"; cases "n < 17"; cases "n < 22") simp_all
qed

lemma make_id_timestamp: "drop_bit 22 (make_id t d w sn) = t AND 0x1FFFFFF"
proof (rule bit_word_eqI)
  fix n assume "n < LENGTH(64)"
  show "bit (drop_bit 22 (make_id t d w sn)) n = bit (t AND 0x1FFFFFF) n"
    by (cases "n + 22 < 64")
       (auto simp: bit_make_id mask_consts bit_simps add.commute dest: bit_imp_le_length)
qed

lemma make_id_data_center: "drop_bit 17 (make_id t d w sn) AND 0x1F = ucast (d AND 0x1F)"
proof (rule bit_word_eqI)
  fix n assume "n < LENGTH(64)"
  show "bit (drop_bit 17 (make_id t d w sn) AND 0x1F) n = bit (ucast (d AND 0x1F) :: u64) n"
    by (cases "n < 5") (auto simp: bit_make_id mask_consts bit_simps add.commute)
qed

lemma make_id_worker: "drop_bit 12 (make_id t d w sn) AND 0x1F = ucast (w AND 0x1F)"
proof (rule bit_word_eqI)
  fix n assume "n < LENGTH(64)"
  show "bit (drop_bit 12 (make_id t d w sn) AND 0x1F) n = bit (ucast (w AND 0x1F) :: u64) n"
    by (cases "n < 5") (auto simp: bit_make_id mask_consts bit_simps add.commute)
qed

lemma make_id_sequence: "make_id t d w sn AND 0xFFF = ucast (sn AND 0xFFF)"
proof (rule bit_word_eqI)
  fix n assume "n < LENGTH(64)"
  show "bit (make_id t d w sn AND 0xFFF) n = bit (ucast (sn AND 0xFFF) :: u64) n"
    by (cases "n < 12") (auto simp: bit_make_id mask_consts bit_simps)
qed

lemmas make_id_fields = make_id_timestamp make_id_data_center make_id_worker make_id_sequence

lemma unat_ucast_u16: "unat (ucast (a :: u16) :: u64) = unat a"
  using unsigned_less [of a, where 'a = nat] by (simp add: unsigned_ucast_eq take_bit_nat_eq_self)

lemma ucast_u16_inj: "(ucast (a :: u16) :: u64) = ucast b \<longleftrightarrow> a = b"
  by (metis unat_ucast_u16 unsigned_word_eqI)

lemma make_id_eq_iff:
  "make_id t d w n = make_id t' d' w' n' \<longleftrightarrow>
     t AND 0x1FFFFFF = t' AND 0x1FFFFFF \<and> d AND 0x1F = d' AND 0x1F \<and>
     w AND 0x1F = w' AND 0x1F \<and> n AND 0xFFF = n' AND 0xFFF"
proof
  assume eq: "make_id t d w n = make_id t' d' w' n'"
  have "t AND 0x1FFFFFF = t' AND 0x1FFFFFF"
    using make_id_timestamp [of t d w n] make_id_timestamp [of t' d' w' n'] eq by simp
  moreover have "d AND 0x1F = d' AND 0x1F"
    using make_id_data_center [of t d w n] make_id_data_center [of t' d' w' n'] eq
    by (simp only: ucast_u16_inj)
  moreover have "w AND 0x1F = w' AND 0x1F"
    using make_id_worker [of t d w n] make_id_worker [of t' d' w' n'] eq by (simp only: ucast_u16_inj)
  moreover have "n AND 0xFFF = n' AND 0xFFF"
    using make_id_sequence [of t d w n] make_id_sequence [of t' d' w' n'] eq by (simp only: ucast_u32_inj)
  ultimately show "t AND 0x1FFFFFF = t' AND 0x1FFFFFF \<and> d AND 0x1F = d' AND 0x1F \<and>
     w AND 0x1F = w' AND 0x1F \<and> n AND 0xFFF = n' AND 0xFFF" by simp
qed (simp add: make_id_def)

section \<open>Sequences of ids\<close>

fun snow_run :: "nat \<Rightarrow> id_worker \<Rightarrow> timeval list \<Rightarrow> u64 list option" where
  "snow_run 0 w cs = Some []"
| "snow_run (Suc n) w cs =
     (case IdWorker_GetNextID w cs of
        None \<Rightarrow> None | Some (x, w', cs') \<Rightarrow> map_option ((#) x) (snow_run n w' cs'))"

text \<open>What a run is meant to produce: each reading with its position within the millisecond.\<close>

fun numbered :: "nat \<Rightarrow> nat \<Rightarrow> nat list \<Rightarrow> (nat \<times> nat) list" where
  "numbered l k [] = []"
| "numbered l k (t # ts) = (let k' = (if t = l then Suc k else 0) in (t, k') # numbered t k' ts)"

definition msecs :: "timeval list \<Rightarrow> nat list" where
  "msecs cs = map (\<lambda>c. unat (nowInMsec c)) cs"

lemma msecs_simps [simp]: "msecs [] = []" "msecs (c # cs) = unat (nowInMsec c) # msecs cs"
  "length (msecs cs) = length cs"
  by (simp_all add: msecs_def)

lemma numbered_bounds:
  assumes "k + count_list ts l \<le> 4095" "\<forall>t. count_list ts t \<le> 4096"
  shows "\<forall>(t, n) \<in> set (numbered l k ts). t \<in> set ts \<and> n < 4096"
  using assms
proof (induction ts arbitrary: l k)
  case (Cons t ts)
  let ?k = "if t = l then Suc k else 0"
  have "\<forall>t. count_list ts t \<le> 4096"
    using Cons.prems(2) by (metis (no_types) Suc_leD count_list.simps(2) Suc_eq_plus1)
  moreover have "?k + count_list ts t \<le> 4095"
    using Cons.prems(1) spec [OF Cons.prems(2), of t] by (auto split: if_splits)
  ultimately show ?case using Cons.IH [of ?k t] Cons.prems(1) by (auto simp: Let_def split: if_splits)
qed simp

lemma numbered_increasing:
  assumes "sorted (l # ts)" "k + count_list ts l \<le> 4095" "\<forall>t. count_list ts t \<le> 4096"
  shows "sorted_wrt (<) (map (\<lambda>(t, n). t * 4096 + n) ((l, k) # numbered l k ts))"
  using assms
proof (induction ts arbitrary: l k)
  case (Cons t ts)
  let ?k = "if t = l then Suc k else 0"
  let ?key = "\<lambda>(t, n). t * 4096 + n :: nat"
  have "\<forall>t. count_list ts t \<le> 4096"
    using Cons.prems(3) by (metis (no_types) Suc_leD count_list.simps(2) Suc_eq_plus1)
  moreover have "?k + count_list ts t \<le> 4095"
    using Cons.prems(2) spec [OF Cons.prems(3), of t] by (auto split: if_splits)
  ultimately have IH: "sorted_wrt (<) (map ?key ((t, ?k) # numbered t ?k ts))"
    using Cons.IH [of t ?k] Cons.prems(1) by simp
  have "k < 4096" using Cons.prems(2) by simp
  have step: "?key (l, k) < ?key (t, ?k)"
  proof (cases "t = l")
    case False
    then have "l + 1 \<le> t" using Cons.prems(1) by simp
    then have "(l + 1) * 4096 \<le> t * 4096" by (rule mult_le_mono1)
    then show ?thesis using \<open>k < 4096\<close> False by simp
  qed simp
  then show ?case using IH by (simp add: Let_def sorted_wrt2 del: sorted_wrt.simps)
qed simp

lemma and_0xFFF: "unat (n :: u32) < 4096 \<Longrightarrow> n AND 0xFFF = n"
  unfolding mask_consts take_bit_eq_mask [symmetric]
  by (intro unsigned_word_eqI [where 'a = nat]) (simp add: unsigned_take_bit_eq take_bit_nat_eq_self)

lemma snow_run_numbered:
  assumes "last_timestamp w = word_of_nat l" "l < 2 ^ 64" "sequence_number w = word_of_nat k" "k < 4096"
    and "\<forall>(t, n) \<in> set (numbered l k (msecs cs)). n < 4096"
  shows "snow_run (length cs) w cs =
     Some (map (\<lambda>(t, n). make_id (word_of_nat t) (data_center_id w) (worker_id w) (word_of_nat n))
       (numbered l k (msecs cs)))"
  using assms
proof (induction cs arbitrary: w l k)
  case (Cons c cs)
  let ?t = "unat (nowInMsec c)" and ?k = "if unat (nowInMsec c) = l then Suc k else 0"
  have k: "?k < 4096" using Cons.prems(5) by (simp add: Let_def)
  have "nowInMsec c = word_of_nat l \<longleftrightarrow> ?t = l"
    using Cons.prems(2) by (simp add: word_unat_eq_iff unsigned_of_nat take_bit_nat_eq_self)
  moreover have "(word_of_nat k + 1) AND 0xFFF = (word_of_nat (Suc k) :: u32)" if "Suc k < 4096"
  proof -
    have "unat (word_of_nat (Suc k) :: u32) < 4096"
      using that by (simp add: unsigned_of_nat take_bit_nat_eq_self del: of_nat_Suc)
    from and_0xFFF [OF this] show ?thesis by (simp add: add.commute)
  qed
  moreover have "(word_of_nat (Suc k) :: u32) \<noteq> 0" if "Suc k < 4096"
    using that by (simp add: word_of_nat_eq_0_iff nat_dvd_not_less del: of_nat_Suc)
  ultimately have "IdWorker_GetNextID w (c # cs) =
      Some (make_id (nowInMsec c) (data_center_id w) (worker_id w) (word_of_nat ?k),
            w\<lparr>last_timestamp := nowInMsec c, sequence_number := word_of_nat ?k\<rparr>, cs)"
    using Cons.prems(1,3) k by (auto simp: IdWorker_GetNextID_def Let_def)
  moreover have "snow_run (length cs) (w\<lparr>last_timestamp := nowInMsec c, sequence_number := word_of_nat ?k\<rparr>) cs =
      Some (map (\<lambda>(t, n). make_id (word_of_nat t) (data_center_id w) (worker_id w) (word_of_nat n))
        (numbered ?t ?k (msecs cs)))"
    using Cons.IH [of "w\<lparr>last_timestamp := nowInMsec c, sequence_number := word_of_nat ?k\<rparr>" ?t ?k]
      Cons.prems(5) k unsigned_less [of "nowInMsec c", where 'a = nat] by (auto simp: Let_def)
  ultimately show ?case by (simp add: Let_def)
qed simp

lemma and_mask_eq_mod:
  "x AND mask k = y AND mask k \<longleftrightarrow> unat x mod 2 ^ k = unat y mod 2 ^ k" for x y :: "'a :: len word"
  by (simp only: take_bit_eq_mask [symmetric] word_unat_eq_iff unsigned_take_bit_eq take_bit_nat_def)

lemma make_id_eq_mod:
  "make_id t d w n = make_id t' d' w' n' \<longleftrightarrow>
     unat t mod 2 ^ 25 = unat t' mod 2 ^ 25 \<and> unat d mod 2 ^ 5 = unat d' mod 2 ^ 5 \<and>
     unat w mod 2 ^ 5 = unat w' mod 2 ^ 5 \<and> unat n mod 2 ^ 12 = unat n' mod 2 ^ 12"
  unfolding make_id_eq_iff mask_consts and_mask_eq_mod ..

lemma mod_window:
  fixes a b :: nat
  assumes "a mod m = b mod m" "a < b + m" "b < a + m"
  shows "a = b"
proof -
  have "m dvd (a - b)" "m dvd (b - a)" using assms(1) by (metis mod_eq_dvd_iff_nat nat_le_linear diff_is_0_eq dvd_0_right)+
  then show ?thesis using assms(2,3) by (metis add_diff_cancel_left' dvd_imp_le less_diff_conv2 linorder_not_le
      linorder_neqE_nat nat_less_le zero_less_diff add.commute)
qed

section \<open>Threads\<close>

text \<open>
  What the threads of a process do with the generators, in any order, with the ids they are
  given. A thread's call may start with any indeterminate value in a new worker and read any clock.
\<close>

datatype 'th snow_label = Init u16 u16 | Gave 'th u64 | GaveUnsafe u64

inductive snow_step :: "'th snowflake \<Rightarrow> 'th snow_label \<Rightarrow> 'th snowflake \<Rightarrow> bool" where
  init: "snow_step s (Init w d) (InitSnowflakeWorkerID s w d)"
| gen: "GetNextIDBySnowflake ind s th clock = Some (x, s', cs) \<Longrightarrow> snow_step s (Gave th x) s'"
| unsafe: "GetNextIDBySnowflakeUnSafe ind s clock = Some (x, s', cs) \<Longrightarrow> snow_step s (GaveUnsafe x) s'"

definition snow_threads :: "'th snow_label list \<Rightarrow> 'th set" where
  "snow_threads tr = {th. \<exists>x. Gave th x \<in> set tr}"

lemma snow_threads_simps [simp]:
  "snow_threads [] = {}" "snow_threads (tr @ [Init w d]) = snow_threads tr"
  "snow_threads (tr @ [Gave th x]) = insert th (snow_threads tr)" "snow_threads (tr @ [GaveUnsafe x]) = snow_threads tr"
  by (auto simp: snow_threads_def)

lemma finite_snow_threads: "finite (snow_threads tr)"
proof -
  have "snow_threads tr \<subseteq> (\<lambda>l. case l of Gave th x \<Rightarrow> th | _ \<Rightarrow> undefined) ` set tr"
    by (force simp: snow_threads_def)
  then show ?thesis by (rule finite_subset) simp
qed

lemma IdWorker_GetNextID_keeps:
  assumes "IdWorker_GetNextID w clock = Some (x, w', cs)"
  shows "worker_id w' = worker_id w" "data_center_id w' = data_center_id w"
    "\<exists>t n. x = make_id t (data_center_id w) (worker_id w) n"
  using assms by (auto simp: IdWorker_GetNextID_def Let_def split: list.splits option.splits if_splits)

text \<open>
  The workers are those of the threads that have called, numbered below the counter and pairwise
  differently; every id handed out to a thread carries the number of its worker.
\<close>

definition snow_inv :: "'th snow_label list \<Rightarrow> 'th snowflake \<Rightarrow> bool" where
  "snow_inv tr s \<longleftrightarrow>
     dom (id_workers s) = snow_threads tr \<and> unat (g_thread_id s) = card (snow_threads tr) \<and>
     (\<forall>th w. id_workers s th = Some w \<longrightarrow> unat (data_center_id w) < unat (g_thread_id s)) \<and>
     (\<forall>a b wa wb. id_workers s a = Some wa \<longrightarrow> id_workers s b = Some wb \<longrightarrow> a \<noteq> b \<longrightarrow>
        data_center_id wa \<noteq> data_center_id wb) \<and>
     (\<forall>th x. Gave th x \<in> set tr \<longrightarrow>
        (\<exists>w t v n. id_workers s th = Some w \<and> x = make_id t (data_center_id w) v n))"

lemma snow_inv_gen:
  assumes inv: "snow_inv tr s" and gen: "GetNextIDBySnowflake ind s th clock = Some (x, s', cs)"
    and few: "card (snow_threads tr) < 2 ^ 16 - 1"
  shows "snow_inv (tr @ [Gave th x]) s'"
proof -
  obtain w s1 where g: "GetIdWorkerByThreadLocal ind s th = (w, s1)" by fastforce
  from gen g obtain w' where n: "IdWorker_GetNextID w clock = Some (x, w', cs)"
    and s': "s' = s1\<lparr>id_workers := (id_workers s1)(th \<mapsto> w')\<rparr>"
    by (auto simp: GetNextIDBySnowflake_def split: option.splits)
  note k = IdWorker_GetNextID_keeps [OF n]
  have d: "dom (id_workers s) = snow_threads tr" and c: "unat (g_thread_id s) = card (snow_threads tr)"
    and low: "\<And>th w. id_workers s th = Some w \<Longrightarrow> unat (data_center_id w) < unat (g_thread_id s)"
    and diff: "\<And>a b wa wb. id_workers s a = Some wa \<Longrightarrow> id_workers s b = Some wb \<Longrightarrow> a \<noteq> b \<Longrightarrow>
        data_center_id wa \<noteq> data_center_id wb"
    and ids: "\<And>th x. Gave th x \<in> set tr \<Longrightarrow> \<exists>w t v n. id_workers s th = Some w \<and> x = make_id t (data_center_id w) v n"
    using inv unfolding snow_inv_def by blast+
  show ?thesis
  proof (cases "id_workers s th")
    case (Some v)
    then have v: "w = v" "s1 = s" using g by (simp_all add: GetIdWorkerByThreadLocal_def)
    have W: "id_workers s' a = (if a = th then Some w' else id_workers s a)" "g_thread_id s' = g_thread_id s" for a
      by (simp_all add: s' v)
    have th: "th \<in> snow_threads tr" using d Some by blast
    have "\<exists>w t v n. id_workers s' a = Some w \<and> y = make_id t (data_center_id w) v n" if "Gave a y \<in> set (tr @ [Gave th x])" for a y
      using that ids [of a y] Some k v(1) unfolding W by auto
    moreover have "dom (id_workers s') = insert th (snow_threads tr)" using d by (simp add: s' v(2))
    moreover have "\<forall>a wa. id_workers s' a = Some wa \<longrightarrow> unat (data_center_id wa) < unat (g_thread_id s')"
      using low Some k(2) v(1) unfolding W by auto
    moreover have "\<forall>a b wa wb. id_workers s' a = Some wa \<longrightarrow> id_workers s' b = Some wb \<longrightarrow> a \<noteq> b \<longrightarrow>
        data_center_id wa \<noteq> data_center_id wb"
      using diff Some k(2) v(1) unfolding W by auto
    ultimately show ?thesis using c th unfolding snow_inv_def by (simp add: W(2) insert_absorb)
  next
    case None
    then have v: "w = new_IdWorker ind (g_worker_id s) (g_thread_id s)" "g_thread_id s1 = g_thread_id s + 1"
      "id_workers s1 = (id_workers s)(th \<mapsto> w)"
      using g by (auto simp: GetIdWorkerByThreadLocal_def Let_def)
    have W: "id_workers s' a = (if a = th then Some w' else id_workers s a)" "g_thread_id s' = g_thread_id s + 1" for a
      by (simp_all add: s' v(2,3))
    have dw: "data_center_id w' = g_thread_id s" using k(2) v(1) by (simp add: new_IdWorker_def)
    have th: "th \<notin> snow_threads tr" using d None by blast
    have "g_thread_id s + 1 \<noteq> 0"
      using few c by (auto simp: eq_neg_iff_add_eq_0 [symmetric] unsigned_minus_1_eq_mask mask_eq_exp_minus_1)
    then have up: "unat (g_thread_id s + 1) = Suc (unat (g_thread_id s))" by (simp add: unatSuc add.commute)
    have "\<exists>w t v n. id_workers s' a = Some w \<and> y = make_id t (data_center_id w) v n" if "Gave a y \<in> set (tr @ [Gave th x])" for a y
    proof (cases "Gave a y \<in> set tr")
      case True
      then have "a \<noteq> th" using th by (auto simp: snow_threads_def)
      then show ?thesis using ids [OF True] unfolding W by simp
    next
      case False
      then show ?thesis using that k(2,3) unfolding W by auto
    qed
    moreover have "dom (id_workers s') = insert th (snow_threads tr)" using d by (simp add: s' v(3))
    moreover have "\<forall>a wa. id_workers s' a = Some wa \<longrightarrow> unat (data_center_id wa) < unat (g_thread_id s')"
      using low dw unfolding W up by (auto simp: less_Suc_eq)
    moreover have ne: "data_center_id u \<noteq> g_thread_id s" if "id_workers s a = Some u" for a u using low [OF that] by auto
    then have "\<forall>a b wa wb. id_workers s' a = Some wa \<longrightarrow> id_workers s' b = Some wb \<longrightarrow> a \<noteq> b \<longrightarrow>
        data_center_id wa \<noteq> data_center_id wb"
      using diff ne ne [symmetric] unfolding W by (auto simp: dw)
    ultimately show ?thesis using c th finite_snow_threads [of tr] unfolding snow_inv_def by (simp add: W(2) up)
  qed
qed

lemma snow_inv_other:
  assumes "snow_inv tr s" "id_workers s' = id_workers s" "g_thread_id s' = g_thread_id s"
    and "snow_threads (tr @ [l]) = snow_threads tr" "\<forall>th x. l \<noteq> Gave th x"
  shows "snow_inv (tr @ [l]) s'"
  using assms unfolding snow_inv_def by auto

lemma snow_run_inv:
  assumes "run snow_step new_Snowflake tr s" "card (snow_threads tr) < 2 ^ 16 - 1"
  shows "snow_inv tr s"
  using assms
proof (induction rule: run.induct)
  case run_nil
  show ?case by (simp add: snow_inv_def new_Snowflake_def)
next
  case (run_snoc tr s l s')
  have sub: "snow_threads tr \<subseteq> snow_threads (tr @ [l])" by (auto simp: snow_threads_def)
  then have few: "card (snow_threads tr) < 2 ^ 16 - 1"
    using run_snoc.prems card_mono [OF finite_snow_threads sub] by simp
  note IH = run_snoc.IH [OF few]
  from run_snoc.hyps(2) show ?case
  proof cases
    case (init w d)
    then show ?thesis by (intro snow_inv_other [OF IH]) (simp_all add: InitSnowflakeWorkerID_def)
  next
    case (gen ind th clock x cs)
    show ?thesis unfolding gen(1) by (rule snow_inv_gen [OF IH gen(2) few])
  next
    case (unsafe ind clock x cs)
    then show ?thesis
      by (intro snow_inv_other [OF IH]) (auto simp: GetNextIDBySnowflakeUnSafe_def Let_def split: option.splits)
  qed
qed

section \<open>Properties\<close>

text \<open>
  Two ids are equal exactly when their times agree modulo $2^{25}$ milliseconds and
  their data centers, workers and sequence numbers agree in their masked bits. So ids of one
  worker repeat after about nine hours, where the header promises 41 bits of time, and the
  worker of the 33rd thread, whose number stands in the five data center bits, shares the id
  space of the first.
\<close>

theorem snowflake_id_eq_iff:
  "make_id t d w n = make_id t' d' w' n' \<longleftrightarrow>
     unat t mod 2 ^ 25 = unat t' mod 2 ^ 25 \<and> unat d mod 32 = unat d' mod 32 \<and>
     unat w mod 32 = unat w' mod 32 \<and> unat n mod 4096 = unat n' mod 4096"
  using make_id_eq_mod [of t d w n t' d' w' n'] by simp

text \<open>
  C28. One worker's ids are distinct: on a clock that does not step back and stays within
  $2^{25}$ milliseconds, with at most 4096 calls per millisecond and an initial value of
  \<open>last_timestamp_\<close> that is none of the readings, every call consumes one reading and all
  ids differ.
\<close>

theorem snowflake_ids_distinct:
  assumes "sorted (msecs cs)" "\<forall>t. count_list (msecs cs) t \<le> 4096"
    and "\<forall>t \<in> set (msecs cs). \<forall>t' \<in> set (msecs cs). t < t' + 2 ^ 25"
    and "unat ind \<notin> set (msecs cs)"
  shows "\<exists>ids. snow_run (length cs) (new_IdWorker ind w d) cs = Some ids \<and> distinct ids"
proof (cases cs)
  case (Cons c cs')
  let ?t = "unat (nowInMsec c)" and ?enc = "\<lambda>(t, n). make_id (word_of_nat t) d w (word_of_nat n)"
  let ?ps = "numbered (unat ind) 0 (msecs cs)"
  have count: "0 + count_list (msecs cs) (unat ind) \<le> 4095" using assms(4) by simp
  have bounds: "\<forall>(t, n) \<in> set ?ps. t \<in> set (msecs cs) \<and> n < 4096"
    by (rule numbered_bounds [OF count assms(2)])
  have run: "snow_run (length cs) (new_IdWorker ind w d) cs = Some (map ?enc ?ps)"
    using snow_run_numbered [of "new_IdWorker ind w d" "unat ind" 0 cs] bounds
      unsigned_less [of ind, where 'a = nat] by (auto simp: new_IdWorker_def)
  have ps: "?ps = (?t, 0) # numbered ?t 0 (msecs cs')"
    using assms(4) Cons by (simp add: Let_def)
  have "\<forall>t. count_list (msecs cs') t \<le> 4096"
    using assms(2) Cons by (metis (no_types) Suc_leD count_list.simps(2) Suc_eq_plus1 msecs_simps(2))
  then have "sorted_wrt (<) (map (\<lambda>(t, n). t * 4096 + n) ?ps)"
    unfolding ps using assms(1) Cons spec [OF assms(2), of ?t] by (intro numbered_increasing) auto
  then have dist: "distinct ?ps"
    by (metis distinct_map strict_sorted_iff strict_sorted_equal)
  have "inj_on ?enc (set ?ps)"
  proof (rule inj_onI, clarify)
    fix t n t' n' assume p: "(t, n) \<in> set ?ps" "(t', n') \<in> set ?ps"
      and eq: "make_id (word_of_nat t) d w (word_of_nat n) = make_id (word_of_nat t') d w (word_of_nat n')"
    have b: "t \<in> set (msecs cs)" "t' \<in> set (msecs cs)" "n < 4096" "n' < 4096" using bounds p by auto
    have u: "unat (word_of_nat x :: u64) = x" if "x \<in> set (msecs cs)" for x
      using that unsigned_less [where 'a = nat] by (auto simp: msecs_def)
    have n: "unat (word_of_nat x :: u32) = x" if "x < 4096" for x
      using that by (simp add: unsigned_of_nat take_bit_nat_eq_self)
    have "t mod 2 ^ 25 = t' mod 2 ^ 25" "n mod 4096 = n' mod 4096"
      using eq b by (simp_all add: make_id_eq_mod u n)
    then have "n = n'" using b by simp
    moreover have "t = t'"
    proof -
      have "t < t' + 2 ^ 25" "t' < t + 2 ^ 25" using assms(3) b by blast+
      with \<open>t mod 2 ^ 25 = t' mod 2 ^ 25\<close> show ?thesis by (rule mod_window)
    qed
    ultimately show "t = t' \<and> n = n'" by simp
  qed
  with run dist show ?thesis by (simp add: distinct_map)
qed simp

text \<open>
  With more than 4096 calls in one millisecond ids repeat: \<open>tilNextMillis\<close> is given the
  sequence number, which is 0 there, instead of the last timestamp, so it accepts the same
  millisecond and the id of its first call is handed out again.
\<close>

theorem snowflake_overflow_repeats_id:
  assumes "nowInMsec c = t" "nowInMsec c' = t" "t \<noteq> 0"
    and "last_timestamp w = t" "sequence_number w = 0xFFF" "last_timestamp w0 \<noteq> t"
    and "worker_id w0 = worker_id w" "data_center_id w0 = data_center_id w"
  shows "\<exists>w1 w2 x. IdWorker_GetNextID w0 (c # cs) = Some (x, w1, cs) \<and>
     IdWorker_GetNextID w (c # c' # cs) = Some (x, w2, cs)"
  using assms by (auto simp: IdWorker_GetNextID_def Let_def)

theorem snowflake_overflow_repeats_id_witness:
  "\<exists>w1 w2 x. IdWorker_GetNextID (new_IdWorker 0 1 1) [\<lparr>tv_sec = 5, tv_usec = 0\<rparr>] = Some (x, w1, []) \<and>
     IdWorker_GetNextID \<lparr>worker_id = 1, data_center_id = 1, last_timestamp = 5000, sequence_number = 0xFFF\<rparr>
       [\<lparr>tv_sec = 5, tv_usec = 0\<rparr>, \<lparr>tv_sec = 5, tv_usec = 1\<rparr>] = Some (x, w2, [])"
  by (rule snowflake_overflow_repeats_id [where t = 5000])
     (simp_all add: nowInMsec_def trunc_div_def new_IdWorker_def)

text \<open>
  C29. Different threads are never given the same id, at whatever times they ask: over any
  sequence of calls in which at most 32 threads use the generator, whatever their clocks show and
  however often the process-wide settings are changed in between.
\<close>

theorem snowflake_threads_disjoint:
  assumes "run snow_step new_Snowflake tr s" "card (snow_threads tr) \<le> 32"
    and "Gave a x \<in> set tr" "Gave b y \<in> set tr" "a \<noteq> b"
  shows "x \<noteq> y"
proof -
  have inv: "snow_inv tr s" using snow_run_inv [OF assms(1)] assms(2) by simp
  from inv assms(3,4) obtain wa wb t v n t' v' n' where w: "id_workers s a = Some wa" "id_workers s b = Some wb"
    "x = make_id t (data_center_id wa) v n" "y = make_id t' (data_center_id wb) v' n'"
    unfolding snow_inv_def by meson
  have "unat (g_thread_id s) \<le> 32" using inv assms(2) by (simp add: snow_inv_def)
  then have "data_center_id wa \<noteq> data_center_id wb" "unat (data_center_id wa) < 32" "unat (data_center_id wb) < 32"
    using inv w(1,2) assms(5) unfolding snow_inv_def by (metis order_less_le_trans)+
  then have "unat (data_center_id wa) mod 2 ^ 5 \<noteq> unat (data_center_id wb) mod 2 ^ 5"
    by (simp add: word_unat_eq_iff)
  then show ?thesis unfolding w(3,4) make_id_eq_mod by blast
qed

theorem snowflake_ids_distinct_witness:
  "\<exists>ids. snow_run 3 (new_IdWorker 0 1 1)
      [\<lparr>tv_sec = 5, tv_usec = 0\<rparr>, \<lparr>tv_sec = 5, tv_usec = 9\<rparr>, \<lparr>tv_sec = 5, tv_usec = 2000\<rparr>] = Some ids \<and> distinct ids"
proof -
  let ?cs = "[\<lparr>tv_sec = 5, tv_usec = 0\<rparr>, \<lparr>tv_sec = 5, tv_usec = 9\<rparr>, \<lparr>tv_sec = 5, tv_usec = 2000\<rparr>]"
  have m: "msecs ?cs = [5000, 5000, 5002]" by (simp add: nowInMsec_def trunc_div_def)
  have "\<exists>ids. snow_run (length ?cs) (new_IdWorker 0 1 1) ?cs = Some ids \<and> distinct ids"
    by (rule snowflake_ids_distinct) (simp_all only: m, simp_all)
  then show ?thesis by (simp add: numeral_3_eq_3)
qed

theorem snowflake_threads_disjoint_witness:
  "\<exists>(s :: nat snowflake) x y. run snow_step new_Snowflake [Gave 0 x, Init 7 7, Gave 1 y] s \<and> x \<noteq> y"
proof -
  let ?c = "\<lparr>tv_sec = 5, tv_usec = 0\<rparr>"
  let ?w = "\<lambda>v n. \<lparr>worker_id = v, data_center_id = n, last_timestamp = 5000, sequence_number = 0\<rparr>"
  let ?sa = "(new_Snowflake :: nat snowflake)\<lparr>g_thread_id := 1, id_workers := [0 \<mapsto> ?w 1 0]\<rparr>"
  let ?sb = "InitSnowflakeWorkerID ?sa 7 7"
  let ?sc = "?sb\<lparr>g_thread_id := 2, id_workers := [0 \<mapsto> ?w 1 0, 1 \<mapsto> ?w 7 1]\<rparr>"
  note ev = GetNextIDBySnowflake_def GetIdWorkerByThreadLocal_def new_Snowflake_def new_IdWorker_def
    IdWorker_GetNextID_def nowInMsec_def trunc_div_def Let_def InitSnowflakeWorkerID_def
  have "GetNextIDBySnowflake 0 (new_Snowflake :: nat snowflake) 0 [?c] = Some (make_id 5000 0 1 0, ?sa, [])"
    by (simp add: ev)
  from snow_step.gen [OF this] have 1: "snow_step new_Snowflake (Gave 0 (make_id 5000 0 1 0)) ?sa" .
  have 2: "snow_step ?sa (Init 7 7) ?sb" by (rule snow_step.init)
  have "GetNextIDBySnowflake 0 ?sb 1 [?c] = Some (make_id 5000 1 7 0, ?sc, [])"
    by (simp add: ev)
  from snow_step.gen [OF this] have 3: "snow_step ?sb (Gave 1 (make_id 5000 1 7 0)) ?sc" .
  let ?tr = "[Gave 0 (make_id 5000 0 1 0), Init 7 7, Gave 1 (make_id 5000 1 7 0)] :: nat snow_label list"
  have r: "run snow_step new_Snowflake ?tr ?sc"
    by (rule run_cons [where step = snow_step, OF 1 run_cons [where step = snow_step, OF 2 run_single [where step = snow_step, OF 3]]])
  have "snow_threads ?tr = {0, 1}" by (auto simp: snow_threads_def)
  then have "card (snow_threads ?tr) \<le> 32" by simp
  from snowflake_threads_disjoint [OF r this, of 0 _ 1] have "make_id 5000 0 1 0 \<noteq> make_id 5000 1 7 0" by simp
  with r show ?thesis by blast
qed

end
