(* ===== verification/Url_Codec.thy ===== *)
theory Url_Codec
  imports Prelude
begin

text \<open>
  String helpers of \<open>base/util.cc\<close>: URL encoding and decoding on bytes, decimal conversion
  and the name of the pid file. A \<open>std::string\<close> may be read at its length, where it holds a
  zero byte; reading further is undefined.
\<close>

section \<open>URL encoding\<close>

definition is_digit :: "u8 \<Rightarrow> bool" where
  "is_digit c \<longleftrightarrow> 48 \<le> c \<and> c \<le> 57"

definition is_alnum :: "u8 \<Rightarrow> bool" where
  "is_alnum c \<longleftrightarrow> is_digit c \<or> 65 \<le> c \<and> c \<le> 90 \<or> 97 \<le> c \<and> c \<le> 122"

definition ToHex :: "u8 \<Rightarrow> u8" where
  "ToHex x = (if x > 9 then x + 55 else x + 48)"

text \<open>Letters, digits and \<open>-_.~\<close> stand for themselves, a space becomes \<open>+\<close>.\<close>

definition encode_byte :: "u8 \<Rightarrow> iobuf" where
  "encode_byte c =
     (if is_alnum c \<or> c = 45 \<or> c = 95 \<or> c = 46 \<or> c = 126 then [c]
      else if c = 32 then [43]
      else [37, ToHex (drop_bit 4 c), ToHex (c mod 16)])"

definition UrlEncode :: "iobuf \<Rightarrow> iobuf" where
  "UrlEncode str = fold (\<lambda>c strTemp. strTemp @ encode_byte c) str []"

section \<open>URL decoding\<close>

definition fromHex :: "u8 \<Rightarrow> u8" where
  "fromHex x = (if is_digit x then x - 48 else x - 65 + 10)"

definition str_at :: "iobuf \<Rightarrow> nat \<Rightarrow> u8 res" where
  "str_at s i = (if i < length s then Inr (s ! i) else if i = length s then Inr 0 else Inl OutOfRange)"

text \<open>\<open>ch = fromHex(a) << 4; ch |= fromHex(b);\<close> in 8 bits.\<close>

definition hex_pair :: "u8 \<Rightarrow> u8 \<Rightarrow> u8" where
  "hex_pair a b = push_bit 4 (fromHex a) OR fromHex b"

function URLDecode_loop :: "iobuf \<Rightarrow> nat \<Rightarrow> iobuf \<Rightarrow> iobuf res" where
  "URLDecode_loop sIn ix sOut =
     (if ix < length sIn then
        if sIn ! ix = 37 then
          rbind (str_at sIn (ix + 1)) (\<lambda>a.
          rbind (str_at sIn (ix + 2)) (\<lambda>b.
            URLDecode_loop sIn (ix + 3) (sOut @ [hex_pair a b])))
        else if sIn ! ix = 43 then URLDecode_loop sIn (ix + 1) (sOut @ [32])
        else URLDecode_loop sIn (ix + 1) (sOut @ [sIn ! ix])
      else Inr sOut)"
  by pat_completeness auto
termination
  by (relation "measure (\<lambda>(sIn, ix, sOut). length sIn - ix)") auto

declare URLDecode_loop.simps [simp del]

definition URLDecode :: "iobuf \<Rightarrow> iobuf res" where
  "URLDecode sIn = URLDecode_loop sIn 0 []"

section \<open>Numbers and the pid file\<close>

definition int2string :: "u32 \<Rightarrow> string" where
  "int2string user_id = dec (unat user_id)"

definition long2string :: "u64 \<Rightarrow> string" where
  "long2string v = dec (unat v)"

text \<open>\<open>folly::to\<close> from a string is an argument; \<open>None\<close> is its exception.\<close>

definition string2int :: "(string \<Rightarrow> u32 option) \<Rightarrow> string \<Rightarrow> u32" where
  "string2int to s = (case to s of Some v \<Rightarrow> v | None \<Rightarrow> 0)"

definition string2long :: "(string \<Rightarrow> u64 option) \<Rightarrow> string \<Rightarrow> u64" where
  "string2long to s = (case to s of Some v \<Rightarrow> v | None \<Rightarrow> 0)"

definition pid_file_name :: "string \<Rightarrow> string \<Rightarrow> string" where
  "pid_file_name pid_file_path server_name =
     (let path = (if pid_file_path \<noteq> [] \<and> CHR ''/'' \<notin> set pid_file_path
                  then pid_file_path @ ''/'' else pid_file_path)
      in path @ server_name @ ''.pid'')"

text \<open>The file written and its contents; \<open>fopen\<close> may fail, which the assertion catches.\<close>

definition writePid :: "(string \<Rightarrow> bool) \<Rightarrow> u32 \<Rightarrow> string \<Rightarrow> string \<Rightarrow> (string \<times> string) res" where
  "writePid can_open pid pid_file_path server_name =
     (let n = pid_file_name pid_file_path server_name;
          i = sint pid
      in if can_open n then Inr (n, if i < 0 then CHR ''-'' # dec (nat (- i)) else dec (nat i))
         else Inl CheckFailed)"

section \<open>The index loop as a recursion on the remaining bytes\<close>

fun decode_rest :: "iobuf \<Rightarrow> iobuf res" where
  "decode_rest [] = Inr []"
| "decode_rest (c # cs) =
     (if c = 37 then
        (case cs of
           [] \<Rightarrow> Inl OutOfRange
         | [a] \<Rightarrow> Inr [hex_pair a 0]
         | a # b # r \<Rightarrow> map_sum id ((#) (hex_pair a b)) (decode_rest r))
      else map_sum id ((#) (if c = 43 then 32 else c)) (decode_rest cs))"

lemma URLDecode_loop_rest:
  "URLDecode_loop s i out = map_sum id ((@) out) (decode_rest (drop i s))"
proof (induction "length s - i" arbitrary: i out rule: less_induct)
  case less
  show ?case
  proof (cases "i < length s")
    case False
    then show ?thesis by (subst URLDecode_loop.simps) simp
  next
    case True
    then have d: "drop i s = s ! i # drop (Suc i) s" by (rule Cons_nth_drop_Suc [symmetric])
    have m: "map_sum id ((@) (out @ [x])) r = map_sum id ((@) out) (map_sum id ((#) x) r)"
      for x and r :: "iobuf res"
      by (cases r) simp_all
    show ?thesis
    proof (cases "s ! i = 37")
      case pct: True
      consider "i + 1 = length s" | "i + 2 = length s" | "i + 2 < length s" using True by linarith
      then show ?thesis
      proof cases
        case 1
        then show ?thesis using True pct d by (subst URLDecode_loop.simps) (simp add: str_at_def)
      next
        case 2
        then have "drop (Suc i) s = [s ! Suc i]"
          using Cons_nth_drop_Suc [of "Suc i" s] by simp
        then show ?thesis
          using True pct d 2 less.hyps [of "i + 3"]
          by (subst URLDecode_loop.simps) (simp add: str_at_def)
      next
        case 3
        then have "drop (Suc i) s = s ! Suc i # s ! Suc (Suc i) # drop (i + 3) s"
          using Cons_nth_drop_Suc [of "Suc i" s] Cons_nth_drop_Suc [of "Suc (Suc i)" s]
          by (simp add: numeral_3_eq_3)
        then show ?thesis
          using True pct d 3 less.hyps [of "i + 3" "out @ [hex_pair (s ! Suc i) (s ! Suc (Suc i))]"] m
          by (subst URLDecode_loop.simps) (simp add: str_at_def)
      qed
    next
      case other: False
      then show ?thesis
        using True d less.hyps [of "i + 1" "out @ [if s ! i = 43 then 32 else s ! i]"] m
        by (subst URLDecode_loop.simps) auto
    qed
  qed
qed

lemma URLDecode_rest: "URLDecode s = decode_rest s"
  unfolding URLDecode_def URLDecode_loop_rest by (cases "decode_rest s") (simp_all add: id_def)

lemma UrlEncode_concat: "UrlEncode s = concat (map encode_byte s)"
proof -
  have "fold (\<lambda>c acc. acc @ encode_byte c) s acc = acc @ concat (map encode_byte s)" for acc
    by (induction s arbitrary: acc) simp_all
  then show ?thesis by (simp add: UrlEncode_def)
qed

section \<open>Hexadecimal digits\<close>

lemma fromHex_ToHex:
  assumes "unat x < 16"
  shows "fromHex (ToHex x) = x"
proof (cases "x > 9")
  case True
  have "unat (x + 55) = unat x + 55" using assms by (simp add: unat_word_ariths)
  then have "\<not> is_digit (x + 55)" using True by (simp add: is_digit_def word_le_nat_alt word_less_nat_alt)
  then show ?thesis using True by (simp add: ToHex_def fromHex_def)
next
  case False
  have "unat (x + 48) = unat x + 48" using assms by (simp add: unat_word_ariths)
  then have "is_digit (x + 48)" using False by (simp add: is_digit_def word_le_nat_alt word_less_nat_alt)
  then show ?thesis using False by (simp add: ToHex_def fromHex_def)
qed

lemma nibbles: "push_bit 4 (drop_bit 4 c) OR c mod 16 = (c :: u8)"
proof (rule bit_word_eqI)
  fix n assume n: "n < LENGTH(8)"
  have "c mod 16 = take_bit 4 c" by (simp add: take_bit_eq_mod)
  then show "bit (push_bit 4 (drop_bit 4 c) OR c mod 16) n = bit c n"
    using n by (cases "n < 4") (simp_all add: bit_simps)
qed

lemma nibble_bounds: "unat (drop_bit 4 (c :: u8)) < 16" "unat (c mod 16) < 16"
proof -
  have "unat (drop_bit 4 c) = unat c div 2 ^ 4" by (metis drop_bit_eq_div unat_drop_bit_eq)
  then show "unat (drop_bit 4 c) < 16"
    using unsigned_less [of c, where 'a = nat] by (simp add: less_mult_imp_div_less)
  show "unat (c mod 16) < 16" by (simp add: unat_mod)
qed

lemma hex_pair_ToHex: "hex_pair (ToHex (drop_bit 4 c)) (ToHex (c mod 16)) = c"
  by (simp add: hex_pair_def fromHex_ToHex nibble_bounds nibbles)

lemma decode_encode_byte: "decode_rest (encode_byte c @ r) = map_sum id ((#) c) (decode_rest r)"
  using hex_pair_ToHex [of 43] hex_pair_ToHex [of 37]
  by (auto simp: encode_byte_def hex_pair_ToHex is_alnum_def is_digit_def)

section \<open>Properties\<close>

text \<open>
  C27. Decoding undoes encoding, for every byte string.
\<close>

theorem URLDecode_UrlEncode: "URLDecode (UrlEncode s) = Inr s"
proof -
  have "decode_rest (concat (map encode_byte s)) = Inr s"
    by (induction s) (simp_all add: decode_encode_byte)
  then show ?thesis by (simp add: URLDecode_rest UrlEncode_concat)
qed

definition url_safe :: "u8 \<Rightarrow> bool" where
  "url_safe c \<longleftrightarrow> is_alnum c \<or> c \<in> {45, 95, 46, 126, 43, 37}"

lemma ToHex_alnum:
  assumes "unat x < 16"
  shows "is_alnum (ToHex x)"
proof (cases "x > 9")
  case True
  have "unat (x + 55) = unat x + 55" using assms by (simp add: unat_word_ariths)
  then show ?thesis using True assms by (simp add: ToHex_def is_alnum_def is_digit_def word_le_nat_alt word_less_nat_alt)
next
  case False
  have "unat (x + 48) = unat x + 48" using assms by (simp add: unat_word_ariths)
  then show ?thesis using False by (simp add: ToHex_def is_alnum_def is_digit_def word_le_nat_alt word_less_nat_alt)
qed

lemma encode_byte_safe: "list_all url_safe (encode_byte c)" "length (encode_byte c) \<le> 3"
  using ToHex_alnum [OF nibble_bounds(1) [of c]] ToHex_alnum [OF nibble_bounds(2) [of c]]
  by (auto simp: encode_byte_def url_safe_def)

text \<open>
  The encoding uses only unreserved characters, \<open>+\<close> and \<open>%\<close>, and is at most three times
  as long as its input.
\<close>

theorem UrlEncode_alphabet: "list_all url_safe (UrlEncode s) \<and> length (UrlEncode s) \<le> 3 * length s"
proof (induction s)
  case (Cons c s)
  then show ?case using encode_byte_safe [of c] by (simp add: UrlEncode_concat)
qed (simp add: UrlEncode_def)

lemma decode_rest_total:
  "case decode_rest s of Inl e \<Rightarrow> e = OutOfRange \<and> s \<noteq> [] \<and> last s = 37 | Inr d \<Rightarrow> length d \<le> length s"
proof (induction s rule: length_induct)
  case (1 s)
  show ?case
  proof (cases s)
    case (Cons c cs)
    have IH: "case decode_rest r of Inl e \<Rightarrow> e = OutOfRange \<and> r \<noteq> [] \<and> last r = 37 | Inr d \<Rightarrow> length d \<le> length r"
      if "length r < length s" for r
      using 1 that by blast
    show ?thesis
    proof (cases "c = 37 \<and> (\<exists>a b r. cs = a # b # r)")
      case True
      then obtain a b r where cs: "cs = a # b # r" "c = 37" by blast
      then show ?thesis using IH [of r] Cons by (cases "decode_rest r") auto
    next
      case False
      then show ?thesis using IH [of cs] Cons
        by (cases "decode_rest cs") (auto split: list.splits)
    qed
  qed simp
qed

text \<open>
  Decoding reads outside the string only when the string ends in \<open>%\<close>; every other
  string is decoded, and the result is never longer than the input.
\<close>

theorem URLDecode_total:
  assumes "s = [] \<or> last s \<noteq> 37"
  shows "\<exists>d. URLDecode s = Inr d \<and> length d \<le> length s"
  using decode_rest_total [of s] assms by (auto simp: URLDecode_rest split: sum.splits)

theorem URLDecode_total_witness: "\<exists>d. URLDecode [97, 37, 50, 48] = Inr d \<and> length d \<le> 4"
proof -
  have "\<exists>d. URLDecode [97, 37, 50, 48] = Inr d \<and> length d \<le> length [97, 37, 50, 48 :: u8]"
    by (rule URLDecode_total) simp
  then show ?thesis by (simp add: eval_nat_numeral)
qed

text \<open>
  A lower-case hexadecimal digit in the second place is not decoded to its value: the
  result has the bit \<open>0x20\<close> set in addition, so \<open>%0a\<close> decodes to \<open>*\<close> and not to a line feed.
\<close>

theorem URLDecode_lower_case:
  assumes "97 \<le> b" "b \<le> 102"
  shows "URLDecode [37, a, b] = Inr [push_bit 4 (fromHex a) OR (b - 87) OR 0x20]"
proof -
  have "unat (b - 87) = unat b - 87" using assms by (simp add: unat_sub word_le_nat_alt)
  then have lt: "unat (b - 87) < 16" using assms by (simp add: word_le_nat_alt)
  have take: "take_bit 4 (b - 87) = b - 87"
    using lt by (intro unsigned_word_eqI [where 'a = nat]) (simp add: unsigned_take_bit_eq take_bit_nat_eq_self)
  have "\<not> is_digit b" using assms by (simp add: is_digit_def word_le_nat_alt)
  then have "fromHex b = (b - 87) + 0x20" by (simp add: fromHex_def)
  also have "\<dots> = (b - 87) OR 0x20"
  proof (rule disjunctive_add)
    fix n
    have "bit (b - 87) n \<Longrightarrow> n < 4" by (metis take bit_take_bit_iff)
    moreover have "(0x20 :: u8) = push_bit 5 1" by (simp add: push_bit_eq_mult)
    then have "bit (0x20 :: u8) n \<Longrightarrow> 5 \<le> n" by (simp only: bit_push_bit_iff)
    ultimately show "\<not> bit (b - 87) n \<or> \<not> bit (0x20 :: u8) n" by linarith
  qed
  finally show ?thesis
    by (simp add: URLDecode_rest hex_pair_def or.assoc)
qed

theorem URLDecode_lower_case_witness: "URLDecode [37, 48, 97] = Inr [42]"
  using URLDecode_lower_case [of 97 48] by (simp add: fromHex_def is_digit_def)

text \<open>
  A path that contains a slash is used as it is, so one without a slash at its end is joined
  to the server name.
\<close>

lemma pid_file_joined: "pid_file_name ''/var/run'' ''hub'' = ''/var/runhub.pid''"
  by (simp add: pid_file_name_def)

end
