(* ===== verification/Rendezvous.thy ===== *)
theory Rendezvous
  imports Prelude Complex_Main
begin

text \<open>
  \<open>RendezvousHash\<close> (\<open>base/config/rendezvous_hash.h\<close>, \<open>.cc\<close>): weighted choice of a node
  by the highest score. The arithmetic of \<open>double\<close> and \<open>std::pow\<close> is a record of
  operations, and folly's two hash functions are arguments, so that what is proved without
  a hypothesis on them holds for every floating-point unit, not-a-number included; the laws
  of the order are hypotheses where the result depends on them. The real numbers are one
  instance.
\<close>

section \<open>Floating point\<close>

record 'd fops =
  f_less :: "'d \<Rightarrow> 'd \<Rightarrow> bool"
  f_add :: "'d \<Rightarrow> 'd \<Rightarrow> 'd"
  f_div :: "'d \<Rightarrow> 'd \<Rightarrow> 'd"
  f_pow :: "'d \<Rightarrow> 'd \<Rightarrow> 'd"
  f_of_u64 :: "u64 \<Rightarrow> 'd"
  f_zero :: 'd
  f_one :: 'd
  f_minus_one :: 'd
  f_epsilon :: 'd

section \<open>\<open>RendezvousHash\<close>\<close>

type_synonym 'd nodes = "(u64 \<times> 'd) list"

definition normalizeWeights :: "'d fops \<Rightarrow> 'd nodes \<Rightarrow> 'd nodes res" where
  "normalizeWeights F ns =
     (let sum = fold (\<lambda>(h, w) s. f_add F s w) ns (f_zero F)
      in if f_less F sum (f_epsilon F) then Inl InvalidArgument
         else Inr (map (\<lambda>(h, w). (h, f_div F w sum)) ns))"

fun ctor_loop :: "'d fops \<Rightarrow> (string \<Rightarrow> u64) \<Rightarrow> (string \<times> 'd) list \<Rightarrow> 'd nodes \<Rightarrow> 'd nodes res" where
  "ctor_loop F hash_str [] ns = Inr ns"
| "ctor_loop F hash_str ((k, w) # its) ns =
     (if f_less F w (f_zero F) then Inl InvalidArgument
      else ctor_loop F hash_str its (ns @ [(hash_str k, w)]))"

definition new_RendezvousHash :: "'d fops \<Rightarrow> (string \<Rightarrow> u64) \<Rightarrow> (string \<times> 'd) list \<Rightarrow> 'd nodes res" where
  "new_RendezvousHash F hash_str its = rbind (ctor_loop F hash_str its []) (normalizeWeights F)"

text \<open>The score of a node for a key.\<close>

definition scaledWeight :: "'d fops \<Rightarrow> (u64 \<Rightarrow> u64) \<Rightarrow> u64 \<Rightarrow> u64 \<times> 'd \<Rightarrow> 'd" where
  "scaledWeight F hash_u64 key it =
     (let combinedHash = f_of_u64 F (hash_u64 (fst it + key));
          scaledHash = f_div F combinedHash (f_of_u64 F (- 1))
      in if f_less F (f_epsilon F) (snd it) then f_pow F scaledHash (f_div F (f_one F) (snd it))
         else f_zero F)"

fun get_loop ::
  "'d fops \<Rightarrow> (u64 \<Rightarrow> u64) \<Rightarrow> u64 \<Rightarrow> 'd nodes \<Rightarrow> nat \<Rightarrow> 'd \<Rightarrow> nat \<Rightarrow> nat" where
  "get_loop F hash_u64 key [] i maxWeight maxWeightId = maxWeightId"
| "get_loop F hash_u64 key (it # its) i maxWeight maxWeightId =
     (let sw = scaledWeight F hash_u64 key it
      in if f_less F maxWeight sw then get_loop F hash_u64 key its (Suc i) sw i
         else get_loop F hash_u64 key its (Suc i) maxWeight maxWeightId)"

definition RendezvousHash_get :: "'d fops \<Rightarrow> (u64 \<Rightarrow> u64) \<Rightarrow> 'd nodes \<Rightarrow> u64 \<Rightarrow> nat" where
  "RendezvousHash_get F hash_u64 nodes key = get_loop F hash_u64 key nodes 0 (f_minus_one F) 0"

section \<open>The scan\<close>

lemma get_loop_range:
  "get_loop F h key its i m best < i + length its \<or> get_loop F h key its i m best = best"
proof (induction its arbitrary: i m best)
  case (Cons it its)
  then show ?case by (simp add: Let_def) (metis add_Suc less_add_Suc1 trans_less_add1 less_SucI)
qed simp

text \<open>A strict linear order on a set, as the comparison of doubles is on scores that are numbers.\<close>

definition strict_linear_on :: "'d set \<Rightarrow> ('d \<Rightarrow> 'd \<Rightarrow> bool) \<Rightarrow> bool" where
  "strict_linear_on A lt \<longleftrightarrow>
     (\<forall>x \<in> A. \<not> lt x x) \<and> (\<forall>x \<in> A. \<forall>y \<in> A. \<forall>z \<in> A. lt x y \<longrightarrow> lt y z \<longrightarrow> lt x z) \<and>
     (\<forall>x \<in> A. \<forall>y \<in> A. lt x y \<or> x = y \<or> lt y x)"

lemma strict_linear_onD:
  assumes "strict_linear_on A lt"
  shows "x \<in> A \<Longrightarrow> \<not> lt x x" "x \<in> A \<Longrightarrow> y \<in> A \<Longrightarrow> z \<in> A \<Longrightarrow> lt x y \<Longrightarrow> lt y z \<Longrightarrow> lt x z"
    "x \<in> A \<Longrightarrow> y \<in> A \<Longrightarrow> \<not> lt x y \<Longrightarrow> x = y \<or> lt y x"
  using assms unfolding strict_linear_on_def by blast+

text \<open>What the scan keeps: the running maximum belongs to the earliest best node so far.\<close>

definition best_of :: "('d \<Rightarrow> 'd \<Rightarrow> bool) \<Rightarrow> 'd list \<Rightarrow> nat \<Rightarrow> bool" where
  "best_of lt ws b \<longleftrightarrow>
     b < length ws \<and> (\<forall>j < length ws. \<not> lt (ws ! b) (ws ! j)) \<and> (\<forall>j < b. lt (ws ! j) (ws ! b))"

lemma best_of_unique:
  assumes "best_of lt ws a" "best_of lt ws b"
  shows "a = b"
  using assms unfolding best_of_def by (metis linorder_neqE_nat)

lemma best_of_snoc:
  assumes lt: "strict_linear_on A lt" and A: "set ws \<subseteq> A" "w \<in> A" and best: "best_of lt ws b"
  shows "best_of lt (ws @ [w]) (if lt (ws ! b) w then length ws else b)"
proof (cases "lt (ws ! b) w")
  case True
  have b: "b < length ws" "ws ! b \<in> A" using best A(1) by (auto simp: best_of_def)
  have less: "lt (ws ! j) w" if "j < length ws" for j
  proof -
    have "ws ! j \<in> A" using A(1) that by auto
    moreover have "\<not> lt (ws ! b) (ws ! j)" using best that by (simp add: best_of_def)
    ultimately show ?thesis using strict_linear_onD(3) [OF lt b(2)] strict_linear_onD(2) [OF lt _ b(2) A(2) _ True] True by metis
  qed
  have "\<not> lt w (ws ! j)" if "j < length ws" for j
  proof
    assume "lt w (ws ! j)"
    moreover have "ws ! j \<in> A" using A(1) that by auto
    ultimately have "lt w w" using less [OF that] strict_linear_onD(2) [OF lt A(2) _ A(2)] by blast
    then show False using strict_linear_onD(1) [OF lt A(2)] by blast
  qed
  with less show ?thesis
    using True strict_linear_onD(1) [OF lt A(2)] by (auto simp: best_of_def nth_append less_Suc_eq)
next
  case False
  then show ?thesis using best by (auto simp: best_of_def nth_append less_Suc_eq)
qed

lemma get_loop_best:
  assumes "strict_linear_on A (f_less F)" "scaledWeight F h key ` set (pre @ its) \<subseteq> A"
    and "best_of (f_less F) (map (scaledWeight F h key) pre) b"
  shows "best_of (f_less F) (map (scaledWeight F h key) (pre @ its))
     (get_loop F h key its (length pre) (map (scaledWeight F h key) pre ! b) b)"
  using assms(2,3)
proof (induction its arbitrary: pre b)
  case (Cons it its)
  let ?ws = "map (scaledWeight F h key) pre" and ?w = "scaledWeight F h key it"
  let ?b = "if f_less F (?ws ! b) ?w then length pre else b"
  have b: "b < length pre" using Cons.prems(2) by (simp add: best_of_def)
  have A: "set ?ws \<subseteq> A" "?w \<in> A" "scaledWeight F h key ` set ((pre @ [it]) @ its) \<subseteq> A" using Cons.prems(1) by auto
  have "best_of (f_less F) (map (scaledWeight F h key) (pre @ [it])) ?b"
    using best_of_snoc [OF assms(1) A(1,2) Cons.prems(2)] by (auto split: if_splits)
  from Cons.IH [OF A(3) this] show ?case
    using b by (auto simp: Let_def nth_append split: if_splits)
qed simp

text \<open>
  A node cannot be taken out of a \<open>RendezvousHash\<close>; its owner constructs a new one from the list
  of clusters without the \<open>j\<close>-th.
\<close>

definition without :: "nat \<Rightarrow> 'a list \<Rightarrow> 'a list" where
  "without j xs = take j xs @ drop (Suc j) xs"

lemma length_without [simp]: "j < length xs \<Longrightarrow> length (without j xs) = length xs - 1"
  by (simp add: without_def)

lemma nth_without: "j < length xs \<Longrightarrow> i < length xs - 1 \<Longrightarrow>
    without j xs ! i = (if i < j then xs ! i else xs ! Suc i)"
  by (auto simp: without_def nth_append)

lemma set_without: "set (without j xs) \<subseteq> set xs"
  unfolding without_def using set_take_subset set_drop_subset by fastforce

lemma map_without: "map f (without j xs) = without j (map f xs)"
  by (simp add: without_def take_map drop_map)

lemma best_of_without:
  assumes best: "best_of lt ws b" and j: "j < length ws" "j \<noteq> b"
  shows "best_of lt (without j ws) (if b < j then b else b - 1)"
proof -
  let ?b = "if b < j then b else b - 1"
  have b: "b < length ws" using best by (simp add: best_of_def)
  have bl: "?b < length ws - 1" using b j by auto
  have bw: "without j ws ! ?b = ws ! b" using b j bl by (auto simp: nth_without)
  have "\<not> lt (ws ! b) (without j ws ! i)" if "i < length ws - 1" for i
    using best that j(1) by (auto simp: nth_without best_of_def)
  moreover have "lt (without j ws ! i) (ws ! b)" if "i < ?b" for i
    using best that j b by (auto simp: nth_without best_of_def split: if_splits)
  ultimately show ?thesis using bl bw j(1) by (simp add: best_of_def)
qed

section \<open>The real numbers\<close>

text \<open>Exact arithmetic: the scores of real numbers, without rounding.\<close>

definition real_ops :: "real fops" where
  "real_ops = \<lparr>f_less = (<), f_add = (+), f_div = (/), f_pow = (powr), f_of_u64 = (\<lambda>x. of_nat (unat x)),
     f_zero = 0, f_one = 1, f_minus_one = - 1, f_epsilon = 1 / 2 ^ 52\<rparr>"

lemma real_ops_linear: "strict_linear_on A (f_less real_ops)"
  by (auto simp: real_ops_def strict_linear_on_def)

lemma real_ops_scores: "f_less real_ops (f_minus_one real_ops) (scaledWeight real_ops h key n)"
proof -
  have "- 1 < (0 :: real)" by simp
  also have "0 \<le> x powr y" for x y :: real by simp
  finally show ?thesis by (simp add: real_ops_def scaledWeight_def Let_def)
qed

section \<open>Properties\<close>

text \<open>
  The chosen index is below the number of nodes, or 0 when there are none, whatever the
  arithmetic returns, not-a-number included.
\<close>

theorem RendezvousHash_get_in_range:
  "RendezvousHash_get F h nodes key < length nodes \<or> nodes = [] \<and> RendezvousHash_get F h nodes key = 0"
  using get_loop_range [of F h key nodes 0 "f_minus_one F" 0]
  by (cases nodes) (auto simp: RendezvousHash_get_def)

lemma RendezvousHash_get_best:
  assumes lt: "strict_linear_on (scaledWeight F h key ` set nodes) (f_less F)" and "nodes \<noteq> []"
    and "\<forall>n \<in> set nodes. f_less F (f_minus_one F) (scaledWeight F h key n)"
  shows "best_of (f_less F) (map (scaledWeight F h key) nodes) (RendezvousHash_get F h nodes key)"
proof -
  obtain n ns where n: "nodes = n # ns" using assms(2) by (cases nodes) auto
  have "best_of (f_less F) (map (scaledWeight F h key) [n]) 0"
    using strict_linear_onD(1) [OF lt] by (simp add: best_of_def n)
  from get_loop_best [OF lt _ this, of ns] assms(3) show ?thesis
    by (simp add: n RendezvousHash_get_def Let_def)
qed

text \<open>
  C32. The choice is the first node of maximal score: no node scores higher, and every
  earlier node scores strictly less. The comparison is assumed to be a strict linear order
  on the scores that occur, each above the initial value $-1$.
\<close>

theorem RendezvousHash_get_argmax:
  assumes "strict_linear_on (scaledWeight F h key ` set nodes) (f_less F)" "nodes \<noteq> []"
    and "\<forall>n \<in> set nodes. f_less F (f_minus_one F) (scaledWeight F h key n)"
  shows "(\<forall>n \<in> set nodes. \<not> f_less F
       (scaledWeight F h key (nodes ! RendezvousHash_get F h nodes key)) (scaledWeight F h key n)) \<and>
     (\<forall>j < RendezvousHash_get F h nodes key. f_less F (scaledWeight F h key (nodes ! j))
        (scaledWeight F h key (nodes ! RendezvousHash_get F h nodes key)))"
  using RendezvousHash_get_best [OF assms] by (auto simp: best_of_def all_set_conv_all_nth)

theorem RendezvousHash_get_argmax_witness:
  "\<not> f_less real_ops
     (scaledWeight real_ops (\<lambda>x. x) 5 ([(1, 1), (2, 1 :: real)] ! RendezvousHash_get real_ops (\<lambda>x. x) [(1, 1), (2, 1)] 5))
     (scaledWeight real_ops (\<lambda>x. x) 5 (1, 1)) \<and>
   \<not> f_less real_ops
     (scaledWeight real_ops (\<lambda>x. x) 5 ([(1, 1), (2, 1 :: real)] ! RendezvousHash_get real_ops (\<lambda>x. x) [(1, 1), (2, 1)] 5))
     (scaledWeight real_ops (\<lambda>x. x) 5 (2, 1))"
  using RendezvousHash_get_argmax [OF real_ops_linear, of "[(1, 1), (2, 1)]" "\<lambda>x. x" 5] real_ops_scores
  by auto

lemma ctor_loop_result:
  "ctor_loop F h its ns =
     (if \<exists>(k, w) \<in> set its. f_less F w (f_zero F) then Inl InvalidArgument
      else Inr (ns @ map (\<lambda>(k, w). (h k, w)) its))"
  by (induction its arbitrary: ns) auto

text \<open>
  The constructor throws exactly when some weight is negative or the sum of the weights
  is below the machine epsilon, the empty list included when zero is; otherwise it keeps the
  nodes in order, hashes their names and divides every weight by the same sum.
\<close>

theorem new_RendezvousHash_result:
  "new_RendezvousHash F h its =
     (let sum = foldl (f_add F) (f_zero F) (map snd its)
      in if (\<exists>(k, w) \<in> set its. f_less F w (f_zero F)) \<or> f_less F sum (f_epsilon F)
         then Inl InvalidArgument
         else Inr (map (\<lambda>(k, w). (h k, f_div F w sum)) its))"
proof -
  have "fold (\<lambda>(k, w) s. f_add F s w) (map (\<lambda>(k, w). (h k, w)) its) s = foldl (f_add F) s (map snd its)" for s
    by (induction its arbitrary: s) auto
  then show ?thesis
    by (auto simp: new_RendezvousHash_def ctor_loop_result normalizeWeights_def Let_def)
qed

text \<open>A successful construction in exact arithmetic.\<close>

lemma real_construction:
  assumes "new_RendezvousHash real_ops h its = Inr ns"
  shows "\<forall>x \<in> set its. 0 \<le> snd x" "0 < sum_list (map snd its)"
    "ns = map (\<lambda>x. (h (fst x), snd x / sum_list (map snd its))) its"
proof -
  have acc: "foldl (f_add real_ops) s xs = s + sum_list xs" for s xs
    by (induction xs arbitrary: s) (simp_all add: real_ops_def)
  have sum: "foldl (f_add real_ops) (f_zero real_ops) xs = sum_list xs" for xs
    unfolding acc by (simp add: real_ops_def)
  have "0 < (1 / 2 ^ 52 :: real)" by simp
  then show "\<forall>x \<in> set its. 0 \<le> snd x" "0 < sum_list (map snd its)"
    "ns = map (\<lambda>x. (h (fst x), snd x / sum_list (map snd its))) its"
    using assms unfolding new_RendezvousHash_result sum
    by (auto simp: real_ops_def Let_def split: if_splits prod.splits)
qed

text \<open>The scores after a rebuild are powers of the old ones, with one positive exponent.\<close>

lemma rebuilt_score:
  assumes w: "w = 0 \<or> 1 / 2 ^ 52 < w / S" and S: "0 < S'" "S' \<le> S"
  shows "scaledWeight real_ops h key (n, w / S') = scaledWeight real_ops h key (n, w / S) powr (S' / S)"
proof (cases "w = 0")
  case False
  then have big: "1 / 2 ^ 52 < w / S" using w by blast
  have "0 < (1 / 2 ^ 52 :: real)" by simp
  with big have "0 < w / S" by (rule less_trans [rotated])
  then have "0 < w" using S by (simp add: zero_less_divide_iff)
  then have "w / S \<le> w / S'" using S by (simp add: frac_le)
  then have big': "1 / 2 ^ 52 < w / S'" using big by (rule less_le_trans [rotated])
  have "S / w * (S' / S) = S' / w" using S \<open>0 < w\<close> by simp
  then show ?thesis using big big' by (simp add: scaledWeight_def real_ops_def Let_def powr_powr)
qed (simp add: scaledWeight_def real_ops_def Let_def)

lemma best_of_powr:
  assumes "best_of (<) ws b" "\<forall>x \<in> set ws. 0 \<le> x" "0 < (a :: real)"
  shows "best_of (<) (map (\<lambda>x. x powr a) ws) b"
proof -
  have mono: "x powr a < y powr a \<longleftrightarrow> x < y" if "x \<in> set ws" "y \<in> set ws" for x y
    using assms(2,3) that by (metis linorder_not_less order_le_less powr_less_mono2)
  show ?thesis using assms(1) mono by (simp add: best_of_def)
qed



end
