(* ===== verification/Tcp_Client.thy ===== *)
theory Tcp_Client
  imports Prelude
begin

text \<open>
  Outgoing connections: \<open>ClientBootstrap2\<close> (\<open>net/base/client_bootstrap2.h\<close>), \<open>TcpClient\<close>
  with its reconnection (\<open>net/server/tcp_client.h\<close>, \<open>.cc\<close>) and \<open>SimpleTcpClient\<close>
  (\<open>net/server/simple_tcp_client.h\<close>, \<open>.cc\<close>). Everything runs on the client's event base, so
  a client is a state machine whose events are the outcomes of its connection attempts, its
  timers, the end of its transport and the calls of its owner. The sockets and pipelines of
  wangle appear as the callbacks they make.
\<close>

section \<open>\<open>ClientBootstrap2\<close>\<close>

record ('e, 'f, 'p) bootstrap =
  bs_pipeline :: "'p option"
  bs_port :: "int option"
  bs_factory :: "'f option"
  bs_base :: "'e option"
  bs_sslContext :: "string option"
  bs_sslSession :: "string option"

definition new_ClientBootstrap2 :: "'e option \<Rightarrow> ('e, 'f, 'p) bootstrap" where
  "new_ClientBootstrap2 base =
     \<lparr>bs_pipeline = None, bs_port = None, bs_factory = None, bs_base = base,
      bs_sslContext = None, bs_sslSession = None\<rparr>"

definition bootstrap_pipelineFactory :: "('e, 'f, 'p) bootstrap \<Rightarrow> 'f option \<Rightarrow> ('e, 'f, 'p) bootstrap" where
  "bootstrap_pipelineFactory b f = b\<lparr>bs_factory := f\<rparr>"

definition bootstrap_sslContext :: "('e, 'f, 'p) bootstrap \<Rightarrow> string option \<Rightarrow> ('e, 'f, 'p) bootstrap" where
  "bootstrap_sslContext b x = b\<lparr>bs_sslContext := x\<rparr>"

definition bootstrap_sslSession :: "('e, 'f, 'p) bootstrap \<Rightarrow> string option \<Rightarrow> ('e, 'f, 'p) bootstrap" where
  "bootstrap_sslSession b x = b\<lparr>bs_sslSession := x\<rparr>"

definition bootstrap_bind :: "('e, 'f, 'p) bootstrap \<Rightarrow> int \<Rightarrow> ('e, 'f, 'p) bootstrap" where
  "bootstrap_bind b port = b\<lparr>bs_port := Some port\<rparr>"

datatype socket_kind = PlainSocket | SSLSocket "string" "string option"

text \<open>
  \<open>connect\<close>: picks the event base, creates the socket, starts the attempt and stores the new
  pipeline. \<open>this_evb\<close> is the event base of the calling thread, \<open>newPipeline\<close> what the factory
  returns or throws. The result names the kind of the socket and the timeout of the attempt.
\<close>

definition bootstrap_connect ::
  "('f \<Rightarrow> 'p res) \<Rightarrow> 'e \<Rightarrow> ('e, 'f, 'p) bootstrap \<Rightarrow> int \<Rightarrow> (('e, 'f, 'p) bootstrap \<times> socket_kind \<times> int) res" where
  "bootstrap_connect newPipeline this_evb b timeout =
     (let b1 = (if bs_base b = None then b\<lparr>bs_base := Some this_evb\<rparr> else b);
          socket = (case bs_sslContext b1 of
                      Some ctx \<Rightarrow> SSLSocket ctx (bs_sslSession b1) | None \<Rightarrow> PlainSocket)
      in case bs_factory b1 of
           None \<Rightarrow> Inl NullDeref
         | Some f \<Rightarrow> rbind (newPipeline f) (\<lambda>p. Inr (b1\<lparr>bs_pipeline := Some p\<rparr>, socket, timeout)))"

section \<open>\<open>TcpClient\<close>\<close>

text \<open>
  A closure handed to \<open>runAfterDelay\<close>. The one of \<open>onError\<close> captures \<open>timeout\<close> by reference,
  and the variable it refers to is a member of the error callback, gone when the timer fires. The last field of a client holds
  the pipelines whose \<open>transportActive\<close> was called, in order.
\<close>

datatype timer = ReconnectAfterError | ReconnectAfterClose

record ('e, 'f, 'p) tcp_client =
  tc_factory :: "'f option"
  tc_client :: "('e, 'f, 'p) bootstrap option"
  tc_connected :: bool
  tc_stoped :: bool
  tc_connecting :: "int list"
  tc_timers :: "timer list"
  tc_managed :: "'p option"
  tc_activated :: "'p list"

definition new_TcpClient :: "'e option \<Rightarrow> ('e, 'f, 'p) tcp_client" where
  "new_TcpClient evb =
     \<lparr>tc_factory = None, tc_client = Some (new_ClientBootstrap2 evb), tc_connected = False, tc_stoped = False,
      tc_connecting = [], tc_timers = [], tc_managed = None, tc_activated = []\<rparr>"

definition TcpClient_SetChildPipeline :: "('e, 'f, 'p) tcp_client \<Rightarrow> 'f \<Rightarrow> ('e, 'f, 'p) tcp_client" where
  "TcpClient_SetChildPipeline c f = c\<lparr>tc_factory := Some f\<rparr>"

definition TcpClient_GetPipeline :: "('e, 'f, 'p) tcp_client \<Rightarrow> 'p option" where
  "TcpClient_GetPipeline c = (case tc_client c of Some b \<Rightarrow> bs_pipeline b | None \<Rightarrow> None)"

definition TcpClient_GetEventBase :: "('e, 'f, 'p) tcp_client \<Rightarrow> 'e option" where
  "TcpClient_GetEventBase c = (case tc_client c of Some b \<Rightarrow> bs_base b | None \<Rightarrow> None)"

definition DoConnect ::
  "('f \<Rightarrow> 'p res) \<Rightarrow> 'e \<Rightarrow> ('e, 'f, 'p) tcp_client \<Rightarrow> int \<Rightarrow> ('e, 'f, 'p) tcp_client res" where
  "DoConnect newPipeline this_evb c timeout =
     (case tc_client c of
        None \<Rightarrow> Inl NullDeref
      | Some b \<Rightarrow> rbind (bootstrap_connect newPipeline this_evb b timeout) (\<lambda>(b', sock, t).
          Inr (c\<lparr>tc_client := Some b', tc_connecting := tc_connecting c @ [t]\<rparr>)))"

definition TcpClient_Start ::
  "('f \<Rightarrow> 'p res) \<Rightarrow> 'e \<Rightarrow> ('e, 'f, 'p) tcp_client \<Rightarrow> ('e, 'f, 'p) tcp_client res" where
  "TcpClient_Start newPipeline this_evb c =
     (case tc_client c of
        None \<Rightarrow> Inl NullDeref
      | Some b \<Rightarrow>
          (case bs_base b of
             None \<Rightarrow> Inl NullDeref
           | Some _ \<Rightarrow>
               DoConnect newPipeline this_evb
                 (c\<lparr>tc_client := Some (bootstrap_pipelineFactory b (tc_factory c))\<rparr>) 0))"

text \<open>
  \<open>ConnectCallback::connectSuccess\<close>: the pipelines whose \<open>transportActive\<close> it calls, and the
  value it gives to the promise.
\<close>

definition ConnectCallback_connectSuccess :: "('e, 'f, 'p) bootstrap \<Rightarrow> 'p list \<times> 'p option" where
  "ConnectCallback_connectSuccess b =
     (case bs_pipeline b of Some p \<Rightarrow> [p] | None \<Rightarrow> [], bs_pipeline b)"

text \<open>
  A successful attempt: the callback and then the \<open>then\<close> closure of \<open>DoConnect\<close> on the value of the
  promise. The callback object holds a raw pointer to the bootstrap, which is gone once
  \<open>client_\<close> is reset.
\<close>

definition connectSuccess :: "('e, 'f, 'p) tcp_client \<Rightarrow> ('e, 'f, 'p) tcp_client res" where
  "connectSuccess c =
     (case tc_client c of
        None \<Rightarrow> Inl UseAfterFree
      | Some b \<Rightarrow>
          let (active, v) = ConnectCallback_connectSuccess b
          in case v of
               None \<Rightarrow> Inl NullDeref
             | Some p \<Rightarrow>
                 Inr (c\<lparr>tc_connecting := tl (tc_connecting c), tc_activated := tc_activated c @ active,
                      tc_managed := Some p, tc_connected := True\<rparr>))"

declare ConnectCallback_connectSuccess_def [simp]

text \<open>\<open>ConnectCallback::connectErr\<close> and the \<open>onError\<close> callback.\<close>

definition connectErr :: "('e, 'f, 'p) tcp_client \<Rightarrow> ('e, 'f, 'p) tcp_client res" where
  "connectErr c =
     (case tc_client c of
        None \<Rightarrow> Inl NullDeref
      | Some b \<Rightarrow>
          (case bs_base b of
             None \<Rightarrow> Inl NullDeref
           | Some _ \<Rightarrow> Inr (c\<lparr>tc_connecting := tl (tc_connecting c),
                              tc_timers := tc_timers c @ [ReconnectAfterError]\<rparr>)))"

text \<open>
  A timer fires. The closure of \<open>onError\<close> reads \<open>timeout\<close> before it calls \<open>DoConnect\<close>, through a
  reference to an object that no longer exists.
\<close>

definition timer_fired ::
  "('f \<Rightarrow> 'p res) \<Rightarrow> 'e \<Rightarrow> ('e, 'f, 'p) tcp_client \<Rightarrow> ('e, 'f, 'p) tcp_client res" where
  "timer_fired newPipeline this_evb c =
     (case tc_timers c of
        [] \<Rightarrow> Inr c
      | ReconnectAfterError # ts \<Rightarrow> Inl UseAfterFree
      | ReconnectAfterClose # ts \<Rightarrow> DoConnect newPipeline this_evb (c\<lparr>tc_timers := ts\<rparr>) 0)"

definition TcpClient_deletePipeline :: "('e, 'f, 'p) tcp_client \<Rightarrow> 'p \<Rightarrow> ('e, 'f, 'p) tcp_client res" where
  "TcpClient_deletePipeline c pipeline =
     (let c1 = c\<lparr>tc_connected := False\<rparr>
      in case tc_client c1 of
           None \<Rightarrow> Inl NullDeref
         | Some b \<Rightarrow>
             if bs_pipeline b \<noteq> Some pipeline then Inl CheckFailed
             else if \<not> tc_stoped c1
             then (case bs_base b of
                     None \<Rightarrow> Inl NullDeref
                   | Some _ \<Rightarrow> Inr (c1\<lparr>tc_timers := tc_timers c1 @ [ReconnectAfterClose]\<rparr>))
             else Inr c1)"

text \<open>
  \<open>Stop\<close>: closing the pipeline ends in the manager's \<open>deletePipeline\<close>; afterwards the
  bootstrap is released, while attempts and timers that are under way stay so.
\<close>

definition TcpClient_Stop :: "('e, 'f, 'p) tcp_client \<Rightarrow> ('e, 'f, 'p) tcp_client res" where
  "TcpClient_Stop c =
     (case tc_client c of
        None \<Rightarrow> Inl NullDeref
      | Some b \<Rightarrow>
          (case bs_base b of
             None \<Rightarrow> Inl NullDeref
           | Some _ \<Rightarrow>
               let c1 = c\<lparr>tc_stoped := True\<rparr>
               in rbind (if tc_connected c1
                         then (case bs_pipeline b of
                                 None \<Rightarrow> Inl NullDeref
                               | Some p \<Rightarrow> if tc_managed c1 = Some p
                                           then map_sum id (\<lambda>c. c\<lparr>tc_managed := None\<rparr>) (TcpClient_deletePipeline c1 p)
                                           else Inr c1)
                         else Inr c1) (\<lambda>c2. Inr (c2\<lparr>tc_client := None\<rparr>))))"

text \<open>\<open>~TcpClient\<close>: the pipeline must no longer call its manager.\<close>

definition TcpClient_destroy :: "('e, 'f, 'p) tcp_client \<Rightarrow> ('e, 'f, 'p) tcp_client" where
  "TcpClient_destroy c =
     (case tc_client c of
        None \<Rightarrow> c
      | Some b \<Rightarrow>
          (case bs_pipeline b of
             None \<Rightarrow> c
           | Some p \<Rightarrow> c\<lparr>tc_managed := (if tc_managed c = Some p then None else tc_managed c)\<rparr>))"

text \<open>
  \<open>SendIOBufThreadSafe\<close> posts a closure to the event base; the closure writes when the
  client is connected then, and only then calls the completion function.
\<close>

definition SendIOBufThreadSafe :: "('e, 'f, 'p) tcp_client \<Rightarrow> 'e res" where
  "SendIOBufThreadSafe c =
     (case tc_client c of
        None \<Rightarrow> Inl NullDeref
      | Some b \<Rightarrow> (case bs_base b of None \<Rightarrow> Inl NullDeref | Some e \<Rightarrow> Inr e))"

definition run_send :: "('e, 'f, 'p) tcp_client \<Rightarrow> iobuf \<Rightarrow> (('p \<times> iobuf) option \<times> bool) res" where
  "run_send c o' =
     (if tc_connected c
      then (case tc_client c of
              None \<Rightarrow> Inl NullDeref
            | Some b \<Rightarrow> (case bs_pipeline b of None \<Rightarrow> Inl NullDeref | Some p \<Rightarrow> Inr (Some (p, o'), True)))
      else Inr (None, False))"

section \<open>\<open>SimpleTcpClient\<close>\<close>

text \<open>
  The client without reconnection. Its two ways to connect differ in the factory and in the
  order in which a failure is reported.
\<close>

datatype connect_call = ConnectCall | ConnectByFactoryCall

datatype notice = OnConnectionError | OnClientConnectionError

record ('e, 'f, 'p) simple_tcp_client =
  st_connected :: bool
  st_callback :: bool
  st_connect_error_callback :: bool
  st_client :: "('e, 'f, 'p) bootstrap"
  st_name :: string
  st_attempts :: "connect_call list"
  st_managed :: "'p option"

definition new_SimpleTcpClient :: "'e option \<Rightarrow> bool \<Rightarrow> string \<Rightarrow> bool \<Rightarrow> ('e, 'f, 'p) simple_tcp_client" where
  "new_SimpleTcpClient base callback name connect_error_callback =
     \<lparr>st_connected = False, st_callback = callback, st_connect_error_callback = connect_error_callback,
      st_client = new_ClientBootstrap2 base, st_name = name, st_attempts = [], st_managed = None\<rparr>"

definition simple_connect ::
  "('f \<Rightarrow> 'p res) \<Rightarrow> 'e \<Rightarrow> connect_call \<Rightarrow> 'f \<Rightarrow> ('e, 'f, 'p) simple_tcp_client \<Rightarrow> ('e, 'f, 'p) simple_tcp_client res" where
  "simple_connect newPipeline this_evb call f c =
     rbind (bootstrap_connect newPipeline this_evb (bootstrap_pipelineFactory (st_client c) (Some f)) 0)
       (\<lambda>(b, sock, t). Inr (c\<lparr>st_client := b, st_attempts := st_attempts c @ [call]\<rparr>))"

text \<open>\<open>Connect\<close> makes its own factory from the callback; \<open>mk\<close> is that factory.\<close>

definition SimpleTcpClient_Connect ::
  "('f \<Rightarrow> 'p res) \<Rightarrow> 'e \<Rightarrow> (bool \<Rightarrow> 'f) \<Rightarrow> ('e, 'f, 'p) simple_tcp_client \<Rightarrow> ('e, 'f, 'p) simple_tcp_client res" where
  "SimpleTcpClient_Connect newPipeline this_evb mk c =
     simple_connect newPipeline this_evb ConnectCall (mk (st_callback c)) c"

definition SimpleTcpClient_ConnectByFactory ::
  "('f \<Rightarrow> 'p res) \<Rightarrow> 'e \<Rightarrow> 'f option \<Rightarrow> ('e, 'f, 'p) simple_tcp_client \<Rightarrow> ('e, 'f, 'p) simple_tcp_client res" where
  "SimpleTcpClient_ConnectByFactory newPipeline this_evb factory c =
     (case factory of
        None \<Rightarrow> Inr c
      | Some f \<Rightarrow> simple_connect newPipeline this_evb ConnectByFactoryCall f c)"

definition simple_connectSuccess :: "('e, 'f, 'p) simple_tcp_client \<Rightarrow> ('e, 'f, 'p) simple_tcp_client res" where
  "simple_connectSuccess c =
     (case bs_pipeline (st_client c) of
        None \<Rightarrow> Inl NullDeref
      | Some p \<Rightarrow> Inr (c\<lparr>st_attempts := tl (st_attempts c), st_managed := Some p, st_connected := True\<rparr>))"

definition simple_connectErr :: "('e, 'f, 'p) simple_tcp_client \<Rightarrow> notice list \<times> ('e, 'f, 'p) simple_tcp_client" where
  "simple_connectErr c =
     (let err = (if st_connect_error_callback c then [OnClientConnectionError] else []);
          conn = (if st_callback c then [OnConnectionError] else [])
      in (case st_attempts c of
            [] \<Rightarrow> []
          | ConnectCall # _ \<Rightarrow> err @ conn
          | ConnectByFactoryCall # _ \<Rightarrow> conn @ err,
          c\<lparr>st_attempts := tl (st_attempts c)\<rparr>))"

definition SimpleTcpClient_deletePipeline ::
  "('e, 'f, 'p) simple_tcp_client \<Rightarrow> 'p \<Rightarrow> ('e, 'f, 'p) simple_tcp_client res" where
  "SimpleTcpClient_deletePipeline c pipeline =
     (if bs_pipeline (st_client c) \<noteq> Some pipeline then Inl CheckFailed
      else Inr (c\<lparr>st_connected := False\<rparr>))"

definition SimpleTcpClient_clearCallBack :: "('e, 'f, 'p) simple_tcp_client \<Rightarrow> ('e, 'f, 'p) simple_tcp_client" where
  "SimpleTcpClient_clearCallBack c = c\<lparr>st_callback := False, st_connect_error_callback := False\<rparr>"

section \<open>The client's life\<close>

datatype 'p event = Connected | Failed | Timer | Closed 'p | Stopped

text \<open>
  Which events can happen: the outcome of an attempt under way, a timer that is set, the end
  of the transport of the pipeline this client manages, and a call of \<open>Stop\<close>.
\<close>

fun enabled :: "('e, 'f, 'p) tcp_client \<Rightarrow> 'p event \<Rightarrow> bool" where
  "enabled c Connected = (tc_connecting c \<noteq> [])"
| "enabled c Failed = (tc_connecting c \<noteq> [])"
| "enabled c Timer = (tc_timers c \<noteq> [])"
| "enabled c (Closed p) = (tc_connected c \<and> tc_managed c = Some p)"
| "enabled c Stopped = True"

fun deliver :: "('f \<Rightarrow> 'p res) \<Rightarrow> 'e \<Rightarrow> ('e, 'f, 'p) tcp_client \<Rightarrow> 'p event \<Rightarrow> ('e, 'f, 'p) tcp_client res" where
  "deliver np e c Connected = connectSuccess c"
| "deliver np e c Failed = connectErr c"
| "deliver np e c Timer = timer_fired np e c"
| "deliver np e c (Closed p) =
     map_sum id (\<lambda>c. c\<lparr>tc_managed := None\<rparr>) (TcpClient_deletePipeline c p)"
| "deliver np e c Stopped = TcpClient_Stop c"

text \<open>Every state of a started client that has not been stopped.\<close>

inductive running :: "('e, 'f, 'p) tcp_client \<Rightarrow> bool" where
  started: "TcpClient_Start np e (TcpClient_SetChildPipeline (new_TcpClient evb) f) = Inr c' \<Longrightarrow> running c'"
| event: "running c \<Longrightarrow> enabled c ev \<Longrightarrow> ev \<noteq> Stopped \<Longrightarrow>
     deliver np e c ev = Inr c' \<Longrightarrow> running c'"

definition one_activity :: "('e, 'f, 'p) tcp_client \<Rightarrow> bool" where
  "one_activity c \<longleftrightarrow>
     \<not> tc_stoped c \<and>
     length (tc_connecting c) + length (tc_timers c) + (if tc_connected c then 1 else 0) = 1 \<and>
     (\<exists>b f p e. tc_client c = Some b \<and> bs_factory b = Some f \<and> bs_base b = Some e \<and>
        bs_pipeline b = Some p \<and> (tc_connected c \<longrightarrow> tc_managed c = Some p \<and> p \<in> set (tc_activated c)))"

text \<open>A pipeline factory that does not throw.\<close>

definition builds :: "('f \<Rightarrow> 'p res) \<Rightarrow> bool" where
  "builds np \<longleftrightarrow> (\<forall>f. \<exists>p. np f = Inr p)"

lemma DoConnect_result:
  assumes "tc_client c = Some b" "bs_factory b = Some f" "np f = Inr p"
  shows "DoConnect np e c t = Inr (c\<lparr>tc_client := Some (b\<lparr>bs_base := Some (case bs_base b of Some x \<Rightarrow> x | None \<Rightarrow> e),
     bs_pipeline := Some p\<rparr>), tc_connecting := tc_connecting c @ [t]\<rparr>)"
  using assms by (cases b) (auto simp: DoConnect_def bootstrap_connect_def Let_def split: option.splits)

lemma running_start:
  assumes "TcpClient_Start np e (TcpClient_SetChildPipeline (new_TcpClient evb) f) = Inr c'"
  shows "one_activity c'"
  using assms
  by (cases evb) (auto simp: TcpClient_Start_def TcpClient_SetChildPipeline_def new_TcpClient_def DoConnect_def
      bootstrap_connect_def bootstrap_pipelineFactory_def new_ClientBootstrap2_def Let_def one_activity_def rbind_eq_Inr_iff)

lemma one_activity_cases:
  assumes "one_activity c"
  obtains (connecting) b f p x t where "tc_client c = Some b" "bs_factory b = Some f" "bs_base b = Some x"
      "bs_pipeline b = Some p" "\<not> tc_stoped c" "tc_connecting c = [t]" "tc_timers c = []" "\<not> tc_connected c"
  | (waiting) b f p x t where "tc_client c = Some b" "bs_factory b = Some f" "bs_base b = Some x"
      "bs_pipeline b = Some p" "\<not> tc_stoped c" "tc_connecting c = []" "tc_timers c = [t]" "\<not> tc_connected c"
  | (connected) b f p x where "tc_client c = Some b" "bs_factory b = Some f" "bs_base b = Some x"
      "bs_pipeline b = Some p" "\<not> tc_stoped c" "tc_connecting c = []" "tc_timers c = []" "tc_connected c"
      "tc_managed c = Some p" "p \<in> set (tc_activated c)"
proof -
  from assms obtain b f p x where b: "tc_client c = Some b" "bs_factory b = Some f" "bs_base b = Some x"
    "bs_pipeline b = Some p" "\<not> tc_stoped c" "tc_connected c \<longrightarrow> tc_managed c = Some p \<and> p \<in> set (tc_activated c)"
    "length (tc_connecting c) + length (tc_timers c) + (if tc_connected c then 1 else 0) = 1"
    unfolding one_activity_def by blast
  show ?thesis
  proof (cases "tc_connected c")
    case True
    then show ?thesis using b connected by simp
  next
    case False
    then consider t where "tc_connecting c = [t]" "tc_timers c = []" | t where "tc_connecting c = []" "tc_timers c = [t]"
      using b(7) by (cases "tc_connecting c"; cases "tc_timers c") auto
    then show ?thesis using b False connecting waiting by cases blast+
  qed
qed

text \<open>The one timer of a waiting client.\<close>

lemma waiting_timer:
  assumes "tc_client c = Some b" "bs_factory b = Some f" "bs_base b = Some x" "tc_timers c = [t]" "tc_connecting c = []"
    "\<not> tc_stoped c" "\<not> tc_connected c"
  shows "timer_fired np e c =
     (case t of ReconnectAfterError \<Rightarrow> Inl UseAfterFree
      | ReconnectAfterClose \<Rightarrow> (case np f of Inl a \<Rightarrow> Inl a
          | Inr q \<Rightarrow> Inr (c\<lparr>tc_timers := [], tc_client := Some (b\<lparr>bs_pipeline := Some q\<rparr>), tc_connecting := [0]\<rparr>)))"
    and "np f = Inr q \<Longrightarrow> one_activity (c\<lparr>tc_timers := [], tc_client := Some (b\<lparr>bs_pipeline := Some q\<rparr>), tc_connecting := [0]\<rparr>)"
  using assms
  by (auto simp: timer_fired_def DoConnect_def bootstrap_connect_def one_activity_def split: timer.split sum.split)

lemma deliver_activity:
  assumes inv: "one_activity c" and en: "enabled c ev" and ev: "ev \<noteq> Stopped"
  shows "deliver np e c ev = Inr c' \<Longrightarrow> one_activity c'"
    and "(\<exists>c'. deliver np e c ev = Inr c') \<or>
      ev = Timer \<and> (tc_timers c = [ReconnectAfterError] \<and> deliver np e c ev = Inl UseAfterFree \<or>
        (\<exists>b f a. tc_client c = Some b \<and> bs_factory b = Some f \<and> np f = Inl a \<and> deliver np e c ev = Inl a))"
proof -
  have "(\<exists>c'. deliver np e c ev = Inr c' \<and> one_activity c') \<or>
      ev = Timer \<and> (tc_timers c = [ReconnectAfterError] \<and> deliver np e c ev = Inl UseAfterFree \<or>
        (\<exists>b f a. tc_client c = Some b \<and> bs_factory b = Some f \<and> np f = Inl a \<and> deliver np e c ev = Inl a))"
    using inv
  proof (cases rule: one_activity_cases)
    case (connecting b f p x t)
    then consider "ev = Connected" | "ev = Failed" using en ev by (cases ev) auto
    then show ?thesis
      using connecting by cases (simp_all add: one_activity_def connectSuccess_def connectErr_def)
  next
    case (waiting b f p x t)
    then have "ev = Timer" using en ev by (cases ev) auto
    then show ?thesis
      using waiting_timer(1) [of c b f x t np e, OF waiting(1-3,7,6,5,8)]
        waiting_timer(2) [of c b f x t np, OF waiting(1-3,7,6,5,8)] waiting(1,2,7)
      by (cases t; cases "np f") auto
  next
    case (connected b f p x)
    then have "ev = Closed p" using en ev by (cases ev) auto
    then show ?thesis
      using connected by (simp add: one_activity_def TcpClient_deletePipeline_def Let_def)
  qed
  then show "deliver np e c ev = Inr c' \<Longrightarrow> one_activity c'"
    and "(\<exists>c'. deliver np e c ev = Inr c') \<or>
      ev = Timer \<and> (tc_timers c = [ReconnectAfterError] \<and> deliver np e c ev = Inl UseAfterFree \<or>
        (\<exists>b f a. tc_client c = Some b \<and> bs_factory b = Some f \<and> np f = Inl a \<and> deliver np e c ev = Inl a))"
    by auto
qed

lemma running_activity: "running c \<Longrightarrow> one_activity c"
  by (induction rule: running.induct) (blast intro: running_start deliver_activity(1))+

lemma running_started:
  assumes "builds np"
  shows "\<exists>c. TcpClient_Start np e (TcpClient_SetChildPipeline (new_TcpClient (Some evb)) f) = Inr c"
proof -
  obtain p where "np f = Inr p" using assms unfolding builds_def by blast
  then show ?thesis
    by (simp add: TcpClient_Start_def TcpClient_SetChildPipeline_def new_TcpClient_def DoConnect_def
        bootstrap_connect_def bootstrap_pipelineFactory_def new_ClientBootstrap2_def Let_def)
qed

lemma running_exists: "\<exists>c :: ('e, 'f, 'p) tcp_client. running c"
proof -
  obtain c :: "('e, 'f, 'p) tcp_client" where
    "TcpClient_Start (\<lambda>_. Inr undefined) undefined (TcpClient_SetChildPipeline (new_TcpClient (Some undefined)) undefined) = Inr c"
    by (rule exE [OF running_started]) (auto simp: builds_def)
  then show ?thesis by (intro exI) (rule running.started)
qed

fun deliver_all ::
  "('f \<Rightarrow> 'p res) \<Rightarrow> 'e \<Rightarrow> ('e, 'f, 'p) tcp_client \<Rightarrow> 'p event list \<Rightarrow> ('e, 'f, 'p) tcp_client res option" where
  "deliver_all np e c [] = Some (Inr c)"
| "deliver_all np e c (ev # evs) =
     (if enabled c ev
      then (case deliver np e c ev of Inl a \<Rightarrow> Some (Inl a) | Inr c' \<Rightarrow> deliver_all np e c' evs)
      else None)"

section \<open>Properties\<close>


text \<open>An example: a client whose first attempt has failed.\<close>

definition demo_failed :: "(nat, nat, nat) tcp_client" where
  "demo_failed =
     \<lparr>tc_factory = Some 5,
      tc_client = Some \<lparr>bs_pipeline = Some 5, bs_port = None, bs_factory = Some 5, bs_base = Some 1,
                        bs_sslContext = None, bs_sslSession = None\<rparr>,
      tc_connected = False, tc_stoped = False, tc_connecting = [], tc_timers = [ReconnectAfterError],
      tc_managed = None, tc_activated = []\<rparr>"

lemma demo_failed_running: "running demo_failed"
proof -
  have st: "TcpClient_Start Inr 0 (TcpClient_SetChildPipeline (new_TcpClient (Some 1)) 5) =
      Inr (demo_failed\<lparr>tc_connecting := [0], tc_timers := []\<rparr>)"
    by (simp add: TcpClient_Start_def TcpClient_SetChildPipeline_def new_TcpClient_def DoConnect_def demo_failed_def
        bootstrap_connect_def bootstrap_pipelineFactory_def new_ClientBootstrap2_def Let_def)
  show ?thesis
    by (rule running.event [OF running.started [OF st], where ev = Failed and np = Inr and e = 0])
       (simp_all add: demo_failed_def connectErr_def)
qed


text \<open>
  The client finds its way back after a lost connection: from every state before \<open>Stop\<close> in which
  no attempt has just failed, at most two events (a timer and a successful attempt) lead to a
  connected client whose pipeline is the bootstrap's.
\<close>

theorem tcp_client_reconnects:
  assumes "running c" "builds np" "tc_timers c \<noteq> [ReconnectAfterError]"
  shows "\<exists>evs c'. length evs \<le> 2 \<and> Stopped \<notin> set evs \<and> deliver_all np e c evs = Some (Inr c') \<and>
     tc_connected c' \<and> tc_managed c' = TcpClient_GetPipeline c'"
  using running_activity [OF assms(1)]
proof (cases rule: one_activity_cases)
  case (connecting b f p x t)
  then show ?thesis
    by (intro exI [of _ "[Connected]"]) (simp add: connectSuccess_def TcpClient_GetPipeline_def)
next
  case (waiting b f p x t)
  obtain q where "np f = Inr q" using assms(2) unfolding builds_def by blast
  moreover have "t = ReconnectAfterClose" using assms(3) waiting(7) by (cases t) simp_all
  ultimately show ?thesis
    using waiting waiting_timer(1) [of c b f x t np e, OF waiting(1-3,7,6,5,8)]
    by (intro exI [of _ "[Timer, Connected]"])
       (simp add: connectSuccess_def TcpClient_GetPipeline_def)
next
  case (connected b f p x)
  then show ?thesis by (intro exI [of _ "[]"]) (simp add: TcpClient_GetPipeline_def)
qed

theorem tcp_client_reconnects_witness:
  "\<exists>(c :: (nat, nat, nat) tcp_client) evs c'. running c \<and>
     deliver_all Inr 0 c evs = Some (Inr c') \<and> tc_connected c'"
proof -
  obtain c :: "(nat, nat, nat) tcp_client" where
    st: "TcpClient_Start Inr 0 (TcpClient_SetChildPipeline (new_TcpClient (Some 1)) 5) = Inr c"
    by (rule exE [OF running_started]) (auto simp: builds_def)
  then have "tc_timers c \<noteq> [ReconnectAfterError]"
    by (auto simp: TcpClient_Start_def TcpClient_SetChildPipeline_def new_TcpClient_def DoConnect_def
        bootstrap_connect_def bootstrap_pipelineFactory_def new_ClientBootstrap2_def Let_def)
  with running.started [OF st] tcp_client_reconnects [OF running.started [OF st] _ this, of Inr 0]
  show ?thesis by (auto simp: builds_def)
qed

text \<open>
  Stopping a connected client leaves nothing behind, but stopping one that is connecting
  or waiting to reconnect resets \<open>client_\<close> under the attempt or timer that is still pending,
  and that event, when it comes, uses the pointer.
\<close>

theorem tcp_client_stop_pending:
  assumes "running c"
  shows "\<exists>c'. TcpClient_Stop c = Inr c' \<and>
     (tc_connected c \<longrightarrow> (\<forall>ev. enabled c' ev \<longrightarrow> ev = Stopped)) \<and>
     (\<not> tc_connected c \<longrightarrow>
        (\<exists>ev. enabled c' ev \<and> ev \<noteq> Stopped) \<and>
        (\<forall>ev. enabled c' ev \<longrightarrow> (\<exists>a. deliver np e c' ev = Inl a)))"
  using running_activity [OF assms]
proof (cases rule: one_activity_cases)
  case (connecting b f p x t)
  have "\<exists>a. deliver np e (c\<lparr>tc_stoped := True, tc_client := None\<rparr>) ev = Inl a"
    if "enabled (c\<lparr>tc_stoped := True, tc_client := None\<rparr>) ev" for ev
    using connecting that by (cases ev) (simp_all add: connectSuccess_def connectErr_def TcpClient_Stop_def)
  moreover have "\<exists>ev. enabled (c\<lparr>tc_stoped := True, tc_client := None\<rparr>) ev \<and> ev \<noteq> Stopped"
    using connecting by (intro exI [of _ Connected]) simp
  ultimately show ?thesis using connecting by (auto simp: TcpClient_Stop_def Let_def)
next
  case (waiting b f p x t)
  have "\<exists>a. deliver np e (c\<lparr>tc_stoped := True, tc_client := None\<rparr>) ev = Inl a"
    if "enabled (c\<lparr>tc_stoped := True, tc_client := None\<rparr>) ev" for ev
    using waiting that by (cases ev; cases t) (simp_all add: timer_fired_def DoConnect_def TcpClient_Stop_def)
  moreover have "\<exists>ev. enabled (c\<lparr>tc_stoped := True, tc_client := None\<rparr>) ev \<and> ev \<noteq> Stopped"
    using waiting by (intro exI [of _ Timer]) simp
  ultimately show ?thesis using waiting by (auto simp: TcpClient_Stop_def Let_def)
next
  case (connected b f p x)
  let ?c = "c\<lparr>tc_stoped := True, tc_connected := False, tc_managed := None, tc_client := None\<rparr>"
  have "TcpClient_Stop c = Inr ?c"
    using connected by (simp add: TcpClient_Stop_def TcpClient_deletePipeline_def Let_def)
  moreover have "ev = Stopped" if "enabled ?c ev" for ev using connected that by (cases ev) simp_all
  ultimately show ?thesis using connected by auto
qed

theorem tcp_client_stop_pending_witness:
  "\<exists>(c :: (nat, nat, nat) tcp_client) c' ev a. running c \<and> TcpClient_Stop c = Inr c' \<and>
     enabled c' ev \<and> deliver Inr 0 c' ev = Inl a"
proof -
  obtain c :: "(nat, nat, nat) tcp_client" where
    st: "TcpClient_Start Inr 0 (TcpClient_SetChildPipeline (new_TcpClient (Some 1)) 5) = Inr c"
    by (rule exE [OF running_started]) (auto simp: builds_def)
  then have "\<not> tc_connected c"
    by (auto simp: TcpClient_Start_def TcpClient_SetChildPipeline_def new_TcpClient_def DoConnect_def
        bootstrap_connect_def bootstrap_pipelineFactory_def new_ClientBootstrap2_def Let_def)
  with running.started [OF st] tcp_client_stop_pending [OF running.started [OF st], of Inr 0]
  show ?thesis by blast
qed

text \<open>
  A client whose attempt fails never connects again: the closure of the retry reads \<open>timeout\<close>
  through a reference to a variable that no longer exists.
\<close>

theorem tcp_client_retry_timeout_dangling:
  assumes "running c" "enabled c Failed"
  shows "\<exists>c1. connectErr c = Inr c1 \<and> (\<forall>ev. enabled c1 ev \<and> ev \<noteq> Stopped \<longrightarrow> ev = Timer) \<and>
     timer_fired np e c1 = Inl UseAfterFree"
  using running_activity [OF assms(1)]
proof (cases rule: one_activity_cases)
  case (connecting b f p x t)
  let ?c = "c\<lparr>tc_connecting := [], tc_timers := [ReconnectAfterError]\<rparr>"
  have "ev = Timer" if "enabled ?c ev" "ev \<noteq> Stopped" for ev using that connecting by (cases ev) simp_all
  then show ?thesis using connecting by (auto simp: connectErr_def timer_fired_def)
qed (use assms(2) in simp_all)

theorem tcp_client_retry_timeout_dangling_witness:
  "\<exists>(c :: (nat, nat, nat) tcp_client) c1. connectErr c = Inr c1 \<and> timer_fired Inr 0 c1 = Inl UseAfterFree"
proof -
  obtain c :: "(nat, nat, nat) tcp_client" where
    st: "TcpClient_Start Inr 0 (TcpClient_SetChildPipeline (new_TcpClient (Some 1)) 5) = Inr c"
    by (rule exE [OF running_started]) (auto simp: builds_def)
  then have "enabled c Failed"
    by (auto simp: TcpClient_Start_def TcpClient_SetChildPipeline_def new_TcpClient_def DoConnect_def
        bootstrap_connect_def bootstrap_pipelineFactory_def new_ClientBootstrap2_def Let_def)
  from tcp_client_retry_timeout_dangling [OF running.started [OF st] this, of Inr 0]
  show ?thesis by blast
qed

end
