(* ===== verification/Pipelines.thy ===== *)
theory Pipelines
  imports Conn_Handler
begin

text \<open>
  The pipelines the factories assemble (\<open>net/conn_pipeline_factory\<close>,
  \<open>net/conn_pipeline_factory_t.h\<close>, \<open>net/simple_conn_pipeline_factory\<close>) and the handler at
  the end of the simple ones (\<open>net/simple_conn_handler\<close>). A pipeline is the list of its
  handlers with its settings; \<open>Pipeline::finalize\<close>, which links the handlers, belongs to
  wangle and is an argument.
\<close>

section \<open>Handlers and what flows between them\<close>

text \<open>
  The types that travel between handlers: \<open>IOBufQueue&\<close>, \<open>unique_ptr<IOBuf>\<close>, and the message types
  of an application's own decoders and handlers.
\<close>

datatype flow = BufQueue | Buf | Message string

datatype ('c, 'd, 'h) handler =
    AsyncSocketHandler
  | EventBaseHandler
  | SimpleDecode
  | ConnHandler "service_object option"
  | SimpleConnHandler "'c option" string
  | CustomDecoder 'd
  | CustomHandler 'h "service_object option"

record ('c, 'd, 'h) pipeline =
  pl_read_buffer_settings :: "(u64 \<times> u64) option"
  pl_transport_info :: "(string \<times> string) option"
  pl_handlers :: "('c, 'd, 'h) handler list"

definition pipeline_create :: "('c, 'd, 'h) pipeline" where
  "pipeline_create = \<lparr>pl_read_buffer_settings = None, pl_transport_info = None, pl_handlers = []\<rparr>"

definition addBack :: "('c, 'd, 'h) handler \<Rightarrow> ('c, 'd, 'h) pipeline \<Rightarrow> ('c, 'd, 'h) pipeline" where
  "addBack h p = p\<lparr>pl_handlers := pl_handlers p @ [h]\<rparr>"

text \<open>A socket, as far as the factories look at it: its local and its peer address.\<close>

record sock =
  local_address :: string
  peer_address :: string

text \<open>\<open>SimpleDecode::decode\<close>: it takes the whole queue, and reports whether there was any.\<close>

definition SimpleDecode_decode :: "iobuf option \<Rightarrow> iobuf option \<times> bool \<times> iobuf option" where
  "SimpleDecode_decode queue = (queue, queue \<noteq> None, None)"

section \<open>The factories\<close>

definition ConnPipelineFactory_newPipeline ::
  "(('c, 'd, 'h) pipeline \<Rightarrow> ('c, 'd, 'h) pipeline res) \<Rightarrow> service_object option \<Rightarrow> sock \<Rightarrow> ('c, 'd, 'h) pipeline res" where
  "ConnPipelineFactory_newPipeline finalize service sock =
     finalize
       (addBack (ConnHandler service) (addBack EventBaseHandler (addBack AsyncSocketHandler pipeline_create)))"

definition ClientConnPipelineFactory_newPipeline ::
  "(('c, 'd, 'h) pipeline \<Rightarrow> ('c, 'd, 'h) pipeline res) \<Rightarrow> service_object option \<Rightarrow> sock \<Rightarrow> ('c, 'd, 'h) pipeline res" where
  "ClientConnPipelineFactory_newPipeline finalize service sock =
     (let pipeline = pipeline_create\<lparr>pl_read_buffer_settings := Some (1024 * 32, 1024 * 64)\<rparr>;
          pipeline = pipeline\<lparr>pl_transport_info := Some (local_address sock, peer_address sock)\<rparr>
      in finalize
           (addBack (ConnHandler service) (addBack EventBaseHandler (addBack AsyncSocketHandler pipeline))))"

definition ServerConnPipelineFactory_newPipeline ::
  "(('c, 'd, 'h) pipeline \<Rightarrow> ('c, 'd, 'h) pipeline res) \<Rightarrow> service_object option \<Rightarrow> sock \<Rightarrow> ('c, 'd, 'h) pipeline res" where
  "ServerConnPipelineFactory_newPipeline finalize service sock =
     (let pipeline = pipeline_create\<lparr>pl_read_buffer_settings := Some (1024 * 32, 1024 * 64)\<rparr>
      in finalize
           (addBack (ConnHandler service) (addBack SimpleDecode (addBack AsyncSocketHandler pipeline))))"

definition ServerConnPipelineFactoryT_newPipeline ::
  "(('c, 'd, 'h) pipeline \<Rightarrow> ('c, 'd, 'h) pipeline res) \<Rightarrow> 'd \<Rightarrow> 'h \<Rightarrow> service_object option \<Rightarrow> sock
   \<Rightarrow> ('c, 'd, 'h) pipeline res" where
  "ServerConnPipelineFactoryT_newPipeline finalize D H service sock =
     (let pipeline = pipeline_create\<lparr>pl_read_buffer_settings := Some (1024 * 32, 1024 * 64)\<rparr>
      in finalize
           (addBack (CustomHandler H service) (addBack (CustomDecoder D) (addBack AsyncSocketHandler pipeline))))"

definition SimpleConnPipelineFactory_newPipeline ::
  "(('c, 'd, 'h) pipeline \<Rightarrow> ('c, 'd, 'h) pipeline res) \<Rightarrow> 'c option \<Rightarrow> string \<Rightarrow> sock \<Rightarrow> ('c, 'd, 'h) pipeline res" where
  "SimpleConnPipelineFactory_newPipeline finalize callback name sock =
     (let pipeline = pipeline_create\<lparr>pl_transport_info := Some (local_address sock, peer_address sock)\<rparr>
      in finalize
           (addBack (SimpleConnHandler callback name) (addBack EventBaseHandler (addBack AsyncSocketHandler pipeline))))"

definition SimpleServerConnPipelineFactory_newPipeline ::
  "(('c, 'd, 'h) pipeline \<Rightarrow> ('c, 'd, 'h) pipeline res) \<Rightarrow> 'c option \<Rightarrow> string \<Rightarrow> sock \<Rightarrow> ('c, 'd, 'h) pipeline res" where
  "SimpleServerConnPipelineFactory_newPipeline finalize callback name sock =
     finalize (addBack (SimpleConnHandler callback name) (addBack AsyncSocketHandler pipeline_create))"

section \<open>\<open>SimpleConnHandler\<close>\<close>

record 'c simple_conn_handler =
  sh_callback :: "'c option"
  sh_name :: string

definition new_SimpleConnHandler :: "'c option \<Rightarrow> string \<Rightarrow> 'c simple_conn_handler" where
  "new_SimpleConnHandler callback name = \<lparr>sh_callback = callback, sh_name = name\<rparr>"

definition ClearCalllback :: "'c simple_conn_handler \<Rightarrow> 'c simple_conn_handler" where
  "ClearCalllback h = h\<lparr>sh_callback := None\<rparr>"

text \<open>What the handler tells its \<open>SocketEventCallback\<close>.\<close>

datatype ('c, 'p) told =
    ToldNewConnection 'c 'p
  | ToldConnectionClosed 'c 'p
  | ToldDataArrived 'c 'p "iobuf option"

definition SimpleConnHandler_close :: "'c simple_conn_handler \<Rightarrow> 'p \<Rightarrow> ('c, 'p) told list \<times> fired list" where
  "SimpleConnHandler_close h p =
     ((case sh_callback h of None \<Rightarrow> [] | Some c \<Rightarrow> [ToldConnectionClosed c p]), [FireClose])"

text \<open>
  \<open>read\<close>: \<open>on_data\<close> is what the callback returns, \<open>remote\<close> the peer's address if the pipeline
  has transport information. The buffer is moved into the call, so the pointer is null when
  the length is logged.
\<close>

definition SimpleConnHandler_read ::
  "('c \<Rightarrow> 'p \<Rightarrow> iobuf option \<Rightarrow> int) \<Rightarrow> string option \<Rightarrow> 'c simple_conn_handler \<Rightarrow> 'p \<Rightarrow> iobuf option
   \<Rightarrow> (('c, 'p) told list \<times> fired list) res" where
  "SimpleConnHandler_read on_data remote h p msg =
     (let (rv, told, msg) = (case sh_callback h of
                               None \<Rightarrow> (0, [], msg)
                             | Some c \<Rightarrow> (on_data c p msg, [ToldDataArrived c p msg], None))
      in if rv = -1 then
           (case (msg, remote) of
              (Some _, Some _) \<Rightarrow> let (told', fired) = SimpleConnHandler_close h p in Inr (told @ told', fired)
            | _ \<Rightarrow> Inl NullDeref)
         else Inr (told, []))"

definition SimpleConnHandler_write :: "iobuf \<Rightarrow> fired list" where
  "SimpleConnHandler_write out = [FireWrite out]"

definition SimpleConnHandler_readEOF ::
  "string option \<Rightarrow> 'c simple_conn_handler \<Rightarrow> 'p \<Rightarrow> (('c, 'p) told list \<times> fired list) res" where
  "SimpleConnHandler_readEOF remote h p =
     (case remote of None \<Rightarrow> Inl NullDeref | Some _ \<Rightarrow> Inr (SimpleConnHandler_close h p))"

definition SimpleConnHandler_readException ::
  "string option \<Rightarrow> 'c simple_conn_handler \<Rightarrow> 'p \<Rightarrow> (('c, 'p) told list \<times> fired list) res" where
  "SimpleConnHandler_readException remote h p =
     (case remote of None \<Rightarrow> Inl NullDeref | Some _ \<Rightarrow> Inr (SimpleConnHandler_close h p))"

definition SimpleConnHandler_transportActive :: "'c simple_conn_handler \<Rightarrow> 'p \<Rightarrow> ('c, 'p) told list" where
  "SimpleConnHandler_transportActive h p =
     (case sh_callback h of None \<Rightarrow> [] | Some c \<Rightarrow> [ToldNewConnection c p])"

section \<open>Linking a pipeline\<close>

text \<open>
  What a handler takes in and passes on, inbound and outbound; \<open>None\<close> in a direction it does not
  handle. The handlers of the repository have the types of their base classes: \<open>SimpleDecode\<close> is a
  \<open>ByteToByteDecoder\<close>, which is inbound only, the others adapt \<open>unique_ptr<IOBuf>\<close> in both directions.
  \<open>lib\<close> gives the types of the handlers of wangle and of the application.
\<close>

type_synonym flows = "(flow \<times> flow) option \<times> (flow \<times> flow) option"

fun handler_flow :: "(('c, 'd, 'h) handler \<Rightarrow> flows) \<Rightarrow> ('c, 'd, 'h) handler \<Rightarrow> flows" where
  "handler_flow lib SimpleDecode = (Some (BufQueue, Buf), None)"
| "handler_flow lib (ConnHandler _) = (Some (Buf, Buf), Some (Buf, Buf))"
| "handler_flow lib (SimpleConnHandler _ _) = (Some (Buf, Buf), Some (Buf, Buf))"
| "handler_flow lib h = lib h"

fun linked :: "(flow \<times> flow) list \<Rightarrow> bool" where
  "linked ((_, out) # (inp, out') # rest) \<longleftrightarrow> out = inp \<and> linked ((inp, out') # rest)"
| "linked _ \<longleftrightarrow> True"

text \<open>
  Inbound, a handler passes on to the next inbound one behind it; outbound, to the next outbound
  one before it.
\<close>

definition links :: "(('c, 'd, 'h) handler \<Rightarrow> flows) \<Rightarrow> ('c, 'd, 'h) handler list \<Rightarrow> bool" where
  "links lib hs \<longleftrightarrow>
     linked (List.map_filter (fst \<circ> handler_flow lib) hs) \<and>
     linked (rev (List.map_filter (snd \<circ> handler_flow lib) hs))"

text \<open>
  The documented behaviour of \<open>Pipeline::finalize\<close>: it throws \<open>std::invalid_argument\<close> when, in either
  direction, a handler does not take what its neighbour passes on.
\<close>

definition checks_links ::
  "(('c, 'd, 'h) handler \<Rightarrow> flows) \<Rightarrow> (('c, 'd, 'h) pipeline \<Rightarrow> ('c, 'd, 'h) pipeline res) \<Rightarrow> bool" where
  "checks_links lib finalize \<longleftrightarrow>
     (\<forall>p. finalize p = (if links lib (pl_handlers p) then Inr p else Inl InvalidArgument))"

text \<open>
  The handlers of wangle: \<open>AsyncSocketHandler\<close> delivers queues and takes buffers to write,
  \<open>EventBaseHandler\<close> is outbound only.
\<close>

definition wangle_flows :: "(('c, 'd, 'h) handler \<Rightarrow> flows) \<Rightarrow> bool" where
  "wangle_flows lib \<longleftrightarrow>
     lib AsyncSocketHandler = (Some (BufQueue, BufQueue), Some (Buf, Buf)) \<and> lib EventBaseHandler = (None, Some (Buf, Buf))"

lemmas newPipeline_defs =
  ConnPipelineFactory_newPipeline_def ClientConnPipelineFactory_newPipeline_def
  ServerConnPipelineFactory_newPipeline_def ServerConnPipelineFactoryT_newPipeline_def
  SimpleConnPipelineFactory_newPipeline_def SimpleServerConnPipelineFactory_newPipeline_def
  addBack_def pipeline_create_def Let_def

lemma finalize_result:
  assumes "checks_links lib finalize" "wangle_flows lib"
  shows "finalize p = (if links lib (pl_handlers p) then Inr p else Inl InvalidArgument)"
    "links lib (AsyncSocketHandler # hs) \<longleftrightarrow>
       linked ((BufQueue, BufQueue) # List.map_filter (fst \<circ> handler_flow lib) hs) \<and>
       linked (rev (List.map_filter (snd \<circ> handler_flow lib) hs) @ [(Buf, Buf)])"
    "lib EventBaseHandler = (None, Some (Buf, Buf))"
  using assms by (simp_all add: checks_links_def wangle_flows_def links_def List.map_filter_def)

section \<open>One connection of a simple pipeline\<close>

datatype simple_event = Active | Data "iobuf option" | Eof | Exception | Close

fun simple_event_step ::
  "('c \<Rightarrow> 'p \<Rightarrow> iobuf option \<Rightarrow> int) \<Rightarrow> string \<Rightarrow> 'c simple_conn_handler \<Rightarrow> 'p \<Rightarrow> simple_event
   \<Rightarrow> (('c, 'p) told list \<times> fired list) res" where
  "simple_event_step on_data addr h p Active = Inr (SimpleConnHandler_transportActive h p, [])"
| "simple_event_step on_data addr h p (Data msg) = SimpleConnHandler_read on_data (Some addr) h p msg"
| "simple_event_step on_data addr h p Eof = SimpleConnHandler_readEOF (Some addr) h p"
| "simple_event_step on_data addr h p Exception = SimpleConnHandler_readException (Some addr) h p"
| "simple_event_step on_data addr h p Close = Inr (SimpleConnHandler_close h p)"

fun simple_session ::
  "('c \<Rightarrow> 'p \<Rightarrow> iobuf option \<Rightarrow> int) \<Rightarrow> string \<Rightarrow> 'c simple_conn_handler \<Rightarrow> 'p \<Rightarrow> simple_event list
   \<Rightarrow> ('c, 'p) told list res" where
  "simple_session on_data addr h p [] = Inr []"
| "simple_session on_data addr h p (e # es) =
     rbind (simple_event_step on_data addr h p e) (\<lambda>(told, _).
     rbind (simple_session on_data addr h p es) (\<lambda>rest. Inr (told @ rest)))"

text \<open>What the callback should hear of an event.\<close>

fun heard :: "'c \<Rightarrow> 'p \<Rightarrow> simple_event \<Rightarrow> ('c, 'p) told" where
  "heard c p Active = ToldNewConnection c p"
| "heard c p (Data msg) = ToldDataArrived c p msg"
| "heard c p _ = ToldConnectionClosed c p"

lemmas simple_event_defs =
  SimpleConnHandler_transportActive_def SimpleConnHandler_read_def SimpleConnHandler_readEOF_def
  SimpleConnHandler_readException_def SimpleConnHandler_close_def

lemma simple_event_step_heard:
  assumes "sh_callback h = Some c"
  shows "simple_event_step on_data addr h p e =
     (if \<exists>msg. e = Data msg \<and> on_data c p msg = -1 then Inl NullDeref
      else Inr ([heard c p e], if e \<in> {Eof, Exception, Close} then [FireClose] else []))"
  using assms by (cases e) (auto simp: simple_event_defs)

section \<open>Properties\<close>

text \<open>
  C37. Which pipelines can be built: that of \<open>ServerConnPipelineFactory\<close>, with its decoder between
  socket and handler, links; those of \<open>ClientConnPipelineFactory\<close>, \<open>ConnPipelineFactory\<close>,
  \<open>SimpleConnPipelineFactory\<close> and \<open>SimpleServerConnPipelineFactory\<close>, whose decoder is commented out or
  missing, connect a handler of single buffers to a socket that delivers queues, and \<open>newPipeline\<close>
  throws for every socket. The template's pipeline, of an inbound decoder and a handler of both
  directions, links exactly when the decoder takes queues, the handler takes what the decoder
  passes on, and what the handler writes are buffers.
\<close>

theorem pipelines_that_link:
  assumes "wangle_flows lib" "checks_links lib finalize"
  shows "ServerConnPipelineFactory_newPipeline finalize service sock = Inr
      \<lparr>pl_read_buffer_settings = Some (32768, 65536), pl_transport_info = None,
       pl_handlers = [AsyncSocketHandler, SimpleDecode, ConnHandler service]\<rparr> \<and>
    ClientConnPipelineFactory_newPipeline finalize service sock = Inl InvalidArgument \<and>
    ConnPipelineFactory_newPipeline finalize service sock = Inl InvalidArgument \<and>
    SimpleConnPipelineFactory_newPipeline finalize callback name sock = Inl InvalidArgument \<and>
    SimpleServerConnPipelineFactory_newPipeline finalize callback name sock = Inl InvalidArgument \<and>
    (lib (CustomDecoder D) = (Some (i, out), None) \<and> lib (CustomHandler H service) = (Some (i', out'), Some (w, w')) \<longrightarrow>
     ((\<exists>p. ServerConnPipelineFactoryT_newPipeline finalize D H service sock = Inr p) \<longleftrightarrow>
       i = BufQueue \<and> i' = out \<and> w' = Buf))"
  by (auto simp: newPipeline_defs finalize_result [OF assms(2,1)] List.map_filter_def)

definition demo_flows :: "(unit, unit, unit) handler \<Rightarrow> flows" where
  "demo_flows h = (case h of AsyncSocketHandler \<Rightarrow> (Some (BufQueue, BufQueue), Some (Buf, Buf))
     | EventBaseHandler \<Rightarrow> (None, Some (Buf, Buf))
     | CustomDecoder _ \<Rightarrow> (Some (BufQueue, Message ''pdu''), None)
     | CustomHandler _ _ \<Rightarrow> (Some (Message ''pdu'', Message ''pdu''), Some (Message ''pdu'', Buf)) | _ \<Rightarrow> (None, None))"

definition demo_finalize :: "(unit, unit, unit) pipeline \<Rightarrow> (unit, unit, unit) pipeline res" where
  "demo_finalize p = (if links demo_flows (pl_handlers p) then Inr p else Inl InvalidArgument)"

theorem pipelines_that_link_witness:
  "ClientConnPipelineFactory_newPipeline demo_finalize (Some (Tcp TcpClient))
     \<lparr>local_address = ''a'', peer_address = ''b''\<rparr> = Inl InvalidArgument \<and>
   (\<exists>p. ServerConnPipelineFactoryT_newPipeline demo_finalize () () (Some (Tcp TcpServerT))
     \<lparr>local_address = ''a'', peer_address = ''b''\<rparr> = Inr p)"
proof -
  have "wangle_flows demo_flows" "checks_links demo_flows demo_finalize"
    by (simp_all add: wangle_flows_def checks_links_def demo_flows_def demo_finalize_def)
  note t = pipelines_that_link [OF this, where D = "()" and H = "()" and i = BufQueue and out = "Message ''pdu''"
      and i' = "Message ''pdu''" and out' = "Message ''pdu''" and w = "Message ''pdu''" and w' = Buf
      and sock = "\<lparr>local_address = ''a'', peer_address = ''b''\<rparr>"]
  show ?thesis using t [of "Some (Tcp TcpClient)" None "[]"] t [of "Some (Tcp TcpServerT)" None "[]"]
    by (simp add: demo_flows_def)
qed

text \<open>
  What a callback hears of one connection: the events of the pipeline one by one, in
  their order, and a close notice for every end of file, read error and close, also when the
  connection was reported closed before. The one exception: the first buffer the callback
  answers with \<open>-1\<close> ends the program, because the handler then dereferences the buffer it has
  moved away; the close that branch was written for never happens.
\<close>

theorem simple_handler_reports:
  assumes "sh_callback h = Some c"
  shows "simple_session on_data addr h p evs =
     (if \<exists>msg. Data msg \<in> set evs \<and> on_data c p msg = -1 then Inl NullDeref else Inr (map (heard c p) evs))"
proof (induction evs)
  case (Cons e es)
  then show ?case
    by (auto simp: simple_event_step_heard [OF assms] simp del: simple_event_step.simps)
qed simp

theorem simple_handler_reports_witness:
  "simple_session (\<lambda>_ _ msg. if msg = Some [0] then -1 else 0) ''peer'' (new_SimpleConnHandler (Some ()) ''n'') ''p''
     [Active, Data (Some [7]), Eof, Close] =
   Inr [ToldNewConnection () ''p'', ToldDataArrived () ''p'' (Some [7]), ToldConnectionClosed () ''p'',
        ToldConnectionClosed () ''p''] \<and>
   simple_session (\<lambda>_ _ msg. if msg = Some [0] then -1 else 0) ''peer'' (new_SimpleConnHandler (Some ()) ''n'') ''p''
     [Active, Data (Some [0])] = Inl NullDeref"
  by (subst simple_handler_reports [where c = "()"], simp add: new_SimpleConnHandler_def,
      subst simple_handler_reports [where c = "()"]) (simp_all add: new_SimpleConnHandler_def)

end
