(* ===== verification/Service_Registry.thy ===== *)
theory Service_Registry
  imports Thread_Groups Pipelines
begin

text \<open>
  From configuration to running services: the factories (\<open>net/base/service_factory_manager\<close>
  and the factories of \<open>tcp_server\<close>, \<open>tcp_client\<close>, \<open>tcp_client_group\<close>, \<open>http_server\<close>),
  \<open>ServiceManager\<close> (\<open>net/service_manager\<close>) with its registry of services by name,
  \<open>TcpClientGroup\<close> (\<open>net/server/tcp_client_group\<close>) and \<open>ServiceRouterManager\<close>
  (\<open>net/service_router_manager\<close>). Services are shared objects, so they live in a store and are
  named by references.
\<close>

section \<open>Services\<close>

datatype module_type =
    INVALID | TCP_SERVER | TCP_CLIENT_GROUP | TCP_CLIENT_POOL | TCP_CLIENT
  | UDP_SERVER | UDP_CLIENT | HTTP_SERVER | MAX_SIZE

datatype dispatch_strategy = kDefault | kRandom | kRoundRobin | kConsistencyHash | kBroadCast

text \<open>The factory of the pipelines of a service; it was given the service itself.\<close>

datatype pipeline_factory =
    ConnPipelineFactory | ClientConnPipelineFactory | ServerConnPipelineFactory | ServerConnPipelineFactoryT

record 'h service =
  sv_module :: module_type
  sv_config :: service_config
  sv_io_group :: "'h list"
  sv_child :: "pipeline_factory option"
  sv_clients :: "nat list"
  sv_group :: "nat option"

section \<open>Factories\<close>

datatype factory_kind = TcpServerFactory | TcpClientFactory | TcpClientGroupFactory | HttpServerFactory

record 'h factory =
  fac_kind :: factory_kind
  fac_name :: string
  fac_io_group :: "'h list"

definition CreateFactory :: "factory_kind \<Rightarrow> string \<Rightarrow> 'h list \<Rightarrow> 'h factory" where
  "CreateFactory k name io_group = \<lparr>fac_kind = k, fac_name = name, fac_io_group = io_group\<rparr>"

definition new_TcpServiceBase :: "module_type \<Rightarrow> service_config \<Rightarrow> 'h list \<Rightarrow> 'h service" where
  "new_TcpServiceBase mt config io_group =
     \<lparr>sv_module = mt, sv_config = config, sv_io_group = io_group, sv_child = None,
      sv_clients = [], sv_group = None\<rparr>"

definition SetChildPipeline :: "'h service \<Rightarrow> pipeline_factory \<Rightarrow> 'h service" where
  "SetChildPipeline s factory = s\<lparr>sv_child := Some factory\<rparr>"

paragraph \<open>\<open>TcpServerFactory\<close>\<close>

text \<open>\<open>GetDefaultFactory\<close> has a static object: \<open>stat\<close> is the one an earlier call has made.\<close>

definition TcpServerFactory_CreateFactory :: "string \<Rightarrow> 'h list \<Rightarrow> 'h factory" where
  "TcpServerFactory_CreateFactory = CreateFactory TcpServerFactory"

definition TcpServerFactory_GetDefaultFactory :: "'h factory option \<Rightarrow> 'h list \<Rightarrow> 'h factory" where
  "TcpServerFactory_GetDefaultFactory stat io_group =
     (case stat of Some f \<Rightarrow> f | None \<Rightarrow> CreateFactory TcpServerFactory ''tcp_server'' io_group)"

definition TcpServerFactory_GetType :: string where
  "TcpServerFactory_GetType = ''tcp_server''"

definition TcpServerFactory_CreateInstance :: "'h factory \<Rightarrow> service_config \<Rightarrow> 'h service" where
  "TcpServerFactory_CreateInstance f config =
     SetChildPipeline (new_TcpServiceBase TCP_SERVER config (fac_io_group f)) ServerConnPipelineFactory"

paragraph \<open>\<open>TcpClientFactory\<close>\<close>

definition TcpClientFactory_CreateFactory :: "string \<Rightarrow> 'h list \<Rightarrow> 'h factory" where
  "TcpClientFactory_CreateFactory = CreateFactory TcpClientFactory"

definition TcpClientFactory_GetDefaultFactory :: "'h factory option \<Rightarrow> 'h list \<Rightarrow> 'h factory" where
  "TcpClientFactory_GetDefaultFactory stat io_group =
     (case stat of Some f \<Rightarrow> f | None \<Rightarrow> CreateFactory TcpClientFactory ''tcp_client'' io_group)"

definition TcpClientFactory_GetType :: string where
  "TcpClientFactory_GetType = ''tcp_client''"

definition TcpClientFactory_CreateInstance :: "'h factory \<Rightarrow> service_config \<Rightarrow> 'h service" where
  "TcpClientFactory_CreateInstance f config =
     SetChildPipeline (new_TcpServiceBase TCP_CLIENT config (fac_io_group f)) ClientConnPipelineFactory"

paragraph \<open>\<open>TcpClientGroupFactory\<close>\<close>

definition TcpClientGroupFactory_CreateFactory :: "string \<Rightarrow> 'h list \<Rightarrow> 'h factory" where
  "TcpClientGroupFactory_CreateFactory = CreateFactory TcpClientGroupFactory"

definition TcpClientGroupFactory_GetDefaultFactory :: "'h factory option \<Rightarrow> 'h list \<Rightarrow> 'h factory" where
  "TcpClientGroupFactory_GetDefaultFactory stat io_group =
     (case stat of Some f \<Rightarrow> f | None \<Rightarrow> CreateFactory TcpClientGroupFactory ''tcp_client'' io_group)"

definition TcpClientGroupFactory_GetType :: string where
  "TcpClientGroupFactory_GetType = ''tcp_client''"

definition TcpClientGroupFactory_CreateInstance :: "'h factory \<Rightarrow> service_config \<Rightarrow> 'h service" where
  "TcpClientGroupFactory_CreateInstance f config = new_TcpServiceBase TCP_CLIENT_GROUP config (fac_io_group f)"

paragraph \<open>\<open>HttpServerFactory\<close>\<close>

definition HttpServerFactory_CreateFactory :: "string \<Rightarrow> 'h list \<Rightarrow> 'h factory" where
  "HttpServerFactory_CreateFactory = CreateFactory HttpServerFactory"

definition HttpServerFactory_GetDefaultFactory :: "'h factory option \<Rightarrow> 'h list \<Rightarrow> 'h factory" where
  "HttpServerFactory_GetDefaultFactory stat io_group =
     (case stat of Some f \<Rightarrow> f | None \<Rightarrow> CreateFactory HttpServerFactory ''http_server'' io_group)"

definition HttpServerFactory_GetType :: string where
  "HttpServerFactory_GetType = ''http_server''"

definition HttpServerFactory_CreateInstance :: "'h factory \<Rightarrow> service_config \<Rightarrow> 'h service" where
  "HttpServerFactory_CreateInstance f config = new_TcpServiceBase HTTP_SERVER config (fac_io_group f)"

lemmas class_defs =
  TcpServerFactory_CreateFactory_def TcpServerFactory_GetDefaultFactory_def TcpServerFactory_GetType_def
  TcpServerFactory_CreateInstance_def TcpClientFactory_CreateFactory_def TcpClientFactory_GetDefaultFactory_def
  TcpClientFactory_GetType_def TcpClientFactory_CreateInstance_def TcpClientGroupFactory_GetType_def
  TcpClientGroupFactory_CreateInstance_def HttpServerFactory_CreateFactory_def HttpServerFactory_GetType_def
  HttpServerFactory_CreateInstance_def new_TcpServiceBase_def SetChildPipeline_def

paragraph \<open>The virtual calls\<close>

fun factory_GetType :: "factory_kind \<Rightarrow> string" where
  "factory_GetType TcpServerFactory = TcpServerFactory_GetType"
| "factory_GetType TcpClientFactory = TcpClientFactory_GetType"
| "factory_GetType TcpClientGroupFactory = TcpClientGroupFactory_GetType"
| "factory_GetType HttpServerFactory = HttpServerFactory_GetType"

definition factory_CreateInstance :: "'h factory \<Rightarrow> service_config \<Rightarrow> 'h service" where
  "factory_CreateInstance f config =
     (case fac_kind f of
        TcpServerFactory \<Rightarrow> TcpServerFactory_CreateInstance f config
      | TcpClientFactory \<Rightarrow> TcpClientFactory_CreateInstance f config
      | TcpClientGroupFactory \<Rightarrow> TcpClientGroupFactory_CreateInstance f config
      | HttpServerFactory \<Rightarrow> HttpServerFactory_CreateInstance f config)"

text \<open>\<open>CreateTcpServiceFactory\<close>: the null pointer is \<open>None\<close>.\<close>

definition CreateTcpServiceFactory :: "string \<Rightarrow> string \<Rightarrow> 'h list \<Rightarrow> 'h factory option" where
  "CreateTcpServiceFactory name type io_group =
     (if type = ''tcp_server'' then Some (TcpServerFactory_CreateFactory name io_group)
      else if type = ''tcp_client'' then Some (TcpClientFactory_CreateFactory name io_group)
      else if type = ''http_server'' then Some (HttpServerFactory_CreateFactory name io_group)
      else None)"

text \<open>\<open>ServiceFactoryManager\<close>.\<close>

definition FactoryManager_Register :: "'h factory list \<Rightarrow> 'h factory \<Rightarrow> 'h factory list" where
  "FactoryManager_Register fs f = fs @ [f]"

fun FactoryManager_CreateService :: "'h factory list \<Rightarrow> service_config \<Rightarrow> 'h service option" where
  "FactoryManager_CreateService [] config = None"
| "FactoryManager_CreateService (f # fs) config =
     (if factory_GetType (fac_kind f) = service_type config \<and> fac_name f = service_name config
      then Some (factory_CreateInstance f config)
      else FactoryManager_CreateService fs config)"

section \<open>\<open>ServiceManager\<close>\<close>

text \<open>
  The singleton with the factory manager it uses, the two function-local default factories,
  and the references of the services whose \<open>Start\<close> was called.
\<close>

record ('h, 'e, 'p) service_mgr =
  sm_services :: "string \<rightharpoonup> nat"
  sm_thread_groups :: "('h, 'e, 'p) tg_manager option"
  sm_service_configs :: "service_config list"
  sm_factories :: "'h factory list"
  sm_default_server :: "'h factory option"
  sm_default_client :: "'h factory option"
  sm_store :: "nat \<rightharpoonup> 'h service"
  sm_next :: nat
  sm_started :: "nat list"

definition new_ServiceManager :: "('h, 'e, 'p) service_mgr" where
  "new_ServiceManager =
     \<lparr>sm_services = Map.empty, sm_thread_groups = None, sm_service_configs = [], sm_factories = [],
      sm_default_server = None, sm_default_client = None, sm_store = Map.empty, sm_next = 0, sm_started = []\<rparr>"

text \<open>\<open>GetDefaultFactory\<close> is initialised by its first call and keeps that pool.\<close>

definition set_thread_groups ::
  "('h, 'e, 'p) service_mgr \<Rightarrow> ('h, 'e, 'p) tg_manager \<Rightarrow> ('h, 'e, 'p) service_mgr res" where
  "set_thread_groups s tg =
     rbind (GetIOThreadPoolExecutor tg CONN_ACCEPT) (\<lambda>acc.
     rbind (GetIOThreadPoolExecutor tg CONN_CLIENT) (\<lambda>conn.
       let s1 = s\<lparr>sm_thread_groups := Some tg\<rparr>;
           s2 = (case acc of
                   None \<Rightarrow> s1
                 | Some pool \<Rightarrow>
                     let f = TcpServerFactory_GetDefaultFactory (sm_default_server s1) pool
                     in s1\<lparr>sm_default_server := Some f, sm_factories := FactoryManager_Register (sm_factories s1) f\<rparr>);
           s3 = (case conn of
                   None \<Rightarrow> s2
                 | Some pool \<Rightarrow>
                     let f = TcpClientFactory_GetDefaultFactory (sm_default_client s2) pool
                     in s2\<lparr>sm_default_client := Some f, sm_factories := FactoryManager_Register (sm_factories s2) f\<rparr>)
       in Inr s3))"

text \<open>Which factory a type name asks for, and from which group of threads.\<close>

definition factory_for :: "string \<Rightarrow> ((string \<Rightarrow> 'h list \<Rightarrow> 'h factory) \<times> thread_type) option" where
  "factory_for type =
     (if type = ''tcp_server'' then Some (TcpServerFactory_CreateFactory, CONN_ACCEPT)
      else if type = ''tcp_client'' then Some (TcpClientFactory_CreateFactory, CONN_CLIENT)
      else if type = ''http_server'' then Some (HttpServerFactory_CreateFactory, CONN_ACCEPT)
      else None)"

definition RegisterServiceFactory ::
  "('h, 'e, 'p) service_mgr \<Rightarrow> string \<Rightarrow> string \<Rightarrow> ('h, 'e, 'p) service_mgr res" where
  "RegisterServiceFactory s name type =
     (case factory_for type of
        None \<Rightarrow> Inr s
      | Some (k, t) \<Rightarrow>
          (case sm_thread_groups s of
             None \<Rightarrow> Inl NullDeref
           | Some tg \<Rightarrow> rbind (GetIOThreadPoolExecutor tg t) (\<lambda>io_group.
               case io_group of
                 None \<Rightarrow> Inr s
               | Some pool \<Rightarrow>
                   Inr (s\<lparr>sm_factories := FactoryManager_Register (sm_factories s) (k name pool)\<rparr>))))"

definition SetupService :: "('h, 'e, 'p) service_mgr \<Rightarrow> service_config list \<Rightarrow> ('h, 'e, 'p) service_mgr" where
  "SetupService s configs = s\<lparr>sm_service_configs := configs\<rparr>"

definition Lookup :: "('h, 'e, 'p) service_mgr \<Rightarrow> string \<Rightarrow> nat option" where
  "Lookup s name = sm_services s name"

text \<open>What the manager of the threads answers, through the pointer to it.\<close>

definition ServiceManager_GetEventBaseByThreadType ::
  "(u32 \<Rightarrow> u32) \<Rightarrow> ('h, 'e, 'p) service_mgr \<Rightarrow> thread_type \<Rightarrow> 'e option res" where
  "ServiceManager_GetEventBaseByThreadType rand32 s t =
     (case sm_thread_groups s of None \<Rightarrow> Inl NullDeref | Some tg \<Rightarrow> GetEventBaseByThreadType rand32 tg t)"

definition ServiceManager_GetEventBaseByThreadID ::
  "('h, 'e, 'p) service_mgr \<Rightarrow> u64 \<Rightarrow> 'e option res" where
  "ServiceManager_GetEventBaseByThreadID s idx =
     (case sm_thread_groups s of None \<Rightarrow> Inl NullDeref | Some tg \<Rightarrow> GetEventBaseByThreadID tg idx)"

definition ServiceManager_GetIOThreadPoolExecutor ::
  "('h, 'e, 'p) service_mgr \<Rightarrow> thread_type \<Rightarrow> 'h list option res" where
  "ServiceManager_GetIOThreadPoolExecutor s t =
     (case sm_thread_groups s of None \<Rightarrow> Inl NullDeref | Some tg \<Rightarrow> GetIOThreadPoolExecutor tg t)"

definition ServiceManager_GetThreadGroupByThreadType ::
  "('h, 'e, 'p) service_mgr \<Rightarrow> thread_type \<Rightarrow> 'h thread_group option res" where
  "ServiceManager_GetThreadGroupByThreadType s t =
     (case sm_thread_groups s of None \<Rightarrow> Inl NullDeref | Some tg \<Rightarrow> GetThreadGroupByThreadType tg t)"

definition ServiceManager_thread_datas_size ::
  "('h, 'e, 'p) service_mgr \<Rightarrow> u64 res" where
  "ServiceManager_thread_datas_size s =
     (case sm_thread_groups s of None \<Rightarrow> Inl NullDeref | Some tg \<Rightarrow> Inr (word_of_nat (length (thread_datas tg))))"

definition ServiceManager_thread_datas ::
  "('h, 'e, 'p) service_mgr \<Rightarrow> u64 \<Rightarrow> 'e thread_data res" where
  "ServiceManager_thread_datas s i =
     (case sm_thread_groups s of None \<Rightarrow> Inl NullDeref | Some tg \<Rightarrow> vec_at (thread_datas tg) i)"

definition add_object :: "('h, 'e, 'p) service_mgr \<Rightarrow> 'h service \<Rightarrow> nat \<times> ('h, 'e, 'p) service_mgr" where
  "add_object s o' = (sm_next s, s\<lparr>sm_store := (sm_store s)(sm_next s \<mapsto> o'), sm_next := Suc (sm_next s)\<rparr>)"

text \<open>\<open>TcpClientGroup::RegisterTcpClient\<close> together with \<open>set_tcp_client_group\<close>.\<close>

definition RegisterTcpClient :: "('h, 'e, 'p) service_mgr \<Rightarrow> nat \<Rightarrow> nat \<Rightarrow> ('h, 'e, 'p) service_mgr" where
  "RegisterTcpClient s g c =
     s\<lparr>sm_store := (\<lambda>r. if r = g then map_option (\<lambda>o'. o'\<lparr>sv_clients := sv_clients o' @ [c]\<rparr>) (sm_store s r)
                       else if r = c then map_option (\<lambda>o'. o'\<lparr>sv_group := Some g\<rparr>) (sm_store s r)
                       else sm_store s r)\<rparr>"

text \<open>
  \<open>RegisterServiceBase\<close>: clients of one name form a group, every other type must have a name
  of its own. A duplicate and an unknown type end the process.
\<close>

definition RegisterServiceBase ::
  "('h, 'e, 'p) service_mgr \<Rightarrow> nat \<Rightarrow> 'h service \<Rightarrow> (('h, 'e, 'p) service_mgr \<times> bool) res" where
  "RegisterServiceBase s r service =
     (let name = service_name (sv_config service); type = service_type (sv_config service)
      in if type = ''tcp_client'' then
           (case sm_services s name of
              Some g \<Rightarrow>
                (case sm_store s g of
                   None \<Rightarrow> Inl UseAfterFree
                 | Some gs \<Rightarrow>
                     if sv_module gs = TCP_CLIENT_GROUP \<and> type = service_type (sv_config gs)
                     then Inr (RegisterTcpClient s g r, True)
                     else Inl LogFatal)
            | None \<Rightarrow>
                (case sm_thread_groups s of
                   None \<Rightarrow> Inl NullDeref
                 | Some tg \<Rightarrow> rbind (GetIOThreadPoolExecutor tg CONN_CLIENT) (\<lambda>pool.
                     let (g, s1) = add_object s (new_TcpServiceBase TCP_CLIENT_GROUP (sv_config service)
                                     (case pool of Some p \<Rightarrow> p | None \<Rightarrow> []))
                     in Inr ((RegisterTcpClient s1 g r)\<lparr>sm_services := (sm_services s)(name \<mapsto> g)\<rparr>, True))))
         else if type \<in> {''tcp_server'', ''secure_tcp_server'', ''http_server''} then
           (case sm_services s name of
              None \<Rightarrow> Inr (s\<lparr>sm_services := (sm_services s)(name \<mapsto> r)\<rparr>, True)
            | Some _ \<Rightarrow> Inl LogFatal)
         else Inl LogFatal)"

text \<open>
  What the classes of services do behind their virtual functions: the outcome of the
  constructor that \<open>CreateInstance\<close> runs and of \<open>service->Start()\<close>. An exception ends the loop.
\<close>

record 'h service_impl =
  si_construct :: "'h service \<Rightarrow> unit res"
  si_start :: "'h service \<Rightarrow> unit res"

abbreviation starting :: "('h service \<Rightarrow> unit res) \<Rightarrow> 'h service_impl" where
  "starting start \<equiv> \<lparr>si_construct = (\<lambda>_. Inr ()), si_start = start\<rparr>"

fun Start_loop ::
  "'h service_impl \<Rightarrow> service_config list \<Rightarrow> ('h, 'e, 'p) service_mgr \<Rightarrow> ('h, 'e, 'p) service_mgr res" where
  "Start_loop start [] s = Inr s"
| "Start_loop start (config # configs) s =
     (case FactoryManager_CreateService (sm_factories s) config of
        None \<Rightarrow> Start_loop start configs s
      | Some service \<Rightarrow> rbind (si_construct start service) (\<lambda>_.
          let (r, s1) = add_object s service
          in rbind (RegisterServiceBase s1 r service) (\<lambda>(s2, ok).
               if ok then rbind (si_start start service) (\<lambda>_.
                 Start_loop start configs (s2\<lparr>sm_started := sm_started s2 @ [r]\<rparr>))
               else Start_loop start configs s2)))"

definition ServiceManager_Start ::
  "'h service_impl \<Rightarrow> ('h, 'e, 'p) service_mgr \<Rightarrow> (('h, 'e, 'p) service_mgr \<times> bool) res" where
  "ServiceManager_Start start s = rbind (Start_loop start (sm_service_configs s) s) (\<lambda>s'. Inr (s', True))"

text \<open>
  \<open>Stop\<close> goes over the registry in the order of a hash table, so its effect is the set of the
  services stopped; stopping a group stops its clients.
\<close>

definition stop_targets :: "('h, 'e, 'p) service_mgr \<Rightarrow> nat \<Rightarrow> nat set" where
  "stop_targets s r =
     (case sm_store s r of
        None \<Rightarrow> {}
      | Some sv \<Rightarrow> if sv_module sv = TCP_CLIENT_GROUP then set (sv_clients sv) else {r})"

definition ServiceManager_Stop :: "('h, 'e, 'p) service_mgr \<Rightarrow> nat set" where
  "ServiceManager_Stop s = (\<Union>r \<in> ran (sm_services s). stop_targets s r)"

section \<open>Sending through a group\<close>

definition GetOnlineClients :: "'h service \<Rightarrow> nat list" where
  "GetOnlineClients g = sv_clients g"

text \<open>\<open>Start\<close> and \<open>Stop\<close> of a group call those of its clients.\<close>

definition TcpClientGroup_Start :: "'h service \<Rightarrow> nat list \<times> bool" where
  "TcpClientGroup_Start g = (sv_clients g, True)"

definition TcpClientGroup_Stop :: "'h service \<Rightarrow> nat list \<times> bool" where
  "TcpClientGroup_Stop g = (sv_clients g, True)"

text \<open>
  The clients whose \<open>SendIOBufThreadSafe\<close> is called; \<open>online\<close> is the client's flag \<open>connected_\<close>,
  \<open>rand32(n)\<close> an argument.
\<close>

definition TcpClientGroup_SendIOBuf ::
  "(u32 \<Rightarrow> u32) \<Rightarrow> (nat \<Rightarrow> bool) \<Rightarrow> 'h service \<Rightarrow> dispatch_strategy \<Rightarrow> (nat list \<times> bool) res" where
  "TcpClientGroup_SendIOBuf rand32 online g strategy =
     (let onlines = GetOnlineClients g
      in if onlines = [] then Inr ([], False)
         else case strategy of
           kBroadCast \<Rightarrow> Inr (filter online onlines, True)
         | _ \<Rightarrow> rbind (vec_at onlines (ucast (rand32 (word_of_nat (length onlines))))) (\<lambda>c. Inr ([c], True)))"

definition ServiceManager_SendIOBuf_name ::
  "(u32 \<Rightarrow> u32) \<Rightarrow> (nat \<Rightarrow> bool) \<Rightarrow> ('h, 'e, 'p) service_mgr \<Rightarrow> string \<Rightarrow> dispatch_strategy \<Rightarrow> (nat list \<times> bool) res" where
  "ServiceManager_SendIOBuf_name rand32 online s name strategy =
     (case Lookup s name of
        None \<Rightarrow> Inr ([], False)
      | Some r \<Rightarrow>
          (case sm_store s r of
             None \<Rightarrow> Inl UseAfterFree
           | Some sv \<Rightarrow>
               if sv_module sv = TCP_CLIENT_GROUP
               then TcpClientGroup_SendIOBuf rand32 online sv strategy
               else Inr ([], False)))"

text \<open>The variants with a completion function always draw one client.\<close>

definition TcpClientGroup_SendIOBuf_callback :: "(u32 \<Rightarrow> u32) \<Rightarrow> 'h service \<Rightarrow> (nat list \<times> bool) res" where
  "TcpClientGroup_SendIOBuf_callback rand32 g =
     (let onlines = GetOnlineClients g
      in if onlines = [] then Inr ([], False)
         else rbind (vec_at onlines (ucast (rand32 (word_of_nat (length onlines))))) (\<lambda>c. Inr ([c], True)))"

definition ServiceManager_SendIOBuf_callback ::
  "(u32 \<Rightarrow> u32) \<Rightarrow> ('h, 'e, 'p) service_mgr \<Rightarrow> string \<Rightarrow> (nat list \<times> bool) res" where
  "ServiceManager_SendIOBuf_callback rand32 s name =
     (case Lookup s name of
        None \<Rightarrow> Inr ([], False)
      | Some r \<Rightarrow>
          (case sm_store s r of
             None \<Rightarrow> Inl UseAfterFree
           | Some sv \<Rightarrow>
               if sv_module sv = TCP_CLIENT_GROUP
               then TcpClientGroup_SendIOBuf_callback rand32 sv
               else Inr ([], False)))"

section \<open>\<open>ServiceRouterManager\<close>\<close>

text \<open>
  The older manager: it has its own factories, and its \<open>RegisterServiceBase\<close> only logs a
  \<open>tcp_client\<close>.
\<close>

record 'h router =
  rt_services :: "string \<rightharpoonup> nat"
  rt_factories :: "'h factory list"
  rt_service_configs :: "service_config list"
  rt_store :: "nat \<rightharpoonup> 'h service"
  rt_next :: nat
  rt_started :: "nat list"

text \<open>\<open>server\<close> and \<open>client\<close> are the default factories, if some earlier call has created them.\<close>

definition new_ServiceRouterManager :: "'h factory option \<Rightarrow> 'h factory option \<Rightarrow> 'h list \<Rightarrow> 'h router" where
  "new_ServiceRouterManager server client pool =
     \<lparr>rt_services = Map.empty,
      rt_factories = [TcpServerFactory_GetDefaultFactory server pool, TcpClientFactory_GetDefaultFactory client pool],
      rt_service_configs = [], rt_store = Map.empty, rt_next = 0, rt_started = []\<rparr>"

definition Router_Initialize :: "'h router \<Rightarrow> service_config list \<Rightarrow> 'h router" where
  "Router_Initialize s conf = s\<lparr>rt_service_configs := conf\<rparr>"

definition Router_RegisterServiceFactory :: "'h router \<Rightarrow> 'h factory \<Rightarrow> 'h router" where
  "Router_RegisterServiceFactory s f = s\<lparr>rt_factories := FactoryManager_Register (rt_factories s) f\<rparr>"

definition Router_RegisterServiceBase :: "'h router \<Rightarrow> nat \<Rightarrow> 'h service \<Rightarrow> ('h router \<times> bool) res" where
  "Router_RegisterServiceBase s r service =
     (let name = service_name (sv_config service); type = service_type (sv_config service)
      in if type = ''tcp_client'' then Inr (s, False)
         else if type = ''tcp_server'' \<or> type = ''http_server'' then
           (case rt_services s name of
              None \<Rightarrow> Inr (s\<lparr>rt_services := (rt_services s)(name \<mapsto> r)\<rparr>, True)
            | Some _ \<Rightarrow> Inl LogFatal)
         else Inl LogFatal)"

fun Router_Start_loop :: "'h service_impl \<Rightarrow> service_config list \<Rightarrow> 'h router \<Rightarrow> 'h router res" where
  "Router_Start_loop start [] s = Inr s"
| "Router_Start_loop start (config # configs) s =
     (case FactoryManager_CreateService (rt_factories s) config of
        None \<Rightarrow> Router_Start_loop start configs s
      | Some service \<Rightarrow> rbind (si_construct start service) (\<lambda>_.
          let r = rt_next s; s1 = s\<lparr>rt_store := (rt_store s)(r \<mapsto> service), rt_next := Suc r\<rparr>
          in rbind (Router_RegisterServiceBase s1 r service) (\<lambda>(s2, ok).
               if ok then rbind (si_start start service) (\<lambda>_.
                 Router_Start_loop start configs (s2\<lparr>rt_started := rt_started s2 @ [r]\<rparr>))
               else Router_Start_loop start configs s2)))"

definition Router_Start :: "'h service_impl \<Rightarrow> 'h router \<Rightarrow> ('h router \<times> bool) res" where
  "Router_Start start s = rbind (Router_Start_loop start (rt_service_configs s) s) (\<lambda>s'. Inr (s', True))"

definition Router_Stop :: "'h router \<Rightarrow> nat set" where
  "Router_Stop s = ran (rt_services s)"

section \<open>The registry after \<open>Start\<close>\<close>

definition cfg_of :: "('h, 'e, 'p) service_mgr \<Rightarrow> nat \<Rightarrow> service_config option" where
  "cfg_of s r = map_option sv_config (sm_store s r)"

definition mod_of :: "('h, 'e, 'p) service_mgr \<Rightarrow> nat \<Rightarrow> module_type option" where
  "mod_of s r = map_option sv_module (sm_store s r)"

definition clients_of :: "('h, 'e, 'p) service_mgr \<Rightarrow> nat \<Rightarrow> nat list" where
  "clients_of s r = (case sm_store s r of Some o' \<Rightarrow> sv_clients o' | None \<Rightarrow> [])"

lemmas view_defs = cfg_of_def mod_of_def clients_of_def

text \<open>The configurations for which a factory exists.\<close>

definition created :: "'h factory list \<Rightarrow> service_config list \<Rightarrow> service_config list" where
  "created fs cs = filter (\<lambda>c. FactoryManager_CreateService fs c \<noteq> None) cs"

definition group_ok :: "('h, 'e, 'p) service_mgr \<Rightarrow> nat \<Rightarrow> string \<Rightarrow> service_config list \<Rightarrow> bool" where
  "group_ok s g n L \<longleftrightarrow>
     L \<noteq> [] \<and> (\<forall>c \<in> set L. service_type c = ''tcp_client'') \<and> mod_of s g = Some TCP_CLIENT_GROUP \<and>
     (\<exists>c. cfg_of s g = Some c \<and> service_type c = ''tcp_client'' \<and> service_name c = n) \<and>
     map (cfg_of s) (clients_of s g) = map Some L \<and> (\<forall>r \<in> set (clients_of s g). r < sm_next s)"

definition single_ok :: "('h, 'e, 'p) service_mgr \<Rightarrow> nat \<Rightarrow> string \<Rightarrow> service_config list \<Rightarrow> bool" where
  "single_ok s g n L \<longleftrightarrow>
     (\<exists>c. L = [c] \<and> service_type c \<noteq> ''tcp_client'' \<and> service_name c = n \<and> cfg_of s g = Some c \<and>
        mod_of s g \<noteq> Some TCP_CLIENT_GROUP)"

definition name_ok :: "('h, 'e, 'p) service_mgr \<Rightarrow> string \<Rightarrow> service_config list \<Rightarrow> bool" where
  "name_ok s n L \<longleftrightarrow>
     (case sm_services s n of
        None \<Rightarrow> L = [] | Some g \<Rightarrow> g < sm_next s \<and> (group_ok s g n L \<or> single_ok s g n L))"

definition reg_ok :: "service_config list \<Rightarrow> ('h, 'e, 'p) service_mgr \<Rightarrow> bool" where
  "reg_ok cs s \<longleftrightarrow>
     (\<forall>r. sm_store s r \<noteq> None \<longleftrightarrow> r < sm_next s) \<and>
     (\<forall>n. name_ok s n (filter (\<lambda>c. service_name c = n) cs)) \<and>
     map (cfg_of s) (sm_started s) = map Some cs \<and> (\<forall>r \<in> set (sm_started s). r < sm_next s)"

lemma CreateService_result:
  assumes "FactoryManager_CreateService fs c = Some sv"
  shows "sv_config sv = c" "service_type c \<noteq> ''tcp_client'' \<Longrightarrow> sv_module sv \<noteq> TCP_CLIENT_GROUP"
    "service_type c \<in> {''tcp_server'', ''tcp_client'', ''http_server''}"
proof -
  obtain f where "f \<in> set fs" "factory_GetType (fac_kind f) = service_type c" "sv = factory_CreateInstance f c"
    using assms by (induction fs) (auto split: if_splits)
  then show "sv_config sv = c" "service_type c \<noteq> ''tcp_client'' \<Longrightarrow> sv_module sv \<noteq> TCP_CLIENT_GROUP"
    "service_type c \<in> {''tcp_server'', ''tcp_client'', ''http_server''}"
    by (cases "fac_kind f"; auto simp: factory_CreateInstance_def class_defs)+
qed

lemma RegisterTcpClient_views:
  "cfg_of (RegisterTcpClient s g c) = cfg_of s"
  "mod_of (RegisterTcpClient s g c) = mod_of s"
  "sm_store s g \<noteq> None \<Longrightarrow> clients_of (RegisterTcpClient s g c) r = (if r = g then clients_of s g @ [c] else clients_of s r)"
  "sm_services (RegisterTcpClient s g c) = sm_services s" "sm_next (RegisterTcpClient s g c) = sm_next s"
  "sm_started (RegisterTcpClient s g c) = sm_started s" "sm_factories (RegisterTcpClient s g c) = sm_factories s"
  "(sm_store (RegisterTcpClient s g c) r \<noteq> None) = (sm_store s r \<noteq> None)"
  by (auto simp: RegisterTcpClient_def view_defs fun_eq_iff option.map_comp comp_def split: option.splits)

lemma views_upd [simp]:
  "cfg_of (s\<lparr>sm_services := m\<rparr>) = cfg_of s" "mod_of (s\<lparr>sm_services := m\<rparr>) = mod_of s"
  "clients_of (s\<lparr>sm_services := m\<rparr>) = clients_of s"
  "cfg_of (s\<lparr>sm_started := l\<rparr>) = cfg_of s" "mod_of (s\<lparr>sm_started := l\<rparr>) = mod_of s"
  "clients_of (s\<lparr>sm_started := l\<rparr>) = clients_of s"
  by (simp_all add: view_defs fun_eq_iff)

text \<open>Two states whose objects below the old limit look the same agree on a name.\<close>

lemma name_ok_frame:
  assumes "name_ok s n L" "sm_services s' n = sm_services s n" "sm_next s \<le> sm_next s'"
    and "\<And>r. r < sm_next s \<Longrightarrow> cfg_of s' r = cfg_of s r \<and> mod_of s' r = mod_of s r"
    and "\<And>g. sm_services s n = Some g \<Longrightarrow> clients_of s' g = clients_of s g"
  shows "name_ok s' n L"
proof (cases "sm_services s n")
  case None
  then show ?thesis using assms(1,2) by (simp add: name_ok_def)
next
  case (Some g)
  then have g: "g < sm_next s" "group_ok s g n L \<or> single_ok s g n L" using assms(1) by (auto simp: name_ok_def)
  have "group_ok s' g n L" if "group_ok s g n L"
  proof -
    have "map (cfg_of s') (clients_of s g) = map (cfg_of s) (clients_of s g)"
      using that assms(4) by (intro map_cong refl) (simp add: group_ok_def)
    then have "map (cfg_of s') (clients_of s' g) = map Some L"
      using that assms(5) [OF Some] by (metis group_ok_def)
    moreover have "\<forall>r \<in> set (clients_of s' g). r < sm_next s'"
      using that assms(3) assms(5) [OF Some] by (auto simp: group_ok_def)
    ultimately show ?thesis using that assms(4) [OF g(1)] by (simp add: group_ok_def)
  qed
  moreover have "single_ok s' g n L" if "single_ok s g n L"
    using that assms(4) [OF g(1)] by (auto simp: single_ok_def)
  ultimately show ?thesis using g Some assms(2,3) by (auto simp: name_ok_def)
qed

lemma name_ok_cfg_name:
  "name_ok s n L \<Longrightarrow> sm_services s n = Some g \<Longrightarrow> \<exists>c. cfg_of s g = Some c \<and> service_name c = n"
  by (auto simp: name_ok_def group_ok_def single_ok_def)

text \<open>A new object changes nothing that is already there.\<close>

lemma add_object_views:
  assumes "add_object s x = (r, s')" "\<forall>r. sm_store s r \<noteq> None \<longleftrightarrow> r < sm_next s"
  shows "r = sm_next s" "sm_next s' = Suc r" "sm_services s' = sm_services s" "sm_started s' = sm_started s"
    "sm_factories s' = sm_factories s" "sm_thread_groups s' = sm_thread_groups s"
    "cfg_of s' = (cfg_of s)(r \<mapsto> sv_config x)" "mod_of s' = (mod_of s)(r \<mapsto> sv_module x)"
    "clients_of s' = (clients_of s)(r := sv_clients x)"
    "\<forall>r. sm_store s' r \<noteq> None \<longleftrightarrow> r < sm_next s'"
proof -
  have s': "r = sm_next s" "s' = s\<lparr>sm_store := (sm_store s)(r \<mapsto> x), sm_next := Suc r\<rparr>"
    using assms(1) by (auto simp: add_object_def)
  show "r = sm_next s" "sm_next s' = Suc r" "sm_services s' = sm_services s" "sm_started s' = sm_started s"
    "sm_factories s' = sm_factories s" "sm_thread_groups s' = sm_thread_groups s"
    "cfg_of s' = (cfg_of s)(r \<mapsto> sv_config x)" "mod_of s' = (mod_of s)(r \<mapsto> sv_module x)"
    "clients_of s' = (clients_of s)(r := sv_clients x)"
    by (simp_all add: s' view_defs fun_eq_iff)
  show "\<forall>r. sm_store s' r \<noteq> None \<longleftrightarrow> r < sm_next s'"
    using assms(2) s' by (auto simp: less_Suc_eq)
qed

text \<open>The state a registration leads to, and the new entry of the registry.\<close>

lemma RegisterServiceBase_cases:
  assumes "RegisterServiceBase s r sv = Inr (s', ok)"
  obtains (join) g gs where "service_type (sv_config sv) = ''tcp_client''" "ok"
      "sm_services s (service_name (sv_config sv)) = Some g" "sm_store s g = Some gs"
      "sv_module gs = TCP_CLIENT_GROUP" "s' = RegisterTcpClient s g r"
  | (fresh_group) g s1 x where "service_type (sv_config sv) = ''tcp_client''" "ok"
      "sm_services s (service_name (sv_config sv)) = None" "add_object s x = (g, s1)"
      "sv_module x = TCP_CLIENT_GROUP" "sv_config x = sv_config sv" "sv_clients x = []"
      "s' = (RegisterTcpClient s1 g r)\<lparr>sm_services := (sm_services s)(service_name (sv_config sv) \<mapsto> g)\<rparr>"
      "\<exists>tg pool. sm_thread_groups s = Some tg \<and> GetIOThreadPoolExecutor tg CONN_CLIENT = Inr pool \<and>
         sv_io_group x = (case pool of Some p \<Rightarrow> p | None \<Rightarrow> [])"
  | (single) "service_type (sv_config sv) \<noteq> ''tcp_client''" "ok"
      "sm_services s (service_name (sv_config sv)) = None"
      "s' = s\<lparr>sm_services := (sm_services s)(service_name (sv_config sv) \<mapsto> r)\<rparr>"
proof -
  let ?n = "service_name (sv_config sv)" and ?t = "service_type (sv_config sv)"
  consider (a) g where "?t = ''tcp_client''" "sm_services s ?n = Some g"
    | (b) "?t = ''tcp_client''" "sm_services s ?n = None" | (c) "?t \<noteq> ''tcp_client''"
    by (cases "sm_services s ?n") auto
  then show ?thesis
  proof cases
    case (a g)
    then show ?thesis
      using assms by (auto simp: RegisterServiceBase_def Let_def split: option.splits if_splits intro: join)
  next
    case b
    let ?x = "\<lambda>pool. new_TcpServiceBase TCP_CLIENT_GROUP (sv_config sv) (case pool of Some p \<Rightarrow> p | None \<Rightarrow> [])"
    obtain tg where tg: "sm_thread_groups s = Some tg"
      using assms b by (cases "sm_thread_groups s") (auto simp: RegisterServiceBase_def Let_def)
    from assms b tg obtain pool where pool: "GetIOThreadPoolExecutor tg CONN_CLIENT = Inr pool" and
      eq: "(case add_object s (?x pool) of (g, s1) \<Rightarrow>
         Inr ((RegisterTcpClient s1 g r)\<lparr>sm_services := (sm_services s)(?n \<mapsto> g)\<rparr>, True)) =
         (Inr (s', ok) :: (('a, 'b, 'c) service_mgr \<times> bool) res)"
      by (auto simp: RegisterServiceBase_def Let_def rbind_eq_Inr_iff)
    moreover obtain g s1 where "add_object s (?x pool) = (g, s1)" by fastforce
    ultimately show ?thesis
      using b tg pool by (intro fresh_group [of "?x pool" g s1]) (auto simp: new_TcpServiceBase_def)
  next
    case c
    then show ?thesis
      using assms by (auto simp: RegisterServiceBase_def Let_def split: option.splits if_splits intro: single)
  qed
qed

lemma filter_snoc_name:
  "filter (\<lambda>c. service_name c = n) (cs @ [c]) =
     (if service_name c = n then filter (\<lambda>c. service_name c = n) cs @ [c] else filter (\<lambda>c. service_name c = n) cs)"
  by simp

text \<open>One registration, with the new service \<open>r\<close> already in the store.\<close>

lemma reg_ok_names:
  assumes ok: "reg_ok cs s" and add: "add_object s sv = (r, s1)"
    and reg: "RegisterServiceBase s1 r sv = Inr (s', b)"
    and sv: "service_type (sv_config sv) \<noteq> ''tcp_client'' \<Longrightarrow> sv_module sv \<noteq> TCP_CLIENT_GROUP" "sv_clients sv = []"
  shows "name_ok s' n (filter (\<lambda>c. service_name c = n) (cs @ [sv_config sv]))"
proof -
  let ?L = "\<lambda>n. filter (\<lambda>c. service_name c = n) cs" and ?m = "service_name (sv_config sv)"
  have st: "\<forall>r. sm_store s r \<noteq> None \<longleftrightarrow> r < sm_next s" and nm: "name_ok s k (?L k)" for k
    using ok by (auto simp: reg_ok_def)
  note a = add_object_views [OF add st]
  have old: "name_ok s1 k (?L k)" for k
    by (rule name_ok_frame [OF nm]) (use nm [of k] in \<open>auto simp: a name_ok_def\<close>)
  from reg show ?thesis
  proof (cases rule: RegisterServiceBase_cases)
    case (join g gs)
    have g: "g < r" using nm [of ?m] join(3) by (simp add: name_ok_def a)
    have v: "clients_of s' x = (if x = g then clients_of s1 g @ [r] else clients_of s1 x)" for x
      using join(4,6) by (simp add: RegisterTcpClient_views)
    note w = RegisterTcpClient_views(1,2,4,5) [of s1 g r, folded join(6)]
    show ?thesis
    proof (cases "n = ?m")
      case False
      have "name_ok s' n (?L n)"
      proof (rule name_ok_frame [OF old])
        fix h assume "sm_services s1 n = Some h"
        from name_ok_cfg_name [OF old this] name_ok_cfg_name [OF old join(3)] False
        have "h \<noteq> g" by auto
        then show "clients_of s' h = clients_of s1 h" by (simp add: v)
      qed (simp_all add: w)
      then show ?thesis using False by (simp add: filter_snoc_name)
    next
      case True
      have "group_ok s1 g n (?L n) \<or> single_ok s1 g n (?L n)" using old [of n] join(3) True by (simp add: name_ok_def)
      moreover have "mod_of s1 g = Some TCP_CLIENT_GROUP" using join(4,5) by (simp add: mod_of_def)
      ultimately have "group_ok s1 g n (?L n)" by (auto simp: single_ok_def)
      then have "group_ok s' g n (?L n @ [sv_config sv])"
        using join(1) by (auto simp: group_ok_def v w a)
      then show ?thesis using True join(3) g by (simp add: name_ok_def w a)
    qed
  next
    case (fresh_group g s2 x)
    note b = add_object_views [OF fresh_group(4) a(10)]
    have v: "clients_of s' y = (if y = g then [r] else clients_of s1 y)"
      "cfg_of s' = (cfg_of s1)(g \<mapsto> sv_config sv)" "mod_of s' = (mod_of s1)(g \<mapsto> TCP_CLIENT_GROUP)"
      "sm_services s' = (sm_services s1)(?m \<mapsto> g)" "sm_next s' = Suc g" for y
      using RegisterTcpClient_views [of s2 g r] b fresh_group(5-8) by simp_all
    show ?thesis
    proof (cases "n = ?m")
      case False
      have "name_ok s' n (?L n)"
        by (rule name_ok_frame [OF old])
           (use False old [of n] b(1) in \<open>auto simp: v name_ok_def\<close>)
      then show ?thesis using False by (simp add: filter_snoc_name)
    next
      case True
      have "?L n = []" using old [of n] fresh_group(3) True by (simp add: name_ok_def)
      moreover have "group_ok s' g n [sv_config sv]"
        using fresh_group(1) True a b(1) by (auto simp: group_ok_def v)
      ultimately show ?thesis using True by (simp add: name_ok_def v)
    qed
  next
    case single
    have v: "clients_of s' = clients_of s1" "cfg_of s' = cfg_of s1" "mod_of s' = mod_of s1"
      "sm_services s' = (sm_services s1)(?m \<mapsto> r)" "sm_next s' = sm_next s1"
      using single(4) by (auto simp: view_defs fun_eq_iff)
    show ?thesis
    proof (cases "n = ?m")
      case False
      have "name_ok s' n (?L n)" by (rule name_ok_frame [OF old]) (use False in \<open>simp_all add: v\<close>)
      then show ?thesis using False by (simp add: filter_snoc_name)
    next
      case True
      have "?L n = []" using old [of n] single(3) True by (simp add: name_ok_def)
      moreover have "single_ok s' r n [sv_config sv]"
        using single(1) True sv(1) by (auto simp: single_ok_def v a)
      ultimately show ?thesis using True by (simp add: name_ok_def v a)
    qed
  qed
qed

lemma RegisterServiceBase_frame:
  assumes "RegisterServiceBase s r sv = Inr (s', b)" "\<forall>r. sm_store s r \<noteq> None \<longleftrightarrow> r < sm_next s"
  shows "b \<and> sm_factories s' = sm_factories s \<and> sm_started s' = sm_started s \<and> sm_next s \<le> sm_next s' \<and>
    (\<forall>r. sm_store s' r \<noteq> None \<longleftrightarrow> r < sm_next s') \<and> (\<forall>x < sm_next s. cfg_of s' x = cfg_of s x)"
  using assms(1)
proof (cases rule: RegisterServiceBase_cases)
  case (join g gs)
  show ?thesis unfolding join(6) RegisterTcpClient_views using join(2) assms(2) by auto
next
  case (fresh_group g s1 y)
  note a = add_object_views [OF fresh_group(4) assms(2)]
  show ?thesis using fresh_group(2,8) a RegisterTcpClient_views [of s1 g r] by auto
qed (use assms(2) in auto)

lemma reg_ok_step:
  assumes ok: "reg_ok cs s" and new: "FactoryManager_CreateService fs c = Some sv"
    and add: "add_object s sv = (r, s1)" and reg: "RegisterServiceBase s1 r sv = Inr (s2, b)"
  shows "b \<and> sm_factories s2 = sm_factories s \<and> reg_ok (cs @ [c]) (s2\<lparr>sm_started := sm_started s2 @ [r]\<rparr>)"
proof -
  have st: "\<forall>r. sm_store s r \<noteq> None \<longleftrightarrow> r < sm_next s" using ok by (simp add: reg_ok_def)
  note a = add_object_views [OF add st]
  have f: "b" "sm_factories s2 = sm_factories s1" "sm_started s2 = sm_started s1" "sm_next s1 \<le> sm_next s2"
    "\<forall>r. sm_store s2 r \<noteq> None \<longleftrightarrow> r < sm_next s2" "x < sm_next s1 \<Longrightarrow> cfg_of s2 x = cfg_of s1 x" for x
    using RegisterServiceBase_frame [OF reg a(10)] by auto
  note c = CreateService_result [OF new]
  have cl: "sv_clients sv = []"
    using new by (induction fs) (auto simp: factory_CreateInstance_def class_defs split: if_splits factory_kind.splits)
  have n: "name_ok s2 n (filter (\<lambda>c. service_name c = n) (cs @ [c]))" for n
    using reg_ok_names [OF ok add reg] c(1,2) cl by simp
  have n': "name_ok (s2\<lparr>sm_started := sm_started s2 @ [r]\<rparr>) n L = name_ok s2 n L" for n L
    by (cases "sm_services s2 n") (simp_all add: name_ok_def group_ok_def single_ok_def)
  have "cfg_of s2 x = cfg_of s x" if "x < sm_next s" for x
    using that f(6) [of x] a(1,2,7) by simp
  then have "map (cfg_of s2) (sm_started s) = map (cfg_of s) (sm_started s)"
    using ok by (intro map_cong refl) (simp add: reg_ok_def)
  also have "\<dots> = map Some cs" using ok unfolding reg_ok_def by blast
  finally have "map (cfg_of s2) (sm_started s2) = map Some cs" unfolding f(3) a(4) .
  moreover have "cfg_of s2 r = Some c" using f(6) [of r] a(2,7) c(1) by simp
  ultimately have "map (cfg_of s2) (sm_started s2 @ [r]) = map Some (cs @ [c])" by simp
  moreover have "\<forall>x \<in> set (sm_started s2 @ [r]). x < sm_next s2"
  proof -
    have "\<forall>x \<in> set (sm_started s). x < sm_next s" using ok unfolding reg_ok_def by blast
    then show ?thesis using f(4) unfolding f(3) a(4) using a(1,2) by auto
  qed
  ultimately show ?thesis
    using n n' f(1,2,5) a(5) by (simp add: reg_ok_def)
qed

lemma Start_loop_reg_ok:
  assumes "reg_ok cs s" "Start_loop start configs s = Inr s'"
  shows "reg_ok (cs @ created (sm_factories s) configs) s'"
  using assms
proof (induction configs arbitrary: cs s)
  case (Cons c configs)
  show ?case
  proof (cases "FactoryManager_CreateService (sm_factories s) c")
    case None
    then show ?thesis using Cons by (simp add: created_def)
  next
    case (Some sv)
    obtain r s1 where add: "add_object s sv = (r, s1)" by fastforce
    from Cons.prems(2) Some add obtain s2 b where reg: "RegisterServiceBase s1 r sv = Inr (s2, b)"
      and rest: "Start_loop start configs (if b then s2\<lparr>sm_started := sm_started s2 @ [r]\<rparr> else s2) = Inr s'"
      by (auto simp: rbind_eq_Inr_iff split: if_splits)
    note st = reg_ok_step [OF Cons.prems(1) Some add reg]
    show ?thesis
      using Cons.IH [of "cs @ [c]" "s2\<lparr>sm_started := sm_started s2 @ [r]\<rparr>"] rest st Some by (simp add: created_def)
  qed
qed (simp add: created_def)

lemma reg_ok_new:
  assumes "sm_services s = Map.empty" "sm_store s = Map.empty" "sm_next s = 0" "sm_started s = []"
  shows "reg_ok [] s"
  using assms by (simp add: reg_ok_def name_ok_def)

lemma reg_ok_group:
  assumes "reg_ok cs s" "filter (\<lambda>c. service_name c = n) cs = L" "L \<noteq> []" "\<forall>c \<in> set L. service_type c = ''tcp_client''"
  obtains g gs where "Lookup s n = Some g" "sm_store s g = Some gs" "sv_module gs = TCP_CLIENT_GROUP"
    "map (cfg_of s) (sv_clients gs) = map Some L"
proof -
  have n: "name_ok s n L" using assms(1,2) by (auto simp: reg_ok_def)
  then obtain g where g: "sm_services s n = Some g" "g < sm_next s" "group_ok s g n L"
    using assms(3,4) by (auto simp: name_ok_def single_ok_def split: option.splits)
  then obtain gs where "sm_store s g = Some gs" using assms(1) unfolding reg_ok_def by (metis option.exhaust)
  with g show ?thesis by (intro that [of g gs]) (auto simp: Lookup_def group_ok_def view_defs)
qed

section \<open>The older manager\<close>

definition rt_cfg :: "'h router \<Rightarrow> nat \<Rightarrow> service_config option" where
  "rt_cfg s r = map_option sv_config (rt_store s r)"

definition rt_ok :: "service_config list \<Rightarrow> 'h router \<Rightarrow> bool" where
  "rt_ok cs s \<longleftrightarrow>
     map (rt_cfg s) (rt_started s) = map Some (filter (\<lambda>c. service_type c \<noteq> ''tcp_client'') cs) \<and>
     (\<forall>r \<in> set (rt_started s). r < rt_next s)"

lemma Router_Start_loop_ok:
  assumes "rt_ok cs s" "Router_Start_loop start configs s = Inr s'"
  shows "rt_ok (cs @ created (rt_factories s) configs) s'"
  using assms
proof (induction configs arbitrary: cs s)
  case (Cons c configs)
  show ?case
  proof (cases "FactoryManager_CreateService (rt_factories s) c")
    case None
    then show ?thesis using Cons by (simp add: created_def)
  next
    case (Some sv)
    note c = CreateService_result [OF Some]
    let ?r = "rt_next s" and ?s1 = "s\<lparr>rt_store := (rt_store s)(rt_next s \<mapsto> sv), rt_next := Suc (rt_next s)\<rparr>"
    from Cons.prems(2) Some obtain s2 b where reg: "Router_RegisterServiceBase ?s1 ?r sv = Inr (s2, b)"
      and rest: "Router_Start_loop start configs (if b then s2\<lparr>rt_started := rt_started s2 @ [?r]\<rparr> else s2) = Inr s'"
      by (auto simp: rbind_eq_Inr_iff Let_def split: if_splits)
    have b: "b \<longleftrightarrow> service_type c \<noteq> ''tcp_client''" and s2: "rt_store s2 = rt_store ?s1" "rt_next s2 = rt_next ?s1"
      "rt_started s2 = rt_started s" "rt_factories s2 = rt_factories s"
      using reg c(1) by (auto simp: Router_RegisterServiceBase_def Let_def split: if_splits option.splits)
    have lt: "\<forall>r \<in> set (rt_started s). r < rt_next s" using Cons.prems(1) unfolding rt_ok_def by blast
    then have "map (rt_cfg s2) (rt_started s) = map (rt_cfg s) (rt_started s)"
      by (intro map_cong refl) (auto simp: rt_cfg_def s2)
    also have "\<dots> = map Some (filter (\<lambda>c. service_type c \<noteq> ''tcp_client'') cs)"
      using Cons.prems(1) unfolding rt_ok_def by blast
    finally have old: "map (rt_cfg s2) (rt_started s) = map Some (filter (\<lambda>c. service_type c \<noteq> ''tcp_client'') cs)" .
    have up: "rt_cfg (s2\<lparr>rt_started := l\<rparr>) = rt_cfg s2" for l by (simp add: rt_cfg_def fun_eq_iff)
    have new: "rt_cfg s2 ?r = Some c" using c(1) by (simp add: rt_cfg_def s2)
    have "rt_ok (cs @ [c]) (if b then s2\<lparr>rt_started := rt_started s2 @ [?r]\<rparr> else s2)"
      using b lt old new by (cases b) (auto simp: rt_ok_def up s2 less_SucI)
    from Cons.IH [OF this rest] Some s2(4) show ?thesis by (auto simp: created_def split: if_splits)
  qed
qed (simp add: created_def)

text \<open>A manager for one server and two clients that share a name.\<close>

definition demo_config :: "string \<Rightarrow> string \<Rightarrow> service_config" where
  "demo_config name type =
     \<lparr>service_name = name, service_type = type, hosts = ''127.0.0.1'', port = 80, max_conn_cnt = 2\<rparr>"

definition demo_service_mgr :: "(nat \<times> nat, nat \<times> nat, string) service_mgr" where
  "demo_service_mgr = new_ServiceManager
     \<lparr>sm_thread_groups := Some (new_ThreadGroupListManager demo_pool id demo_options),
      sm_factories := [CreateFactory TcpServerFactory ''gate'' [(0, 0), (0, 1)],
                       CreateFactory TcpClientFactory ''db'' [(1, 0)]],
      sm_service_configs := [demo_config ''gate'' ''tcp_server'', demo_config ''db'' ''tcp_client'',
                             demo_config ''log'' ''tcp_client'', demo_config ''db'' ''tcp_client'']\<rparr>"

lemma vec_at_client: "length xs = 33 \<Longrightarrow> vec_at xs 4 = Inr (xs ! 4)"
  by (simp add: vec_at_def)

lemma demo_client_pool:
  "GetIOThreadPoolExecutor
     (new_ThreadGroupListManager demo_pool id demo_options :: (nat \<times> nat, nat \<times> nat, string) tg_manager) CONN_CLIENT =
   Inr (Some [(1, 0)])"
  by (simp add: GetIOThreadPoolExecutor_def demo_manager_simps vec_at_client)

lemma demo_mgr_parts [simp]:
  "sm_services demo_service_mgr = Map.empty" "sm_store demo_service_mgr = Map.empty"
  "sm_next demo_service_mgr = 0" "sm_started demo_service_mgr = []"
  by (simp_all add: demo_service_mgr_def new_ServiceManager_def)

lemma demo_mgr_created:
  "created (sm_factories demo_service_mgr) (sm_service_configs demo_service_mgr) =
     [demo_config ''gate'' ''tcp_server'', demo_config ''db'' ''tcp_client'', demo_config ''db'' ''tcp_client'']"
  by (simp add: created_def demo_service_mgr_def new_ServiceManager_def demo_config_def CreateFactory_def class_defs)

lemma demo_mgr_starts: "\<exists>s'. ServiceManager_Start (starting (\<lambda>_. Inr ())) demo_service_mgr = Inr (s', True)"
  by (simp add: ServiceManager_Start_def demo_service_mgr_def new_ServiceManager_def demo_config_def CreateFactory_def class_defs
      factory_CreateInstance_def add_object_def RegisterServiceBase_def RegisterTcpClient_def demo_client_pool Let_def)

section \<open>Properties\<close>

text \<open>
  C10. What is running after \<open>Start\<close> returns: every configuration for which a factory exists
  was started, once and in order; a name without such a configuration is unknown; the
  clients configured under one name form one group, in the order of the configuration; any
  other service is the only one of its name.
\<close>

theorem services_after_start:
  assumes "sm_services s = Map.empty" "sm_store s = Map.empty" "sm_next s = 0" "sm_started s = []"
    and "ServiceManager_Start start s = Inr (s', b)"
    and "L = (\<lambda>n. filter (\<lambda>c. service_name c = n) (created (sm_factories s) (sm_service_configs s)))"
  shows "map (cfg_of s') (sm_started s') = map Some (created (sm_factories s) (sm_service_configs s)) \<and>
     (\<forall>n. case Lookup s' n of
        None \<Rightarrow> L n = []
      | Some g \<Rightarrow> (\<exists>gs. sm_store s' g = Some gs \<and>
          (if sv_module gs = TCP_CLIENT_GROUP
           then L n \<noteq> [] \<and> (\<forall>c \<in> set (L n). service_type c = ''tcp_client'') \<and>
                map (cfg_of s') (sv_clients gs) = map Some (L n)
           else L n = [sv_config gs] \<and> service_type (sv_config gs) \<noteq> ''tcp_client'')))"
proof -
  have ok: "reg_ok (created (sm_factories s) (sm_service_configs s)) s'"
    using Start_loop_reg_ok [OF reg_ok_new [OF assms(1-4)]] assms(5)
    by (auto simp: ServiceManager_Start_def rbind_eq_Inr_iff)
  have "case Lookup s' n of
        None \<Rightarrow> L n = []
      | Some g \<Rightarrow> (\<exists>gs. sm_store s' g = Some gs \<and>
          (if sv_module gs = TCP_CLIENT_GROUP
           then L n \<noteq> [] \<and> (\<forall>c \<in> set (L n). service_type c = ''tcp_client'') \<and>
                map (cfg_of s') (sv_clients gs) = map Some (L n)
           else L n = [sv_config gs] \<and> service_type (sv_config gs) \<noteq> ''tcp_client''))" for n
  proof (cases "sm_services s' n")
    case None
    have "name_ok s' n (L n)" using ok unfolding reg_ok_def assms(6) by blast
    then show ?thesis using None by (simp add: name_ok_def Lookup_def)
  next
    case (Some g)
    have "name_ok s' n (L n)" using ok unfolding reg_ok_def assms(6) by blast
    then have n: "g < sm_next s'" "group_ok s' g n (L n) \<or> single_ok s' g n (L n)"
      using Some by (simp_all add: name_ok_def)
    then obtain gs where "sm_store s' g = Some gs" using ok unfolding reg_ok_def by (metis option.exhaust)
    with n(2) Some show ?thesis by (auto simp: Lookup_def group_ok_def single_ok_def view_defs)
  qed
  then show ?thesis using ok by (simp add: reg_ok_def)
qed

theorem services_after_start_witness:
  "\<exists>s'. ServiceManager_Start (starting (\<lambda>_. Inr ())) demo_service_mgr = Inr (s', True) \<and>
     map (cfg_of s') (sm_started s') =
       map Some [demo_config ''gate'' ''tcp_server'', demo_config ''db'' ''tcp_client'', demo_config ''db'' ''tcp_client''] \<and>
     Lookup s' ''log'' = None"
proof -
  obtain s' where s': "ServiceManager_Start (starting (\<lambda>_. Inr ())) demo_service_mgr = Inr (s', True)" using demo_mgr_starts by blast
  from services_after_start [OF _ _ _ _ s' refl] show ?thesis
    using s' unfolding demo_mgr_created
    by (auto simp: demo_config_def dest!: spec [of _ "''log''"] split: option.splits if_splits)
qed

text \<open>
  Broadcasting to a service name reaches every connected client configured under it, once
  each and no other; any other strategy hands the buffer to exactly one of them.
\<close>

theorem send_by_name_reaches_group:
  assumes "sm_services s = Map.empty" "sm_store s = Map.empty" "sm_next s = 0" "sm_started s = []"
    and "ServiceManager_Start start s = Inr (s', b)"
    and "L = filter (\<lambda>c. service_name c = n) (created (sm_factories s) (sm_service_configs s))"
    and "L \<noteq> []" "\<forall>c \<in> set L. service_type c = ''tcp_client''" "length L < 2 ^ 32"
    and "\<And>m. m \<noteq> 0 \<Longrightarrow> rand32 m < m"
  shows "\<exists>clients. map (cfg_of s') clients = map Some L \<and>
     ServiceManager_SendIOBuf_name rand32 online s' n kBroadCast = Inr (filter online clients, True) \<and>
     (\<forall>st. st \<noteq> kBroadCast \<longrightarrow> (\<exists>i < length clients.
        ServiceManager_SendIOBuf_name rand32 online s' n st = Inr ([clients ! i], True)))"
proof -
  have ok: "reg_ok (created (sm_factories s) (sm_service_configs s)) s'"
    using Start_loop_reg_ok [OF reg_ok_new [OF assms(1-4)]] assms(5)
    by (auto simp: ServiceManager_Start_def rbind_eq_Inr_iff)
  obtain g gs where g: "Lookup s' n = Some g" "sm_store s' g = Some gs" "sv_module gs = TCP_CLIENT_GROUP"
    and m: "map (cfg_of s') (sv_clients gs) = map Some L"
    using reg_ok_group [OF ok assms(6) [symmetric] assms(7,8)] by blast
  have len: "length (sv_clients gs) = length L" using m map_eq_imp_length_eq by blast
  let ?n = "word_of_nat (length L) :: u32"
  have u: "unat ?n = length L" using assms(9) by (simp add: unsigned_of_nat take_bit_nat_eq_self)
  then have "?n \<noteq> 0" using assms(7) by auto
  then have r: "unat (rand32 ?n) < length L" using assms(10) u by (metis word_less_nat_alt)
  have ne: "sv_clients gs \<noteq> []" using len assms(7) by auto
  have "ServiceManager_SendIOBuf_name rand32 online s' n st = Inr ([sv_clients gs ! unat (rand32 ?n)], True)"
    if "st \<noteq> kBroadCast" for st
    using that g ne r len
    by (cases st) (simp_all add: ServiceManager_SendIOBuf_name_def TcpClientGroup_SendIOBuf_def
        GetOnlineClients_def Let_def unat_ucast_u32)
  moreover have "ServiceManager_SendIOBuf_name rand32 online s' n kBroadCast = Inr (filter online (sv_clients gs), True)"
    using g ne by (simp add: ServiceManager_SendIOBuf_name_def TcpClientGroup_SendIOBuf_def GetOnlineClients_def Let_def)
  ultimately show ?thesis using m r unfolding len [symmetric] by blast
qed

theorem send_by_name_reaches_group_witness:
  "\<exists>s' clients. ServiceManager_Start (starting (\<lambda>_. Inr ())) demo_service_mgr = Inr (s', True) \<and> length clients = 2 \<and>
     ServiceManager_SendIOBuf_name (\<lambda>m. m - 1) (\<lambda>_. True) s' ''db'' kBroadCast = Inr (clients, True)"
proof -
  obtain s' where s': "ServiceManager_Start (starting (\<lambda>_. Inr ())) demo_service_mgr = Inr (s', True)" using demo_mgr_starts by blast
  let ?L = "[demo_config ''db'' ''tcp_client'', demo_config ''db'' ''tcp_client'']"
  have L: "?L = filter (\<lambda>c. service_name c = ''db'')
      (created (sm_factories demo_service_mgr) (sm_service_configs demo_service_mgr))"
    unfolding demo_mgr_created by (simp add: demo_config_def)
  have lt: "m - 1 < m" if "m \<noteq> 0" for m :: u32
    using that by (simp add: word_less_nat_alt unat_minus_one unat_gt_0)
  have "?L \<noteq> []" "\<forall>c \<in> set ?L. service_type c = ''tcp_client''" "length ?L < 2 ^ 32" by (simp_all add: demo_config_def)
  from send_by_name_reaches_group [OF demo_mgr_parts s' L this lt, of "\<lambda>_. True"]
  obtain clients where m: "map (cfg_of s') clients = map Some ?L"
    and c: "ServiceManager_SendIOBuf_name (\<lambda>m. m - 1) (\<lambda>_. True) s' ''db'' kBroadCast =
      Inr (filter (\<lambda>_. True) clients, True)" by blast
  have "length clients = 2" using arg_cong [OF m, of length] by simp
  then show ?thesis using s' c by auto
qed

text \<open>
  The random strategy does not look at the connections: \<open>GetOnlineClients\<close> returns all
  clients of the group, so for every client, connected or not, there is a draw that hands it
  the buffer, and the call reports success.
\<close>

theorem random_send_ignores_connections:
  assumes "i < length (sv_clients g)" "length (sv_clients g) < 2 ^ 32" "st \<noteq> kBroadCast"
  shows "\<exists>rand32. (\<forall>m. m \<noteq> 0 \<longrightarrow> rand32 m < m) \<and>
     TcpClientGroup_SendIOBuf rand32 online g st = Inr ([sv_clients g ! i], True)"
proof -
  define n where "n = (word_of_nat (length (sv_clients g)) :: u32)"
  define k where "k = (word_of_nat i :: u32)"
  define rand where "rand = (\<lambda>m. if m = n then k else 0 :: u32)"
  have u: "unat n = length (sv_clients g)" "unat k = i"
    using assms(1,2) by (simp_all add: n_def k_def unsigned_of_nat take_bit_nat_eq_self)
  then have "\<forall>m. m \<noteq> 0 \<longrightarrow> rand m < m" using assms(1) by (auto simp: rand_def word_less_nat_alt unat_gt_0)
  moreover have ne: "sv_clients g \<noteq> []" using assms(1) by auto
  have "vec_at (sv_clients g) (ucast k) = Inr (sv_clients g ! i)" using assms(1) u(2) by (simp add: unat_ucast_u32)
  then have "TcpClientGroup_SendIOBuf rand online g st = Inr ([sv_clients g ! i], True)"
    using ne assms(3)
    by (cases st) (simp_all add: TcpClientGroup_SendIOBuf_def GetOnlineClients_def Let_def n_def [symmetric] rand_def)
  ultimately show ?thesis by blast
qed

theorem random_send_ignores_connections_witness:
  "\<exists>rand32. (\<forall>m. m \<noteq> 0 \<longrightarrow> rand32 m < m) \<and>
     TcpClientGroup_SendIOBuf rand32 (\<lambda>_. False)
       \<lparr>sv_module = TCP_CLIENT_GROUP, sv_config = demo_config ''db'' ''tcp_client'', sv_io_group = [()],
        sv_child = None, sv_clients = [4, 7], sv_group = None\<rparr> kDefault = Inr ([7], True)"
  using random_send_ignores_connections [of 1
    "\<lparr>sv_module = TCP_CLIENT_GROUP, sv_config = demo_config ''db'' ''tcp_client'', sv_io_group = [()],
      sv_child = None, sv_clients = [4, 7], sv_group = None\<rparr>" kDefault "\<lambda>_. False"] by simp

text \<open>
  \<open>ServiceRouterManager::Start\<close> starts, in order, exactly the configured services that are
  no \<open>tcp_client\<close>: a configured client is created and dropped again.
\<close>

theorem router_skips_clients:
  assumes "Router_Start start (Router_Initialize (new_ServiceRouterManager dserver dclient pool) configs) = Inr (s', b)"
  shows "map (rt_cfg s') (rt_started s') = map Some (filter (\<lambda>c. service_type c \<noteq> ''tcp_client'')
     (created (rt_factories (new_ServiceRouterManager dserver dclient pool)) configs))"
proof -
  let ?s = "Router_Initialize (new_ServiceRouterManager dserver dclient pool) configs"
  have "rt_ok [] ?s" by (simp add: rt_ok_def Router_Initialize_def new_ServiceRouterManager_def)
  from Router_Start_loop_ok [OF this, of start configs] assms show ?thesis
    by (auto simp: Router_Start_def Router_Initialize_def rbind_eq_Inr_iff rt_ok_def)
qed

theorem router_skips_clients_witness:
  "\<exists>s'. Router_Start (starting (\<lambda>_. Inr ())) (Router_Initialize (new_ServiceRouterManager None None [()])
      [demo_config ''tcp_client'' ''tcp_client'', demo_config ''tcp_server'' ''tcp_server'']) = Inr (s', True) \<and>
     map (rt_cfg s') (rt_started s') = [Some (demo_config ''tcp_server'' ''tcp_server'')]"
proof -
  let ?cs = "[demo_config ''tcp_client'' ''tcp_client'', demo_config ''tcp_server'' ''tcp_server'']"
  have "\<exists>s'. Router_Start (starting (\<lambda>_. Inr ())) (Router_Initialize (new_ServiceRouterManager None None [()]) ?cs) = Inr (s', True)"
    by (simp add: Router_Start_def Router_Initialize_def new_ServiceRouterManager_def demo_config_def CreateFactory_def class_defs
        factory_CreateInstance_def Router_RegisterServiceBase_def Let_def)
  then obtain s' where s': "Router_Start (starting (\<lambda>_. Inr ())) (Router_Initialize (new_ServiceRouterManager None None [()]) ?cs) = Inr (s', True)"
    by blast
  from router_skips_clients [OF this] s' show ?thesis
    by (simp add: created_def new_ServiceRouterManager_def demo_config_def CreateFactory_def class_defs)
qed

end
