(* ===== verification/Router_Conns.thy ===== *)
theory Router_Conns
  imports Service_Registry IO_Thread_Pool
begin

text \<open>
  The connections of \<open>ServiceRouterManager\<close> (\<open>net/service_router_manager\<close>): the router keeps a
  pointer to the \<open>IOThreadPoolConnManager\<close> it was constructed with and forwards to it the
  opening and closing of connections, the registration of servers and the two dispatching
  calls that are defined.
\<close>

record ('h, 'e, 'p) router_conns = "'h router" +
  rc_conn_pool :: "('e, 'p) io_pool"

definition new_Router_pool ::
  "'h factory option \<Rightarrow> 'h factory option \<Rightarrow> 'h list \<Rightarrow> ('e, 'p) io_pool \<Rightarrow> ('h, 'e, 'p) router_conns" where
  "new_Router_pool server client executor conn_pool =
     router.extend (new_ServiceRouterManager server client executor) \<lparr>rc_conn_pool = conn_pool\<rparr>"

definition GetConnPool :: "('h, 'e, 'p) router_conns \<Rightarrow> ('e, 'p) io_pool" where
  "GetConnPool s = rc_conn_pool s"

definition Router_OnNewConnection ::
  "('p \<Rightarrow> string) \<Rightarrow> ('p \<Rightarrow> 'e) \<Rightarrow> ('h, 'e, 'p) router_conns \<Rightarrow> 'p \<Rightarrow> (('h, 'e, 'p) router_conns \<times> u64) option" where
  "Router_OnNewConnection service_name_of evb_of s pipeline =
     map_option (\<lambda>(pool, c). (s\<lparr>rc_conn_pool := pool\<rparr>, c))
       (Pool_OnNewConnection service_name_of evb_of (rc_conn_pool s) pipeline)"

definition Router_OnConnectionClosed ::
  "('p \<Rightarrow> string) \<Rightarrow> ('h, 'e, 'p) router_conns \<Rightarrow> u64 \<Rightarrow> 'p \<Rightarrow> (('h, 'e, 'p) router_conns \<times> bool) res" where
  "Router_OnConnectionClosed service_name_of s conn_id pipeline =
     rbind (Pool_OnConnectionClosed service_name_of (rc_conn_pool s) conn_id pipeline) (\<lambda>(pool, b).
       Inr (s\<lparr>rc_conn_pool := pool\<rparr>, b))"

definition Router_OnServerRegister ::
  "('p \<Rightarrow> 'e) \<Rightarrow> ('h, 'e, 'p) router_conns \<Rightarrow> 'p \<Rightarrow> string \<Rightarrow> u32 \<Rightarrow> ('h, 'e, 'p) router_conns" where
  "Router_OnServerRegister evb_of s pipeline name number =
     s\<lparr>rc_conn_pool := Pool_OnServerRegister evb_of (rc_conn_pool s) pipeline name number\<rparr>"

definition Router_DispatchIOBuf :: "('h, 'e, 'p) router_conns \<Rightarrow> u64 \<Rightarrow> iobuf \<Rightarrow> 'e post res" where
  "Router_DispatchIOBuf s conn_id data = Pool_DispatchIOBufByConnID (rc_conn_pool s) conn_id data"

definition Router_DispatchIOBuf_server ::
  "('h, 'e, 'p) router_conns \<Rightarrow> string \<Rightarrow> u32 \<Rightarrow> iobuf \<Rightarrow> 'e post res" where
  "Router_DispatchIOBuf_server s name number data =
     Pool_DispatchIOBufByServer (rc_conn_pool s) name number data"

section \<open>Properties\<close>

lemma server_scan_skip:
  "\<forall>c \<in> set xs. \<not> ServerConnInfo_Equals c name number \<Longrightarrow>
   server_scan (xs @ ys) name number d = server_scan ys name number d"
  by (induction xs) auto

text \<open>
  A server that registered itself through the router is reached through the router: when no
  entry of that name and number was there before, the buffer is posted to the first thread,
  and the chain of hops that follows writes it once, to the registered pipeline.
\<close>

theorem router_reaches_registered_server:
  assumes "evb_of p \<in> io_event_base ` set (pool_mgrs (rc_conn_pool s))"
    and "\<forall>m \<in> set (pool_mgrs (rc_conn_pool s)). \<forall>c \<in> set (io_server_conns m). \<not> ServerConnInfo_Equals c name number"
    and "s' = Router_OnServerRegister evb_of s p name number"
  shows "\<exists>po. Router_DispatchIOBuf_server s' name number d = Inr po \<and>
     run_chain (GetConnPool s') (length (pool_mgrs (GetConnPool s'))) po = Some [(p, d)]"
proof -
  let ?ms = "pool_mgrs (rc_conn_pool s)"
  obtain i where f: "pool_find_evb ?ms (evb_of p) 0 = Some i"
    using assms(1) pool_find_evb_none [of ?ms "evb_of p" 0] by (meson not_None_eq)
  have i: "i < length ?ms" using pool_find_evb_0 [OF f] by simp
  let ?m = "IOT_OnServerRegister (?ms ! i) p name number"
  have ms: "pool_mgrs (GetConnPool s') = ?ms[i := ?m]"
    using f by (simp add: assms(3) GetConnPool_def Router_OnServerRegister_def Pool_OnServerRegister_def)
  let ?pre = "concat (map io_server_conns (take i ?ms)) @ io_server_conns (?ms ! i)"
  let ?new = "\<lparr>sc_server_name = name, sc_server_number = number, sc_pipeline = Some p\<rparr>"
  have conns: "concat (map io_server_conns (?ms[i := ?m])) =
      ?pre @ ?new # concat (map io_server_conns (drop (Suc i) ?ms))"
    using i by (simp add: upd_conv_take_nth_drop IOT_OnServerRegister_def)
  have "\<forall>c \<in> set ?pre. \<not> ServerConnInfo_Equals c name number"
    using assms(2) i by (auto dest: in_set_takeD nth_mem)
  then have "server_scan (concat (map io_server_conns (?ms[i := ?m]))) name number d = ([(p, d)], True)"
    unfolding conns by (subst server_scan_skip) (auto simp: ServerConnInfo_Equals_def)
  moreover have n: "0 < length (pool_mgrs (GetConnPool s'))" using i unfolding ms by (metis gr0I length_list_update not_less_zero)
  ultimately have "run_chain (GetConnPool s') (length (pool_mgrs (GetConnPool s'))) (PostServer e 0 name number d) = Some [(p, d)]" for e
    using run_chain_scan [OF n, of _ e name number d] by (simp add: ms)
  with n show ?thesis
    by (auto simp: Router_DispatchIOBuf_server_def Pool_DispatchIOBufByServer_def GetConnPool_def)
qed

theorem router_reaches_registered_server_witness:
  "\<exists>po. Router_DispatchIOBuf_server (Router_OnServerRegister (\<lambda>_. 1)
      (new_Router_pool None None [()] \<lparr>pool_mgrs = [new_IOThreadConnManager 0 (0 :: nat), new_IOThreadConnManager 1 1],
         pool_current_thread_id = 0\<rparr>) ''p'' ''status'' 3) ''status'' 3 [5] = Inr po \<and>
    run_chain (GetConnPool (Router_OnServerRegister (\<lambda>_. 1)
      (new_Router_pool None None [()] \<lparr>pool_mgrs = [new_IOThreadConnManager 0 (0 :: nat), new_IOThreadConnManager 1 1],
         pool_current_thread_id = 0\<rparr>) ''p'' ''status'' 3)) 2 po = Some [(''p'', [5])]"
proof -
  let ?r = "new_Router_pool None None [()] \<lparr>pool_mgrs = [new_IOThreadConnManager 0 (0 :: nat), new_IOThreadConnManager 1 1],
         pool_current_thread_id = 0\<rparr>"
  let ?s = "Router_OnServerRegister (\<lambda>_. 1) ?r ''p'' ''status'' 3"
  have p: "rc_conn_pool ?r = \<lparr>pool_mgrs = [new_IOThreadConnManager 0 (0 :: nat), new_IOThreadConnManager 1 1], pool_current_thread_id = 0\<rparr>"
    by (simp add: new_Router_pool_def router.defs)
  have "length (pool_mgrs (GetConnPool ?s)) = 2"
    by (simp add: GetConnPool_def Router_OnServerRegister_def new_Router_pool_def router.defs Pool_OnServerRegister_def split: option.split)
  note two = this
  have "(1 :: nat) \<in> io_event_base ` set (pool_mgrs (rc_conn_pool ?r))"
    "\<forall>m \<in> set (pool_mgrs (rc_conn_pool ?r)). \<forall>c \<in> set (io_server_conns m). \<not> ServerConnInfo_Equals c ''status'' 3"
    unfolding p by (simp_all add: new_IOThreadConnManager_def)
  from router_reaches_registered_server [where evb_of = "\<lambda>_. 1" and s' = ?s and p = "''p''" and d = "[5]", OF this refl] two
  show ?thesis by metis
qed

end
