(* ===== verification/Servers.thy ===== *)
theory Servers
  imports Service_Registry
begin

text \<open>
  The listening services: \<open>TcpServer\<close> (\<open>net/server/tcp_server\<close>), \<open>TcpServerT\<close>
  (\<open>net/server/tcp_server_t.h\<close>), \<open>HttpServer\<close> (\<open>net/server/http_server\<close>) and the proxygen
  server it embeds, \<open>HTTPServerLib\<close> with its acceptor (\<open>net/server/http_server_lib\<close>,
  \<open>net/server/http_server_lib_acceptor\<close>). Sockets belong to wangle: a bootstrap is what it was
  told, and whether a port can be bound is an argument.
\<close>

section \<open>TCP servers\<close>

datatype 'h server_call =
    AcceptorConfig int | ChildPipeline "pipeline_factory option" | Group "'h list" | Bind u32 | StopServer

record 'h tcp_server =
  ts_config :: service_config
  ts_io_group :: "'h list"
  ts_factory :: "pipeline_factory option"
  ts_server :: "'h server_call list"

definition DEFAULT_CONN_IDLE_TIMEOUT :: int where
  "DEFAULT_CONN_IDLE_TIMEOUT = 240000"

definition new_TcpServer :: "service_config \<Rightarrow> 'h list \<Rightarrow> 'h tcp_server" where
  "new_TcpServer config io_group =
     \<lparr>ts_config = config, ts_io_group = io_group, ts_factory = None,
      ts_server = [AcceptorConfig DEFAULT_CONN_IDLE_TIMEOUT]\<rparr>"

definition TcpServer_SetChildPipeline :: "'h tcp_server \<Rightarrow> pipeline_factory \<Rightarrow> 'h tcp_server" where
  "TcpServer_SetChildPipeline s factory = s\<lparr>ts_factory := Some factory\<rparr>"

definition TcpServer_Start :: "'h tcp_server \<Rightarrow> 'h tcp_server \<times> bool" where
  "TcpServer_Start s =
     (s\<lparr>ts_server := ts_server s @ [ChildPipeline (ts_factory s), Group (ts_io_group s), Bind (port (ts_config s))]\<rparr>, True)"

definition TcpServer_Stop :: "'h tcp_server \<Rightarrow> 'h tcp_server \<times> bool" where
  "TcpServer_Stop s = (s\<lparr>ts_server := ts_server s @ [StopServer]\<rparr>, True)"

text \<open>The template hands its pipeline factory to the bootstrap at once.\<close>

definition new_TcpServerT :: "service_config \<Rightarrow> 'h list \<Rightarrow> 'h tcp_server" where
  "new_TcpServerT config io_group =
     \<lparr>ts_config = config, ts_io_group = io_group, ts_factory = None,
      ts_server = [AcceptorConfig DEFAULT_CONN_IDLE_TIMEOUT]\<rparr>"

definition TcpServerT_SetChildPipeline :: "'h tcp_server \<Rightarrow> pipeline_factory \<Rightarrow> 'h tcp_server" where
  "TcpServerT_SetChildPipeline s factory = s\<lparr>ts_server := ts_server s @ [ChildPipeline (Some factory)]\<rparr>"

definition TcpServerT_Start :: "'h tcp_server \<Rightarrow> 'h tcp_server \<times> bool" where
  "TcpServerT_Start s =
     (s\<lparr>ts_server := ts_server s @ [Group (ts_io_group s), Bind (port (ts_config s))]\<rparr>, True)"

definition TcpServerT_Stop :: "'h tcp_server \<Rightarrow> 'h tcp_server \<times> bool" where
  "TcpServerT_Stop s = (s\<lparr>ts_server := ts_server s @ [StopServer]\<rparr>, True)"

definition TcpServerFactoryT_GetType :: string where
  "TcpServerFactoryT_GetType = ''tcp_server_t''"

definition TcpServerFactoryT_CreateInstance :: "'h list \<Rightarrow> service_config \<Rightarrow> 'h tcp_server" where
  "TcpServerFactoryT_CreateInstance io_group config =
     TcpServerT_SetChildPipeline (new_TcpServerT config io_group) ServerConnPipelineFactoryT"

section \<open>The filters of the HTTP server\<close>

datatype ('f, 'z) filter_factory = RejectConnectFilterFactory | ZlibServerFilterFactory 'z | HandlerFactory 'f

record ('f, 'z) http_options =
  ho_idleTimeout :: nat
  ho_handlerFactories :: "('f, 'z) filter_factory list"
  ho_supportsConnect :: bool
  ho_enableContentCompression :: bool
  ho_contentCompression :: 'z
  ho_initialReceiveWindow :: nat
  ho_receiveStreamWindowSize :: nat
  ho_receiveSessionWindowSize :: nat
  ho_listenBacklog :: nat

datatype protocol = HTTP | SPDY | HTTP2

record 'k ip_config =
  ip_address :: string
  ip_port :: u16
  ip_protocol :: protocol
  ip_codecFactory :: "'k option"
  ip_sslConfigs :: "string list"

record acceptor_conf =
  ac_bindAddress :: "string \<times> u16"
  ac_connectionIdleTimeout :: nat
  ac_transactionIdleTimeout :: nat
  ac_initialReceiveWindow :: nat
  ac_receiveStreamWindowSize :: nat
  ac_receiveSessionWindowSize :: nat
  ac_acceptBacklog :: nat
  ac_plaintextProtocol :: string
  ac_sslContextConfigs :: "string list"

text \<open>\<open>kProtocolCleartextString\<close> is proxygen's constant for cleartext HTTP/2.\<close>

definition makeConfig :: "string \<Rightarrow> 'k ip_config \<Rightarrow> ('f, 'z) http_options \<Rightarrow> acceptor_conf" where
  "makeConfig kProtocolCleartextString ipConfig opts =
     \<lparr>ac_bindAddress = (ip_address ipConfig, ip_port ipConfig),
      ac_connectionIdleTimeout = ho_idleTimeout opts,
      ac_transactionIdleTimeout = ho_idleTimeout opts,
      ac_initialReceiveWindow = ho_initialReceiveWindow opts,
      ac_receiveStreamWindowSize = ho_receiveStreamWindowSize opts,
      ac_receiveSessionWindowSize = ho_receiveSessionWindowSize opts,
      ac_acceptBacklog = ho_listenBacklog opts,
      ac_plaintextProtocol =
        (if ip_protocol ipConfig = SPDY then ''spdy/3.1''
         else if ip_protocol ipConfig = HTTP2 then kProtocolCleartextString
         else []),
      ac_sslContextConfigs = ip_sslConfigs ipConfig\<rparr>"

record ('f, 'z, 'k) acceptor =
  la_conf :: acceptor_conf
  la_codecFactory :: "'k option"
  la_handlerFactories :: "('f, 'z) filter_factory list"
  la_completionCallback :: bool
  la_sessionInfoCb :: bool

definition acceptor_make ::
  "acceptor_conf \<Rightarrow> ('f, 'z) http_options \<Rightarrow> 'k option \<Rightarrow> ('f, 'z, 'k) acceptor" where
  "acceptor_make conf opts codecFactory =
     \<lparr>la_conf = conf, la_codecFactory = codecFactory, la_handlerFactories = rev (ho_handlerFactories opts),
      la_completionCallback = False, la_sessionInfoCb = False\<rparr>"

definition setCompletionCallback :: "('f, 'z, 'k) acceptor \<Rightarrow> bool \<Rightarrow> ('f, 'z, 'k) acceptor" where
  "setCompletionCallback a f = a\<lparr>la_completionCallback := f\<rparr>"

text \<open>Whether the completion callback is called.\<close>

definition onConnectionsDrained :: "('f, 'z, 'k) acceptor \<Rightarrow> bool" where
  "onConnectionsDrained a = la_completionCallback a"

record http_addresses =
  client_address :: string
  dst_address :: string

text \<open>
  \<open>newHandler\<close> sets the addresses of the message and lets every factory wrap the handler built
  so far; \<open>onRequest\<close> is the factories' virtual function.
\<close>

definition newHandler ::
  "(('f, 'z) filter_factory \<Rightarrow> 'r option \<Rightarrow> 'r) \<Rightarrow> string \<Rightarrow> string \<Rightarrow> ('f, 'z, 'k) acceptor \<Rightarrow> http_addresses \<times> 'r option" where
  "newHandler onRequest peer vip a =
     (\<lparr>client_address = peer, dst_address = vip\<rparr>,
      foldl (\<lambda>h factory. Some (onRequest factory h)) None (la_handlerFactories a))"

section \<open>\<open>HTTPServerLib\<close>\<close>

record ('f, 'z, 'k, 'h) server_bootstrap =
  sb_childHandler :: "('f, 'z, 'k) acceptor option"
  sb_group :: "'h list option"
  sb_bound :: "(string \<times> u16) list"
  sb_stopped :: bool
  sb_joined :: bool

definition new_ServerBootstrap :: "('f, 'z, 'k, 'h) server_bootstrap" where
  "new_ServerBootstrap =
     \<lparr>sb_childHandler = None, sb_group = None, sb_bound = [], sb_stopped = False, sb_joined = False\<rparr>"

record ('f, 'z, 'k, 'h) http_lib =
  hl_options :: "('f, 'z) http_options"
  hl_addresses :: "'k ip_config list"
  hl_bootstrap :: "('f, 'z, 'k, 'h) server_bootstrap list"
  hl_sessionInfoCb :: bool

definition new_HTTPServerLib :: "('f, 'z) http_options \<Rightarrow> ('f, 'z, 'k, 'h) http_lib" where
  "new_HTTPServerLib options =
     (let o1 = (if \<not> ho_supportsConnect options
                then options\<lparr>ho_handlerFactories := RejectConnectFilterFactory # ho_handlerFactories options\<rparr> else options);
          o2 = (if ho_enableContentCompression o1
                then o1\<lparr>ho_handlerFactories := ZlibServerFilterFactory (ho_contentCompression o1) # ho_handlerFactories o1\<rparr> else o1)
      in \<lparr>hl_options = o2, hl_addresses = [], hl_bootstrap = [], hl_sessionInfoCb = False\<rparr>)"

definition lib_bind :: "('f, 'z, 'k, 'h) http_lib \<Rightarrow> 'k ip_config list \<Rightarrow> ('f, 'z, 'k, 'h) http_lib" where
  "lib_bind l addrs = l\<lparr>hl_addresses := addrs\<rparr>"

definition setSessionInfoCallback :: "('f, 'z, 'k, 'h) http_lib \<Rightarrow> bool \<Rightarrow> ('f, 'z, 'k, 'h) http_lib" where
  "setSessionInfoCallback l cb = l\<lparr>hl_sessionInfoCb := cb\<rparr>"

text \<open>\<open>LibAcceptorFactory::newAcceptor\<close>, for the configuration the factory was made with.\<close>

definition newAcceptor ::
  "('f, 'z) http_options \<Rightarrow> 'k option \<Rightarrow> acceptor_conf \<Rightarrow> bool \<Rightarrow> ('f, 'z, 'k) acceptor" where
  "newAcceptor options codecFactory conf sessionInfoCb =
     (let acc = acceptor_make conf options codecFactory
      in if sessionInfoCb then acc\<lparr>la_sessionInfoCb := True\<rparr> else acc)"

text \<open>\<open>LibHandlerCallbacks\<close>: the calls posted to the event base of a thread.\<close>

definition threadStarted :: "('f, 'z) http_options \<Rightarrow> 'e \<Rightarrow> (('f, 'z) filter_factory \<times> 'e) list" where
  "threadStarted options evb = map (\<lambda>factory. (factory, evb)) (ho_handlerFactories options)"

definition threadStopped :: "('f, 'z) http_options \<Rightarrow> ('f, 'z) filter_factory list" where
  "threadStopped options = ho_handlerFactories options"

text \<open>
  \<open>stop\<close>: every bootstrap is stopped, then every one joined. A stopped \<open>ServerBootstrap\<close> has
  closed its sockets and holds none.
\<close>

definition lib_stop :: "('f, 'z, 'k, 'h) http_lib \<Rightarrow> ('f, 'z, 'k, 'h) http_lib" where
  "lib_stop l =
     l\<lparr>hl_bootstrap := map (\<lambda>b. b\<lparr>sb_joined := True\<rparr>) (map (\<lambda>b. b\<lparr>sb_bound := [], sb_stopped := True\<rparr>) (hl_bootstrap l))\<rparr>"

text \<open>
  The loop of \<open>start\<close>: \<open>i\<close> counts the addresses, and \<open>bootstrap_[i]\<close> is used after a new
  bootstrap was pushed. The flag tells whether every \<open>bind\<close> succeeded.
\<close>

fun start_loop ::
  "(string \<times> u16 \<Rightarrow> bool) \<Rightarrow> string \<Rightarrow> ('f, 'z) http_options \<Rightarrow> bool \<Rightarrow> 'h list \<Rightarrow> nat \<Rightarrow> 'k ip_config list
   \<Rightarrow> ('f, 'z, 'k, 'h) server_bootstrap list \<Rightarrow> ('f, 'z, 'k, 'h) server_bootstrap list \<times> bool" where
  "start_loop can_bind cleartext opts cb io_group i [] bs = (bs, True)"
| "start_loop can_bind cleartext opts cb io_group i (a # as) bs =
     (let addr = (ip_address a, ip_port a);
          acc = newAcceptor opts (ip_codecFactory a) (makeConfig cleartext a opts) cb;
          bs1 = bs @ [new_ServerBootstrap];
          b = (bs1 ! i)\<lparr>sb_childHandler := Some acc, sb_group := Some io_group\<rparr>
      in if can_bind addr
         then start_loop can_bind cleartext opts cb io_group (Suc i) as (bs1[i := b\<lparr>sb_bound := sb_bound b @ [addr]\<rparr>])
         else (bs1[i := b], False))"

datatype start_result = Started bool | ErrorReported | Thrown

definition lib_start ::
  "(string \<times> u16 \<Rightarrow> bool) \<Rightarrow> string \<Rightarrow> ('f, 'z, 'k, 'h) http_lib \<Rightarrow> 'h list \<Rightarrow> bool \<Rightarrow> bool
   \<Rightarrow> ('f, 'z, 'k, 'h) http_lib \<times> start_result" where
  "lib_start can_bind cleartext l io_group onSuccess onError =
     (case start_loop can_bind cleartext (hl_options l) (hl_sessionInfoCb l) io_group 0 (hl_addresses l) (hl_bootstrap l) of
        (bs, True) \<Rightarrow> (l\<lparr>hl_bootstrap := bs\<rparr>, Started onSuccess)
      | (bs, False) \<Rightarrow> (lib_stop (l\<lparr>hl_bootstrap := bs\<rparr>), if onError then ErrorReported else Thrown))"

definition getSockets :: "('f, 'z, 'k, 'h) http_lib \<Rightarrow> (string \<times> u16) list" where
  "getSockets l = concat (map sb_bound (hl_bootstrap l))"

section \<open>\<open>HttpServer\<close>\<close>

record ('f, 'z, 'k, 'h) http_server =
  hs_config :: service_config
  hs_io_group :: "'h list"
  hs_server :: "('f, 'z, 'k, 'h) http_lib option"

definition new_HttpServer :: "service_config \<Rightarrow> 'h list \<Rightarrow> ('f, 'z, 'k, 'h) http_server" where
  "new_HttpServer config io_group = \<lparr>hs_config = config, hs_io_group = io_group, hs_server = None\<rparr>"

text \<open>
  \<open>resolves\<close> tells for which hosts the constructor of \<open>folly::SocketAddress\<close> does not throw,
  \<open>defaults\<close> are proxygen's default options, \<open>factory\<close> is the request handler factory of the
  repository.
\<close>

definition HttpServer_Start ::
  "(string \<Rightarrow> bool) \<Rightarrow> (string \<times> u16 \<Rightarrow> bool) \<Rightarrow> string \<Rightarrow> ('f, 'z) http_options \<Rightarrow> 'f \<Rightarrow> ('f, 'z, 'k, 'h) http_server
   \<Rightarrow> ('f, 'z, 'k, 'h) http_server \<times> start_result" where
  "HttpServer_Start resolves can_bind cleartext defaults factory s =
     (if \<not> resolves (hosts (hs_config s)) then (s, Thrown)
      else let IPs = [\<lparr>ip_address = hosts (hs_config s), ip_port = ucast (port (hs_config s)), ip_protocol = HTTP,
                  ip_codecFactory = None, ip_sslConfigs = []\<rparr>];
          options = defaults\<lparr>ho_idleTimeout := 60000, ho_handlerFactories := [HandlerFactory factory]\<rparr>;
          server = (case hs_server s of None \<Rightarrow> new_HTTPServerLib options | Some l \<Rightarrow> l);
          (l, r) = lib_start can_bind cleartext (lib_bind server IPs) (hs_io_group s) False False
      in (s\<lparr>hs_server := Some l\<rparr>, r))"

definition HttpServer_Stop :: "('f, 'z, 'k, 'h) http_server \<Rightarrow> (('f, 'z, 'k, 'h) http_server \<times> bool) res" where
  "HttpServer_Stop s =
     (case hs_server s of None \<Rightarrow> Inl NullDeref | Some l \<Rightarrow> Inr (s\<lparr>hs_server := Some (lib_stop l)\<rparr>, True))"

section \<open>What a start leaves behind\<close>

definition addr_of :: "'k ip_config \<Rightarrow> string \<times> u16" where
  "addr_of a = (ip_address a, ip_port a)"

text \<open>The bootstrap of an address, before and after its \<open>bind\<close>.\<close>

definition prepared ::
  "string \<Rightarrow> ('f, 'z) http_options \<Rightarrow> bool \<Rightarrow> 'h list \<Rightarrow> 'k ip_config \<Rightarrow> ('f, 'z, 'k, 'h) server_bootstrap" where
  "prepared cleartext opts cb io_group a = new_ServerBootstrap
     \<lparr>sb_childHandler := Some (newAcceptor opts (ip_codecFactory a) (makeConfig cleartext a opts) cb),
      sb_group := Some io_group\<rparr>"

definition opened ::
  "string \<Rightarrow> ('f, 'z) http_options \<Rightarrow> bool \<Rightarrow> 'h list \<Rightarrow> 'k ip_config \<Rightarrow> ('f, 'z, 'k, 'h) server_bootstrap" where
  "opened cleartext opts cb io_group a = (prepared cleartext opts cb io_group a)\<lparr>sb_bound := [addr_of a]\<rparr>"

lemma start_loop_result:
  "start_loop can_bind ct opts cb io_group (length bs) as bs =
     (bs @ map (opened ct opts cb io_group) (takeWhile (can_bind \<circ> addr_of) as) @
        map (prepared ct opts cb io_group) (take 1 (dropWhile (can_bind \<circ> addr_of) as)),
      dropWhile (can_bind \<circ> addr_of) as = [])"
proof (induction as arbitrary: bs)
  case (Cons a as)
  show ?case
  proof (cases "can_bind (addr_of a)")
    case True
    then show ?thesis
      using Cons.IH [of "bs @ [opened ct opts cb io_group a]"]
      by (simp add: Let_def nth_append addr_of_def opened_def prepared_def new_ServerBootstrap_def list_update_append)
  next
    case False
    then show ?thesis
      by (simp add: Let_def nth_append addr_of_def prepared_def list_update_append)
  qed
qed simp

lemma getSockets_stop: "getSockets (lib_stop l) = []"
  by (simp add: getSockets_def lib_stop_def comp_def)

lemma lib_stop_made:
  "hl_bootstrap (lib_stop (l\<lparr>hl_bootstrap := map (opened ct opts cb g) as @ map (prepared ct opts cb g) bs\<rparr>)) =
     map (\<lambda>a. (prepared ct opts cb g a)\<lparr>sb_stopped := True, sb_joined := True\<rparr>) (as @ bs)"
  by (simp add: lib_stop_def opened_def prepared_def new_ServerBootstrap_def)

lemma concat_bound_opened: "concat (map (sb_bound \<circ> opened ct opts cb g) as) = map addr_of as"
  by (induction as) (simp_all add: opened_def)

lemma concat_bound_prepared: "concat (map (sb_bound \<circ> prepared ct opts cb g) as) = []"
  by (induction as) (simp_all add: prepared_def new_ServerBootstrap_def)

section \<open>Properties\<close>

text \<open>
  C26. Starting the HTTP server is all or nothing: if every address can be bound, each gets its
  own bootstrap, in order, with the acceptor configured for it; otherwise, when the error is
  reported or rethrown, the bootstraps are those of the addresses up to and including the first
  failing one, each of them stopped and joined, and the server has no socket left.
\<close>

theorem http_lib_start_all_or_stopped:
  assumes "hl_bootstrap l = []"
    and "lib_start can_bind ct l io_group onSuccess onError = (l', r)"
  shows "if list_all (can_bind \<circ> addr_of) (hl_addresses l)
     then r = Started onSuccess \<and>
          hl_bootstrap l' = map (opened ct (hl_options l) (hl_sessionInfoCb l) io_group) (hl_addresses l) \<and>
          getSockets l' = map addr_of (hl_addresses l)
     else r = (if onError then ErrorReported else Thrown) \<and>
          hl_bootstrap l' =
            map (\<lambda>a. (prepared ct (hl_options l) (hl_sessionInfoCb l) io_group a)\<lparr>sb_stopped := True, sb_joined := True\<rparr>)
              (takeWhile (can_bind \<circ> addr_of) (hl_addresses l) @ take 1 (dropWhile (can_bind \<circ> addr_of) (hl_addresses l))) \<and>
          getSockets l' = []"
proof -
  let ?ok = "can_bind \<circ> addr_of" and ?as = "hl_addresses l"
  let ?bs = "map (opened ct (hl_options l) (hl_sessionInfoCb l) io_group) (takeWhile ?ok ?as) @
    map (prepared ct (hl_options l) (hl_sessionInfoCb l) io_group) (take 1 (dropWhile ?ok ?as))"
  have loop: "start_loop can_bind ct (hl_options l) (hl_sessionInfoCb l) io_group 0 ?as [] = (?bs, dropWhile ?ok ?as = [])"
    using start_loop_result [of can_bind ct "hl_options l" "hl_sessionInfoCb l" io_group "[]" ?as] by simp
  have socks: "getSockets (l\<lparr>hl_bootstrap := ?bs\<rparr>) = map addr_of (takeWhile ?ok ?as)"
    by (simp add: getSockets_def concat_bound_opened concat_bound_prepared)
  show ?thesis
  proof (cases "list_all ?ok ?as")
    case True
    then have "takeWhile ?ok ?as = ?as" "dropWhile ?ok ?as = []"
      by (simp_all add: list_all_iff takeWhile_eq_all_conv dropWhile_eq_Nil_conv)
    with True socks loop assms show ?thesis by (auto simp: lib_start_def)
  next
    case False
    then have "(dropWhile ?ok ?as = []) = False" by (auto simp: list_all_iff dropWhile_eq_Nil_conv)
    then have "start_loop can_bind ct (hl_options l) (hl_sessionInfoCb l) io_group 0 ?as (hl_bootstrap l) = (?bs, False)"
      unfolding assms(1) loop by simp
    with assms(2) have "l' = lib_stop (l\<lparr>hl_bootstrap := ?bs\<rparr>)" "r = (if onError then ErrorReported else Thrown)"
      unfolding lib_start_def by simp_all
    then show ?thesis using False by (simp add: getSockets_stop lib_stop_made)
  qed
qed

text \<open>
  The handler of a request is the repository's own, wrapped by the filters in the order of
  the options: the compression filter outermost if it is enabled, then the filter that
  rejects \<open>CONNECT\<close> unless that is supported, then the factories as given, the last of which
  makes the innermost handler.
\<close>

theorem http_filters_wrap:
  "newHandler onRequest peer vip (newAcceptor (hl_options (new_HTTPServerLib opts)) codec conf cb) =
     (\<lparr>client_address = peer, dst_address = vip\<rparr>,
      foldr (\<lambda>factory h. Some (onRequest factory h))
        ((if ho_enableContentCompression opts then [ZlibServerFilterFactory (ho_contentCompression opts)] else []) @
         (if ho_supportsConnect opts then [] else [RejectConnectFilterFactory]) @ ho_handlerFactories opts) None)"
  by (simp add: newHandler_def newAcceptor_def acceptor_make_def new_HTTPServerLib_def Let_def foldr_conv_foldl)

definition demo_http_options :: "(unit, unit) http_options" where
  "demo_http_options =
     \<lparr>ho_idleTimeout = 1, ho_handlerFactories = [HandlerFactory ()], ho_supportsConnect = False,
      ho_enableContentCompression = False, ho_contentCompression = (), ho_initialReceiveWindow = 1,
      ho_receiveStreamWindowSize = 1, ho_receiveSessionWindowSize = 1, ho_listenBacklog = 1\<rparr>"

theorem http_lib_start_all_or_stopped_witness:
  "\<exists>l' r. lib_start (\<lambda>(h, p). p \<noteq> 80) ''h2c''
      ((new_HTTPServerLib demo_http_options :: (unit, unit, unit, unit) http_lib)
       \<lparr>hl_addresses := [\<lparr>ip_address = ''a'', ip_port = 81, ip_protocol = HTTP, ip_codecFactory = None, ip_sslConfigs = []\<rparr>,
                        \<lparr>ip_address = ''a'', ip_port = 80, ip_protocol = HTTP, ip_codecFactory = None, ip_sslConfigs = []\<rparr>]\<rparr>)
      [()] False False = (l', r) \<and> r = Thrown \<and> getSockets l' = [] \<and>
      map sb_stopped (hl_bootstrap l') = [True, True]"
  (is "\<exists>l' r. lib_start ?ok ''h2c'' ?l [()] False False = (l', r) \<and> _")
proof -
  obtain l' r where lr: "lib_start ?ok ''h2c'' ?l [()] False False = (l', r)" by fastforce
  have "hl_bootstrap ?l = []" by (simp add: new_HTTPServerLib_def Let_def)
  from http_lib_start_all_or_stopped [OF this lr] lr show ?thesis by (auto simp: addr_of_def)
qed

end
