(* ===== verification/Http_Requests.thy ===== *)
theory Http_Requests
  imports Fiber_Data
begin

text \<open>
  Serving one HTTP request: the table of handler functions by path
  (\<open>net/rabbit_http_handler\<close>) and the life of a \<open>RabbitHttpRequestHandler\<close>
  (\<open>net/rabbit_http_request_handler\<close>), which collects the message, runs the function of its
  path in a fiber and owns itself through a shared pointer until proxygen reports the end of
  the transaction.
\<close>

section \<open>Handler functions by path\<close>

text \<open>
  What a \<open>ResponseBuilder\<close> has been told; a handler function receives the builder, and returns
  or throws.
\<close>

record response =
  rs_status :: nat
  rs_reason :: string
  rs_body :: string

datatype outcome = Returned response | Threw string | ThrewOther

type_synonym 'm execute_func = "'m \<Rightarrow> iobuf option \<Rightarrow> response \<Rightarrow> outcome"

text \<open>A function pointer may be null, so the table maps a path to an optional function.\<close>

type_synonym 'm handler_table = "string \<rightharpoonup> 'm execute_func option"

definition RegisterTemplate :: "'m handler_table \<Rightarrow> string \<Rightarrow> 'm execute_func option \<Rightarrow> 'm handler_table" where
  "RegisterTemplate a path func = (case a path of None \<Rightarrow> a(path \<mapsto> func) | Some _ \<Rightarrow> a)"

definition DispatchRabbitHttpHandler ::
  "('m \<Rightarrow> string) \<Rightarrow> 'm handler_table \<Rightarrow> 'm \<Rightarrow> iobuf option \<Rightarrow> response \<Rightarrow> outcome" where
  "DispatchRabbitHttpHandler getPath a headers body r =
     (case a (getPath headers) of
        None \<Rightarrow> Returned r
      | Some None \<Rightarrow> Returned r
      | Some (Some func) \<Rightarrow> func headers body r)"

interpretation http: first_wins "RegisterTemplate :: 'm handler_table \<Rightarrow> _" "\<lambda>a. a"
  by unfold_locales (auto simp: RegisterTemplate_def split: option.splits)

section \<open>The request handler\<close>

record 'm request_handler =
  rh_request :: "'m option"
  rh_requestBody :: "iobuf option"
  rh_self :: bool

definition new_RabbitHttpRequestHandler :: "'m request_handler" where
  "new_RabbitHttpRequestHandler = \<lparr>rh_request = None, rh_requestBody = None, rh_self = False\<rparr>"

definition handler_onRequest :: "'m request_handler \<Rightarrow> 'm option \<Rightarrow> 'm request_handler" where
  "handler_onRequest h headers = h\<lparr>rh_request := headers\<rparr>"

definition handler_onBody :: "'m request_handler \<Rightarrow> iobuf option \<Rightarrow> 'm request_handler" where
  "handler_onBody h body = h\<lparr>rh_requestBody := queue_append (rh_requestBody h) body\<rparr>"

text \<open>
  One transaction: what the peer has sent, the handler (\<open>None\<close> once it is deleted), the fiber
  task, the responses sent with their end, and the statistics of the process.
\<close>

datatype phase = Idle | Receiving | Complete | Closed

datatype task = NoTask | Queued | Running outcome | Finished

record 'm http_txn =
  ht_phase :: phase
  ht_msg :: "'m option"
  ht_pieces :: "iobuf list"
  ht_failed :: bool
  ht_handler :: "'m request_handler option"
  ht_task :: task
  ht_sent :: "response list"
  ht_stats :: stats

text \<open>\<open>RabbitHttpRequestHandlerFactory::onRequest\<close> makes the handler of a new transaction.\<close>

definition factory_onRequest :: "stats \<Rightarrow> 'm http_txn" where
  "factory_onRequest st =
     \<lparr>ht_phase = Idle, ht_msg = None, ht_pieces = [], ht_failed = False,
      ht_handler = Some new_RabbitHttpRequestHandler, ht_task = NoTask, ht_sent = [], ht_stats = st\<rparr>"

text \<open>
  \<open>onEOM\<close>: the local shared pointer makes the object shared, \<open>self\<close> keeps it alive after the
  function returns; the task holds a plain \<open>this\<close> and a weak pointer.
\<close>

definition handler_onEOM :: "bool \<Rightarrow> 'm http_txn \<Rightarrow> 'm http_txn res" where
  "handler_onEOM inited t =
     (case ht_handler t of
        None \<Rightarrow> Inl UseAfterFree
      | Some h \<Rightarrow>
          if inited
          then Inr (t\<lparr>ht_stats := IncreaseStats (ht_stats t) f_add_task, ht_handler := Some (h\<lparr>rh_self := True\<rparr>), ht_task := Queued\<rparr>)
          else Inr t)"

definition OnHttpHandler ::
  "('m \<Rightarrow> string) \<Rightarrow> 'm handler_table \<Rightarrow> 'm \<Rightarrow> iobuf option \<Rightarrow> response \<Rightarrow> outcome" where
  "OnHttpHandler getPath a headers body r = DispatchRabbitHttpHandler getPath a headers body r"

definition ok_response :: response where
  "ok_response = \<lparr>rs_status = 200, rs_reason = ''OK'', rs_body = []\<rparr>"

text \<open>
  The task up to the return of \<open>OnHttpHandler\<close>: it reads the members through \<open>this\<close>. The
  function may be switched out, so other events can come before the rest of the task.
\<close>

definition task_run :: "('m \<Rightarrow> string) \<Rightarrow> 'm handler_table \<Rightarrow> 'm http_txn \<Rightarrow> 'm http_txn res" where
  "task_run getPath a t =
     (case ht_handler t of
        None \<Rightarrow> Inl UseAfterFree
      | Some h \<Rightarrow>
          (case rh_request h of
             None \<Rightarrow> Inl NullDeref
           | Some headers \<Rightarrow>
               Inr (t\<lparr>ht_handler := Some (h\<lparr>rh_requestBody := None\<rparr>),
                      ht_task := Running (OnHttpHandler getPath a headers (rh_requestBody h) ok_response)\<rparr>)))"

definition answer :: "outcome \<Rightarrow> response" where
  "answer out = (case out of
       Returned r \<Rightarrow> r
     | Threw what \<Rightarrow> \<lparr>rs_status = 500, rs_reason = ''Internal Server Error'', rs_body = what\<rparr>
     | ThrewOther \<Rightarrow> \<lparr>rs_status = 500, rs_reason = ''Internal Server Error'', rs_body = ''Unknown exception thrown''\<rparr>)"

text \<open>The rest of the task: it answers only if the weak pointer still finds the handler.\<close>

definition task_finish :: "'m http_txn \<Rightarrow> 'm http_txn" where
  "task_finish t =
     (case ht_task t of
        Running out \<Rightarrow>
          (case ht_handler t of
             None \<Rightarrow> t\<lparr>ht_task := Finished\<rparr>
           | Some _ \<Rightarrow> t\<lparr>ht_task := Finished, ht_sent := ht_sent t @ [answer out]\<rparr>)
      | _ \<Rightarrow> t)"

text \<open>\<open>requestComplete\<close> and \<open>onError\<close> drop \<open>self\<close>; the object dies if it was set.\<close>

definition reset_self :: "'m http_txn \<Rightarrow> 'm http_txn res" where
  "reset_self t =
     (case ht_handler t of
        None \<Rightarrow> Inl UseAfterFree
      | Some h \<Rightarrow> Inr (t\<lparr>ht_handler := (if rh_self h then None else Some h)\<rparr>))"

definition handler_requestComplete :: "'m http_txn \<Rightarrow> 'm http_txn res" where
  "handler_requestComplete t = reset_self t"

definition handler_onError :: "'m http_txn \<Rightarrow> 'm http_txn res" where
  "handler_onError t = reset_self t"

section \<open>The events of a transaction\<close>

text \<open>
  The order proxygen documents: the message head, pieces of the body, its end; an error at any
  time or, once a response has been sent, the completion; nothing after either of these. The
  fiber task runs in between.
\<close>

inductive http_step :: "bool \<Rightarrow> ('m \<Rightarrow> string) \<Rightarrow> 'm handler_table \<Rightarrow> 'm http_txn \<Rightarrow> 'm http_txn \<Rightarrow> bool"
  for inited :: bool and getPath :: "'m \<Rightarrow> string" and a :: "'m handler_table" where
  head: "ht_phase t = Idle \<Longrightarrow> ht_handler t = Some h \<Longrightarrow>
     http_step inited getPath a t
       (t\<lparr>ht_phase := Receiving, ht_msg := Some m, ht_handler := Some (handler_onRequest h (Some m))\<rparr>)"
| body: "ht_phase t = Receiving \<Longrightarrow> ht_handler t = Some h \<Longrightarrow>
     http_step inited getPath a t
       (t\<lparr>ht_pieces := ht_pieces t @ [b], ht_handler := Some (handler_onBody h (Some b))\<rparr>)"
| eom: "ht_phase t = Receiving \<Longrightarrow> handler_onEOM inited t = Inr t' \<Longrightarrow>
     http_step inited getPath a t (t'\<lparr>ht_phase := Complete\<rparr>)"
| run: "ht_task t = Queued \<Longrightarrow> task_run getPath a t = Inr t' \<Longrightarrow> http_step inited getPath a t t'"
| finish: "ht_task t = Running out \<Longrightarrow> http_step inited getPath a t (task_finish t)"
| complete: "ht_phase t = Complete \<Longrightarrow> ht_sent t \<noteq> [] \<Longrightarrow> handler_requestComplete t = Inr t' \<Longrightarrow>
     http_step inited getPath a t (t'\<lparr>ht_phase := Closed\<rparr>)"
| error: "ht_phase t \<noteq> Closed \<Longrightarrow> handler_onError t = Inr t' \<Longrightarrow>
     http_step inited getPath a t (t'\<lparr>ht_phase := Closed, ht_failed := True\<rparr>)"

inductive http_reach :: "bool \<Rightarrow> ('m \<Rightarrow> string) \<Rightarrow> 'm handler_table \<Rightarrow> 'm http_txn \<Rightarrow> bool"
  for inited :: bool and getPath :: "'m \<Rightarrow> string" and a :: "'m handler_table" where
  init: "http_reach inited getPath a (factory_onRequest st)"
| step: "http_reach inited getPath a t \<Longrightarrow> http_step inited getPath a t t' \<Longrightarrow> http_reach inited getPath a t'"

text \<open>
  The task on its own: its next step, and the state after it was scheduled \<open>n\<close> times with
  nothing else happening to the transaction.
\<close>

definition task_step :: "('m \<Rightarrow> string) \<Rightarrow> 'm handler_table \<Rightarrow> 'm http_txn \<Rightarrow> 'm http_txn res" where
  "task_step getPath a t =
     (case ht_task t of
        Queued \<Rightarrow> task_run getPath a t | Running out \<Rightarrow> Inr (task_finish t) | _ \<Rightarrow> Inr t)"

fun task_steps :: "('m \<Rightarrow> string) \<Rightarrow> 'm handler_table \<Rightarrow> nat \<Rightarrow> 'm http_txn \<Rightarrow> 'm http_txn res" where
  "task_steps getPath a 0 t = Inr t"
| "task_steps getPath a (Suc n) t = rbind (task_step getPath a t) (task_steps getPath a n)"

lemma task_step_is_step:
  assumes "ht_task t \<notin> {NoTask, Finished}" "task_step getPath a t = Inr t'"
  shows "http_step inited getPath a t t'"
  using assms by (cases "ht_task t") (auto simp: task_step_def intro: http_step.intros)

section \<open>The invariant of a transaction\<close>

text \<open>What the function of the path makes of the whole request.\<close>

definition served :: "('m \<Rightarrow> string) \<Rightarrow> 'm handler_table \<Rightarrow> 'm http_txn \<Rightarrow> outcome" where
  "served getPath a t = OnHttpHandler getPath a (the (ht_msg t)) (whole (ht_pieces t)) ok_response"

definition collected :: "'m http_txn \<Rightarrow> 'm request_handler \<Rightarrow> bool" where
  "collected t h \<longleftrightarrow> rh_request h = ht_msg t \<and> rh_requestBody h = whole (ht_pieces t)"

fun task_ok :: "('m \<Rightarrow> string) \<Rightarrow> 'm handler_table \<Rightarrow> 'm http_txn \<Rightarrow> task \<Rightarrow> bool" where
  "task_ok getPath a t NoTask \<longleftrightarrow>
     ht_sent t = [] \<and> (\<exists>h. ht_handler t = Some h \<and> \<not> rh_self h \<and> collected t h)"
| "task_ok getPath a t Queued \<longleftrightarrow>
     ht_sent t = [] \<and> (case ht_handler t of None \<Rightarrow> ht_failed t | Some h \<Rightarrow> rh_self h \<and> collected t h)"
| "task_ok getPath a t (Running out) \<longleftrightarrow>
     ht_sent t = [] \<and> out = served getPath a t \<and>
     (case ht_handler t of None \<Rightarrow> ht_failed t | Some h \<Rightarrow> rh_self h)"
| "task_ok getPath a t Finished \<longleftrightarrow>
     (ht_sent t = [answer (served getPath a t)] \<or> ht_sent t = [] \<and> ht_failed t) \<and>
     (case ht_handler t of None \<Rightarrow> True | Some h \<Rightarrow> rh_self h)"

definition http_inv :: "bool \<Rightarrow> ('m \<Rightarrow> string) \<Rightarrow> 'm handler_table \<Rightarrow> 'm http_txn \<Rightarrow> bool" where
  "http_inv inited getPath a t \<longleftrightarrow>
     task_ok getPath a t (ht_task t) \<and>
     (ht_phase t = Idle \<longrightarrow> ht_msg t = None \<and> ht_pieces t = []) \<and>
     (ht_phase t \<in> {Receiving, Complete} \<longrightarrow> ht_msg t \<noteq> None) \<and>
     (ht_phase t \<in> {Idle, Receiving} \<longrightarrow> ht_task t = NoTask) \<and>
     (ht_task t \<noteq> NoTask \<longrightarrow> inited \<and> ht_msg t \<noteq> None) \<and>
     (ht_phase t \<noteq> Closed \<longrightarrow> ht_handler t \<noteq> None \<and> \<not> ht_failed t) \<and>
     (ht_phase t = Complete \<and> inited \<longrightarrow> ht_task t \<noteq> NoTask) \<and>
     (ht_phase t = Closed \<and> \<not> ht_failed t \<longrightarrow> ht_handler t = None \<and> ht_sent t \<noteq> [])"

lemma http_inv_init: "http_inv inited getPath a (factory_onRequest st)"
  by (simp add: http_inv_def factory_onRequest_def collected_def new_RabbitHttpRequestHandler_def whole_def)

lemma http_inv_step:
  assumes "http_inv inited getPath a t" "http_step inited getPath a t t'"
  shows "http_inv inited getPath a t'"
  using assms(2)
proof (cases rule: http_step.cases)
  case (head h m)
  then show ?thesis using assms(1) by (auto simp: http_inv_def collected_def handler_onRequest_def)
next
  case (body h b)
  then show ?thesis using assms(1) by (auto simp: http_inv_def collected_def handler_onBody_def whole_snoc)
next
  case (eom u)
  then show ?thesis using assms(1)
    by (auto simp: http_inv_def collected_def handler_onEOM_def split: if_splits)
next
  case run
  then show ?thesis using assms(1)
    by (auto simp: http_inv_def collected_def task_run_def served_def split: option.splits)
next
  case (finish out)
  then show ?thesis using assms(1)
    by (auto simp: http_inv_def task_finish_def served_def split: option.splits)
next
  case (complete u)
  then show ?thesis using assms(1)
    by (cases "ht_task t") (auto simp: http_inv_def handler_requestComplete_def reset_self_def served_def split: option.splits if_splits)
next
  case (error u)
  then show ?thesis using assms(1)
    by (cases "ht_task t")
       (auto simp: http_inv_def handler_onError_def reset_self_def served_def collected_def split: option.splits if_splits)
qed

lemma http_reach_inv: "http_reach inited getPath a t \<Longrightarrow> http_inv inited getPath a t"
  by (induction rule: http_reach.induct) (auto intro: http_inv_init http_inv_step)

section \<open>Properties\<close>

text \<open>A request for \<open>/echo\<close> with two pieces of body, and its states.\<close>

definition demo_table :: "string handler_table" where
  "demo_table = [''/echo'' \<mapsto> Some (\<lambda>m body r. Returned (r\<lparr>rs_body := ''seen''\<rparr>))]"

definition demo_received :: "stats \<Rightarrow> string http_txn" where
  "demo_received st = (factory_onRequest st)
     \<lparr>ht_phase := Receiving, ht_msg := Some ''/echo'', ht_pieces := [[1], [2]],
      ht_handler := Some \<lparr>rh_request = Some ''/echo'', rh_requestBody = Some [1, 2], rh_self = False\<rparr>\<rparr>"

definition demo_queued :: "stats \<Rightarrow> string http_txn" where
  "demo_queued st = (demo_received st)
     \<lparr>ht_stats := IncreaseStats st f_add_task, ht_task := Queued, ht_phase := Complete,
      ht_handler := Some \<lparr>rh_request = Some ''/echo'', rh_requestBody = Some [1, 2], rh_self = True\<rparr>\<rparr>"

lemma demo_received_reach: "http_reach inited id demo_table (demo_received st)"
proof -
  let ?h = "\<lparr>rh_request = Some ''/echo'', rh_requestBody = None, rh_self = False\<rparr> :: string request_handler"
  let ?t = "(factory_onRequest st)\<lparr>ht_phase := Receiving, ht_msg := Some ''/echo'', ht_handler := Some ?h\<rparr>"
  have s1: "http_reach inited id demo_table ?t"
    using http_reach.step [OF http_reach.init http_step.head, of st new_RabbitHttpRequestHandler inited id demo_table "''/echo''"]
    by (simp add: factory_onRequest_def handler_onRequest_def new_RabbitHttpRequestHandler_def)
  have s2: "http_reach inited id demo_table (?t\<lparr>ht_pieces := [[1]], ht_handler := Some (?h\<lparr>rh_requestBody := Some [1]\<rparr>)\<rparr>)"
    using http_reach.step [OF s1 http_step.body, of ?h "[1]"]
    by (simp add: factory_onRequest_def handler_onBody_def queue_append_def)
  show ?thesis
    using http_reach.step [OF s2 http_step.body, of "?h\<lparr>rh_requestBody := Some [1]\<rparr>" "[2]"]
    by (simp add: factory_onRequest_def handler_onBody_def queue_append_def demo_received_def)
qed

lemma demo_queued_reach: "http_reach True id demo_table (demo_queued st)"
proof -
  have "handler_onEOM True (demo_received st) = Inr ((demo_queued st)\<lparr>ht_phase := Receiving\<rparr>)"
    "ht_phase (demo_received st) = Receiving" "(demo_queued st)\<lparr>ht_phase := Complete\<rparr> = demo_queued st"
    by (simp_all add: demo_received_def demo_queued_def handler_onEOM_def factory_onRequest_def)
  with http_reach.step [OF demo_received_reach http_step.eom [OF this(2,1)]] show ?thesis by simp
qed

text \<open>
  C12. An HTTP transaction is answered at most once, and only with what the function registered
  for its path makes of the whole request (or the error page for what it throws), however
  messages, the fiber task and errors interleave; a task that finishes on a transaction
  without error has answered it; while proxygen may still call the handler it exists, and
  after a normal completion it has been freed.
\<close>

theorem http_answered_once:
  assumes "http_reach inited getPath a t"
  shows "(ht_sent t = [] \<or> ht_sent t = [answer (served getPath a t)]) \<and>
     (ht_task t = Finished \<and> \<not> ht_failed t \<longrightarrow> ht_sent t \<noteq> []) \<and>
     (ht_phase t \<noteq> Closed \<longrightarrow> ht_handler t \<noteq> None) \<and>
     (ht_phase t = Closed \<and> \<not> ht_failed t \<longrightarrow> ht_handler t = None \<and> ht_sent t \<noteq> [])"
  using http_reach_inv [OF assms] by (cases "ht_task t") (auto simp: http_inv_def)

text \<open>The two steps of the example's task.\<close>

definition demo_answered :: "stats \<Rightarrow> string http_txn" where
  "demo_answered st = (demo_queued st)
     \<lparr>ht_task := Finished, ht_sent := [\<lparr>rs_status = 200, rs_reason = ''OK'', rs_body = ''seen''\<rparr>],
      ht_handler := Some \<lparr>rh_request = Some ''/echo'', rh_requestBody = None, rh_self = True\<rparr>\<rparr>"

lemma demo_task_steps: "task_steps id demo_table 2 (demo_queued st) = Inr (demo_answered st)"
  by (simp add: numeral_2_eq_2 task_step_def demo_queued_def task_run_def task_finish_def demo_answered_def demo_received_def
      OnHttpHandler_def DispatchRabbitHttpHandler_def demo_table_def answer_def ok_response_def factory_onRequest_def)

lemma demo_answered_reach: "http_reach True id demo_table (demo_answered st)"
proof -
  have q: "ht_task (demo_queued st) = Queued" by (simp add: demo_queued_def)
  from demo_task_steps [of st] obtain u where u: "task_step id demo_table (demo_queued st) = Inr u"
    "task_step id demo_table u = Inr (demo_answered st)"
    by (auto simp: numeral_2_eq_2 rbind_eq_Inr_iff)
  have "http_reach True id demo_table u"
    by (rule http_reach.step [OF demo_queued_reach task_step_is_step [OF _ u(1)]]) (simp add: q)
  moreover have "ht_task u \<notin> {NoTask, Finished}"
    using u(1) q by (auto simp: task_step_def task_run_def split: option.splits)
  ultimately show ?thesis using http_reach.step task_step_is_step [OF _ u(2)] by blast
qed

theorem http_answered_once_witness:
  "\<forall>st. ht_sent (demo_answered st) = [answer (served id demo_table (demo_answered st))] \<and> ht_handler (demo_answered st) \<noteq> None"
  using http_answered_once [OF demo_answered_reach]
  by (simp add: demo_answered_def demo_queued_def demo_received_def factory_onRequest_def)

text \<open>
  C35. A complete request on a thread with fibers that was not answered yet is answered by its
  task alone: when the task is scheduled next, once if it has already started and twice if not, it
  sends the response for the whole request, and these are steps of the transaction.
\<close>

theorem http_request_gets_answer:
  assumes "http_reach True getPath a t" "ht_phase t = Complete" "ht_sent t = []"
  shows "\<exists>n \<le> 2. \<exists>t'. task_steps getPath a n t = Inr t' \<and> (http_step True getPath a ^^ n) t t' \<and>
     ht_phase t' = Complete \<and> ht_sent t' = [answer (served getPath a t)]"
proof -
  have inv: "http_inv True getPath a t" by (rule http_reach_inv [OF assms(1)])
  have fin: "\<exists>t'. task_step getPath a u = Inr t' \<and> http_step True getPath a u t' \<and> ht_phase t' = Complete \<and>
      ht_sent t' = [answer (served getPath a u)]"
    if "http_inv True getPath a u" "ht_task u = Running out" "ht_phase u = Complete" for u out
    using http_step.finish [OF that(2), of True getPath a] that
    by (intro exI [of _ "task_finish u"]) (auto simp: http_inv_def task_finish_def task_step_def split: option.splits)
  show ?thesis
  proof (cases "ht_task t")
    case Queued
    then obtain u where u: "task_run getPath a t = Inr u" "ht_task u = Running (served getPath a u)" "ht_phase u = Complete"
      "served getPath a u = served getPath a t"
      using inv assms(2) by (auto simp: http_inv_def task_run_def collected_def served_def split: option.splits)
    from http_step.run [OF Queued u(1)] have st: "http_step True getPath a t u" .
    from fin [OF http_inv_step [OF inv st] u(2,3)] obtain t' where t': "task_step getPath a u = Inr t'"
      "http_step True getPath a u t'" "ht_phase t' = Complete" "ht_sent t' = [answer (served getPath a t)]"
      unfolding u(4) by blast
    have "task_steps getPath a 2 t = Inr t'" using Queued u(1) t'(1) by (simp add: numeral_2_eq_2 task_step_def)
    moreover have "(http_step True getPath a ^^ 2) t t'" using st t'(2) by (auto simp: numeral_2_eq_2)
    ultimately show ?thesis using t'(3,4) by (intro exI [of _ 2]) auto
  next
    case (Running out)
    from fin [OF inv this assms(2)] obtain t' where t': "task_step getPath a t = Inr t'"
      "http_step True getPath a t t'" "ht_phase t' = Complete" "ht_sent t' = [answer (served getPath a t)]" by blast
    then show ?thesis by (intro exI [of _ 1]) auto
  qed (use inv assms(2,3) in \<open>auto simp: http_inv_def\<close>)
qed

theorem http_request_gets_answer_witness:
  "\<forall>st. \<exists>n \<le> 2. \<exists>t'. task_steps id demo_table n (demo_queued st) = Inr t' \<and>
     ht_sent t' = [\<lparr>rs_status = 200, rs_reason = ''OK'', rs_body = ''seen''\<rparr>]"
proof
  fix st
  have "ht_phase (demo_queued st) = Complete" "ht_sent (demo_queued st) = []"
    by (simp_all add: demo_queued_def demo_received_def factory_onRequest_def)
  moreover have "answer (served id demo_table (demo_queued st)) = \<lparr>rs_status = 200, rs_reason = ''OK'', rs_body = ''seen''\<rparr>"
    by (simp add: served_def demo_queued_def demo_received_def OnHttpHandler_def DispatchRabbitHttpHandler_def
        demo_table_def answer_def ok_response_def)
  ultimately show "\<exists>n \<le> 2. \<exists>t'. task_steps id demo_table n (demo_queued st) = Inr t' \<and>
     ht_sent t' = [\<lparr>rs_status = 200, rs_reason = ''OK'', rs_body = ''seen''\<rparr>]"
    using http_request_gets_answer [OF demo_queued_reach] by metis
qed

text \<open>
  C40. An error that arrives after the end of the message but before the fiber task first runs
  deletes the handler, and the task then reads the deleted object: it checks its weak pointer
  only after the function has returned.
\<close>

theorem http_error_before_task_crashes:
  assumes "http_reach inited getPath a t" "ht_task t = Queued" "ht_phase t \<noteq> Closed"
  shows "\<exists>t'. handler_onError t = Inr t' \<and> ht_task t' = Queued \<and> task_run getPath a t' = Inl UseAfterFree"
  using http_reach_inv [OF assms(1)] assms(2,3)
  by (auto simp: http_inv_def handler_onError_def reset_self_def task_run_def split: option.splits)

theorem http_error_before_task_crashes_witness:
  "\<forall>st. \<exists>t'. handler_onError (demo_queued st) = Inr t' \<and> task_run id demo_table t' = Inl UseAfterFree"
proof
  fix st
  have "ht_task (demo_queued st) = Queued" "ht_phase (demo_queued st) \<noteq> Closed" by (simp_all add: demo_queued_def)
  from http_error_before_task_crashes [OF demo_queued_reach this]
  show "\<exists>t'. handler_onError (demo_queued st) = Inr t' \<and> task_run id demo_table t' = Inl UseAfterFree" by blast
qed

text \<open>
  A handler whose message never ended, or whose thread has no fibers, is never freed, and
  gives no answer: only \<open>onEOM\<close> makes the object own itself.
\<close>

theorem http_handler_leaks:
  assumes "http_reach inited getPath a t" "\<not> inited \<or> ht_task t = NoTask"
  shows "ht_handler t \<noteq> None \<and> ht_sent t = []"
proof -
  have inv: "http_inv inited getPath a t" by (rule http_reach_inv [OF assms(1)])
  then have "ht_task t = NoTask" using assms(2) unfolding http_inv_def by blast
  moreover have "task_ok getPath a t (ht_task t)" using inv unfolding http_inv_def by blast
  ultimately show ?thesis by auto
qed

theorem http_handler_leaks_witness:
  "\<forall>st. ht_handler (demo_received st) \<noteq> None \<and> ht_sent (demo_received st) = []"
  using http_handler_leaks [OF demo_received_reach [of False]] by blast

text \<open>
  A request is dispatched to the function that was registered first for its path; a path
  nobody registered is answered with an empty 200.
\<close>

theorem http_dispatch_first_registration:
  "answer (DispatchRabbitHttpHandler getPath (fold (\<lambda>(k, f) a. RegisterTemplate a k f) regs Map.empty) m body ok_response) =
     (case map_of regs (getPath m) of
        Some (Some f) \<Rightarrow> answer (f m body ok_response)
      | _ \<Rightarrow> \<lparr>rs_status = 200, rs_reason = ''OK'', rs_body = []\<rparr>)"
proof -
  have "fold (\<lambda>(k, f) a. RegisterTemplate a k f) regs Map.empty (getPath m) = map_of regs (getPath m)"
    using http.look_fold_reg [of regs Map.empty "getPath m"] by simp
  then show ?thesis
    by (cases "map_of regs (getPath m)")
       (auto simp: DispatchRabbitHttpHandler_def answer_def ok_response_def split: option.split)
qed

end
