(* ===== verification/Http_Client.thy ===== *)
theory Http_Client
  imports Fiber_Data
begin

text \<open>
  Outgoing HTTP requests: \<open>RabbitHttpClient\<close> (\<open>net/rabbit_http_client\<close>), which talks to
  proxygen, the reference-counted \<open>HttpClient\<close> behind it, the asynchronous functions
  \<open>HttpClientGet\<close> and \<open>HttpClientPost\<close> and the synchronous ones that block a fiber
  (\<open>net/server/http_client\<close>). Parsing of URLs, name resolution, \<open>folly::split\<close> and the
  comparison of header names belong to libraries and are arguments; the transport appears as
  the callbacks it makes.
\<close>

section \<open>Replies\<close>

datatype reply_code = ReplyOK | ReplyINVALID | ReplyCONNECT_ERROR | ReplyHTTP_ERROR | ReplyNONE

fun reply_code_int :: "reply_code \<Rightarrow> int" where
  "reply_code_int ReplyOK = 0"
| "reply_code_int ReplyINVALID = -1"
| "reply_code_int ReplyCONNECT_ERROR = -2"
| "reply_code_int ReplyHTTP_ERROR = -3"
| "reply_code_int ReplyNONE = -4"

record 'm reply_data =
  rd_result :: reply_code
  rd_headers :: "'m option"
  rd_body :: "iobuf option"

definition new_HttpClientReplyData :: "'m reply_data" where
  "new_HttpClientReplyData = \<lparr>rd_result = ReplyNONE, rd_headers = None, rd_body = None\<rparr>"

text \<open>\<open>Move\<close> empties the pointers of the source; the result is the pair of source and target.\<close>

definition Reply_Move :: "'m reply_data \<Rightarrow> 'm reply_data \<times> 'm reply_data" where
  "Reply_Move r =
     (r\<lparr>rd_headers := None, rd_body := None\<rparr>,
      \<lparr>rd_result = rd_result r, rd_headers = rd_headers r, rd_body = rd_body r\<rparr>)"

definition Reply_ToString :: "'m reply_data \<Rightarrow> string" where
  "Reply_ToString r =
     ''result: '' @
     (let i = reply_code_int (rd_result r) in if i < 0 then CHR ''-'' # dec (nat (- i)) else dec (nat i)) @
     (case rd_body r of None \<Rightarrow> [] | Some b \<Rightarrow> map (\<lambda>x. char_of (unat x)) b)"

section \<open>Requests\<close>

datatype http_method = GET | POST | OtherMethod

type_synonym headers = "(string \<times> string) list"

text \<open>What the code asks a parsed \<open>proxygen::URL\<close>.\<close>

record url =
  url_valid :: bool
  url_host :: string
  url_port :: u16
  url_hostport :: string
  url_relative :: string
  url_secure :: bool

text \<open>
  The header string of \<open>Fetch\<close>: pairs separated by \<open>;\<close>, name and value by \<open>:\<close>. A pair with an
  empty name is skipped, anything after a second colon is dropped.
\<close>

definition parse_header :: "(char \<Rightarrow> string \<Rightarrow> string list) \<Rightarrow> string \<Rightarrow> (string \<times> string) option" where
  "parse_header split header_pair =
     (let nv = split CHR '':'' header_pair
      in if length nv > 0 then
           if nv ! 0 = [] then None
           else Some (nv ! 0, if length nv > 1 then nv ! 1 else [])
         else None)"

definition parse_headers :: "(char \<Rightarrow> string \<Rightarrow> string list) \<Rightarrow> string \<Rightarrow> headers" where
  "parse_headers split hs =
     (if hs \<noteq> [] then List.map_filter (parse_header split) (split CHR '';'' hs) else [])"

text \<open>
  \<open>S_GetHostByName\<close>: \<open>gethostbyname_r\<close> returns a code and, through pointers that may be null,
  an entry and its first address.
\<close>

definition S_GetHostByName ::
  "(string \<Rightarrow> int \<times> u32 option option) \<Rightarrow> (u32 \<Rightarrow> string) \<Rightarrow> string \<Rightarrow> string" where
  "S_GetHostByName gethostbyname_r inet_ntop hostname =
     (case gethostbyname_r hostname of
        (ret, Some (Some addr)) \<Rightarrow> if ret = 0 then inet_ntop addr else []
      | _ \<Rightarrow> [])"

section \<open>\<open>RabbitHttpClient\<close>\<close>

record rabbit_client =
  rc_httpMethod :: http_method
  rc_url :: url
  rc_headers :: headers
  rc_postData :: "iobuf option"
  rc_body :: "iobuf option"

definition new_RabbitHttpClient :: "http_method \<Rightarrow> url \<Rightarrow> headers \<Rightarrow> iobuf option \<Rightarrow> rabbit_client" where
  "new_RabbitHttpClient httpMethod u hs postData =
     \<lparr>rc_httpMethod = httpMethod, rc_url = u, rc_headers = hs, rc_postData = postData, rc_body = None\<rparr>"

datatype sent = SendHeaders http_method string bool headers | SendBody "iobuf option" | SendEOM | CloseWhenIdle

definition add_default :: "(string \<Rightarrow> headers \<Rightarrow> nat) \<Rightarrow> string \<Rightarrow> string \<Rightarrow> headers \<Rightarrow> headers" where
  "add_default getNumberOfValues name val hs =
     (if getNumberOfValues name hs = 0 then hs @ [(name, val)] else hs)"

definition rabbit_connectSuccess ::
  "(string \<Rightarrow> headers \<Rightarrow> nat) \<Rightarrow> rabbit_client \<Rightarrow> rabbit_client \<times> sent list" where
  "rabbit_connectSuccess getNumberOfValues c =
     (let hs1 = add_default getNumberOfValues ''User-Agent'' ''proxygen_curl'' (rc_headers c);
          hs2 = add_default getNumberOfValues ''Host'' (url_hostport (rc_url c)) hs1;
          hs3 = add_default getNumberOfValues ''Accept'' ''*/*'' hs2;
          c1 = c\<lparr>rc_headers := hs3\<rparr>;
          headers = SendHeaders (rc_httpMethod c) (url_relative (rc_url c)) (url_secure (rc_url c)) hs3
      in if rc_httpMethod c = POST
         then (c1\<lparr>rc_postData := None\<rparr>, [headers, SendBody (rc_postData c), SendEOM, CloseWhenIdle])
         else (c1, [headers, SendEOM, CloseWhenIdle]))"

text \<open>\<open>prependChain\<close> on the head of a chain puts the new buffers at its end.\<close>

definition rabbit_onBody :: "rabbit_client \<Rightarrow> iobuf \<Rightarrow> rabbit_client" where
  "rabbit_onBody c chain =
     c\<lparr>rc_body := (case rc_body c of None \<Rightarrow> Some chain | Some b \<Rightarrow> Some (b @ chain))\<rparr>"

definition getServerName :: "(string \<Rightarrow> headers \<Rightarrow> string) \<Rightarrow> rabbit_client \<Rightarrow> string" where
  "getServerName getSingleOrEmpty c =
     (let res = getSingleOrEmpty ''Host'' (rc_headers c) in if res = [] then url_host (rc_url c) else res)"

section \<open>\<open>HttpClient\<close>\<close>

text \<open>
  The object with its reference count; \<open>hc_alive\<close> is false once it has been deleted. The
  callback receives the reply by reference, so it is the function that changes the reply;
  \<open>hc_calls\<close> records the replies it was called with.
\<close>

record ('e, 'm) http_client =
  hc_evb :: 'e
  hc_cb :: "('m reply_data \<Rightarrow> 'm reply_data) option"
  hc_reply :: "'m reply_data"
  hc_http_client :: "rabbit_client option"
  hc_ref_count :: int
  hc_fiber_id :: int
  hc_alive :: bool
  hc_calls :: "'m reply_data list"

definition CreateHttpClient ::
  "'e \<Rightarrow> 'e option \<Rightarrow> ('m reply_data \<Rightarrow> 'm reply_data) option \<Rightarrow> int \<Rightarrow> ('e, 'm) http_client" where
  "CreateHttpClient this_evb evb cb fid =
     \<lparr>hc_evb = (case evb of None \<Rightarrow> this_evb | Some e \<Rightarrow> e), hc_cb = cb, hc_reply = new_HttpClientReplyData,
      hc_http_client = None, hc_ref_count = 0, hc_fiber_id = fid, hc_alive = True, hc_calls = []\<rparr>"

definition AddRef :: "('e, 'm) http_client \<Rightarrow> ('e, 'm) http_client" where
  "AddRef c = c\<lparr>hc_ref_count := hc_ref_count c + 1\<rparr>"

definition ReleaseRef :: "('e, 'm) http_client \<Rightarrow> ('e, 'm) http_client" where
  "ReleaseRef c =
     (if hc_ref_count c \<le> 0 then c
      else let c1 = c\<lparr>hc_ref_count := hc_ref_count c - 1\<rparr>
           in if hc_ref_count c1 = 0 then c1\<lparr>hc_alive := False\<rparr> else c1)"

definition call_cb :: "('e, 'm) http_client \<Rightarrow> ('e, 'm) http_client" where
  "call_cb c = (case hc_cb c of
       None \<Rightarrow> c
     | Some f \<Rightarrow> c\<lparr>hc_calls := hc_calls c @ [hc_reply c], hc_reply := f (hc_reply c)\<rparr>)"

definition Fetch ::
  "(string \<Rightarrow> url) \<Rightarrow> (string \<Rightarrow> string) \<Rightarrow> (char \<Rightarrow> string \<Rightarrow> string list) \<Rightarrow> ('e, 'm) http_client
   \<Rightarrow> http_method \<Rightarrow> string \<Rightarrow> string \<Rightarrow> string \<Rightarrow> ('e, 'm) http_client" where
  "Fetch URL getHostByName split c meth url headers post_data =
     (let url2 = URL url
      in if \<not> url_valid url2 then call_cb (c\<lparr>hc_reply := (hc_reply c)\<lparr>rd_result := ReplyINVALID\<rparr>\<rparr>)
         else if getHostByName (url_host url2) = [] then call_cb (c\<lparr>hc_reply := (hc_reply c)\<lparr>rd_result := ReplyINVALID\<rparr>\<rparr>)
         else
           let headers2 = parse_headers split headers;
               post_data2 = (if meth = POST \<and> post_data \<noteq> []
                             then Some (map (\<lambda>x. word_of_nat (of_char x)) post_data) else None)
           in (AddRef c)\<lparr>hc_http_client := Some (new_RabbitHttpClient meth url2 headers2 post_data2)\<rparr>)"

text \<open>The three-argument \<open>Fetch\<close>.\<close>

definition Fetch3 ::
  "(string \<Rightarrow> url) \<Rightarrow> (string \<Rightarrow> string) \<Rightarrow> (char \<Rightarrow> string \<Rightarrow> string list) \<Rightarrow> ('e, 'm) http_client
   \<Rightarrow> http_method \<Rightarrow> string \<Rightarrow> string \<Rightarrow> ('e, 'm) http_client" where
  "Fetch3 URL getHostByName split c meth url post_data = Fetch URL getHostByName split c meth url [] post_data"

definition OnHeadersComplete :: "('e, 'm) http_client \<Rightarrow> 'm \<Rightarrow> ('e, 'm) http_client" where
  "OnHeadersComplete c msg = c\<lparr>hc_reply := (hc_reply c)\<lparr>rd_headers := Some msg\<rparr>\<rparr>"

definition OnBodyComplete :: "('e, 'm) http_client \<Rightarrow> iobuf option \<Rightarrow> ('e, 'm) http_client" where
  "OnBodyComplete c body =
     (let c1 = (if rd_result (hc_reply c) = ReplyNONE
                then c\<lparr>hc_reply := (hc_reply c)\<lparr>rd_result := ReplyOK, rd_body := body\<rparr>\<rparr> else c)
      in ReleaseRef (call_cb c1))"

definition OnConnectError :: "('e, 'm) http_client \<Rightarrow> ('e, 'm) http_client" where
  "OnConnectError c = ReleaseRef (call_cb (c\<lparr>hc_reply := (hc_reply c)\<lparr>rd_result := ReplyCONNECT_ERROR\<rparr>\<rparr>))"

definition OnError :: "('e, 'm) http_client \<Rightarrow> ('e, 'm) http_client" where
  "OnError c = c\<lparr>hc_reply := (hc_reply c)\<lparr>rd_result := ReplyHTTP_ERROR\<rparr>\<rparr>"

section \<open>The asynchronous functions\<close>

definition HttpClientGet ::
  "(string \<Rightarrow> url) \<Rightarrow> (string \<Rightarrow> string) \<Rightarrow> (char \<Rightarrow> string \<Rightarrow> string list) \<Rightarrow> 'e \<Rightarrow> 'e option \<Rightarrow> string
   \<Rightarrow> ('m reply_data \<Rightarrow> 'm reply_data) option \<Rightarrow> ('e, 'm) http_client" where
  "HttpClientGet URL getHostByName split this_evb evb url cb =
     ReleaseRef (Fetch3 URL getHostByName split (AddRef (CreateHttpClient this_evb evb cb 0)) GET url [])"

definition HttpClientGet_headers ::
  "(string \<Rightarrow> url) \<Rightarrow> (string \<Rightarrow> string) \<Rightarrow> (char \<Rightarrow> string \<Rightarrow> string list) \<Rightarrow> 'e \<Rightarrow> 'e option \<Rightarrow> string
   \<Rightarrow> string \<Rightarrow> ('m reply_data \<Rightarrow> 'm reply_data) option \<Rightarrow> ('e, 'm) http_client" where
  "HttpClientGet_headers URL getHostByName split this_evb evb url headers cb =
     ReleaseRef (Fetch3 URL getHostByName split (AddRef (CreateHttpClient this_evb evb cb 0)) GET url headers)"

definition HttpClientPost ::
  "(string \<Rightarrow> url) \<Rightarrow> (string \<Rightarrow> string) \<Rightarrow> (char \<Rightarrow> string \<Rightarrow> string list) \<Rightarrow> 'e \<Rightarrow> 'e option \<Rightarrow> string
   \<Rightarrow> string \<Rightarrow> ('m reply_data \<Rightarrow> 'm reply_data) option \<Rightarrow> ('e, 'm) http_client" where
  "HttpClientPost URL getHostByName split this_evb evb url post_data cb =
     ReleaseRef (Fetch URL getHostByName split (AddRef (CreateHttpClient this_evb evb cb 0)) POST url [] post_data)"

definition HttpClientPost_headers ::
  "(string \<Rightarrow> url) \<Rightarrow> (string \<Rightarrow> string) \<Rightarrow> (char \<Rightarrow> string \<Rightarrow> string list) \<Rightarrow> 'e \<Rightarrow> 'e option \<Rightarrow> string
   \<Rightarrow> string \<Rightarrow> string \<Rightarrow> ('m reply_data \<Rightarrow> 'm reply_data) option \<Rightarrow> ('e, 'm) http_client" where
  "HttpClientPost_headers URL getHostByName split this_evb evb url headers post_data cb =
     ReleaseRef (Fetch URL getHostByName split (AddRef (CreateHttpClient this_evb evb cb 0)) POST url headers post_data)"

section \<open>What the transport reports\<close>

datatype 'm client_event = EConnected | EConnectError | EHeaders 'm | EBody iobuf | EError | EDetached

text \<open>
  The callbacks of \<open>RabbitHttpClient\<close>, each of which reaches the \<open>HttpClient\<close> that owns it, so
  an event after that object's deletion uses freed memory.
\<close>

definition client_event ::
  "(string \<Rightarrow> headers \<Rightarrow> nat) \<Rightarrow> ('e, 'm) http_client \<Rightarrow> 'm client_event \<Rightarrow> ('e, 'm) http_client res" where
  "client_event getNumberOfValues c ev =
     (if \<not> hc_alive c then Inl UseAfterFree
      else case hc_http_client c of
        None \<Rightarrow> Inl NullDeref
      | Some rc \<Rightarrow>
          (case ev of
             EConnected \<Rightarrow> Inr (c\<lparr>hc_http_client := Some (fst (rabbit_connectSuccess getNumberOfValues rc))\<rparr>)
           | EConnectError \<Rightarrow> Inr (OnConnectError c)
           | EHeaders msg \<Rightarrow> Inr (OnHeadersComplete c msg)
           | EBody chain \<Rightarrow> Inr (c\<lparr>hc_http_client := Some (rabbit_onBody rc chain)\<rparr>)
           | EError \<Rightarrow> Inr (OnError c)
           | EDetached \<Rightarrow> Inr (OnBodyComplete (c\<lparr>hc_http_client := Some (rc\<lparr>rc_body := None\<rparr>)\<rparr>) (rc_body rc))))"

fun client_run ::
  "(string \<Rightarrow> headers \<Rightarrow> nat) \<Rightarrow> ('e, 'm) http_client \<Rightarrow> 'm client_event list \<Rightarrow> ('e, 'm) http_client res" where
  "client_run g c [] = Inr c"
| "client_run g c (ev # evs) = rbind (client_event g c ev) (\<lambda>c'. client_run g c' evs)"

lemma client_run_append: "client_run g c (xs @ ys) = rbind (client_run g c xs) (\<lambda>c'. client_run g c' ys)"
  by (induction xs arbitrary: c) (auto simp: rbind_def split: sum.split)

text \<open>
  The order proxygen documents: an attempt fails, or it succeeds and the transaction reports
  headers, body and errors until it is detached.
\<close>

definition middle :: "'m client_event \<Rightarrow> bool" where
  "middle ev \<longleftrightarrow> ev \<notin> {EConnected, EConnectError, EDetached}"

definition complete_session :: "'m client_event list \<Rightarrow> bool" where
  "complete_session evs \<longleftrightarrow>
     evs = [EConnectError] \<or> (\<exists>mids. evs = EConnected # mids @ [EDetached] \<and> list_all middle mids)"

definition open_session :: "'m client_event list \<Rightarrow> bool" where
  "open_session evs \<longleftrightarrow> evs = [] \<or> (\<exists>mids. evs = EConnected # mids \<and> list_all middle mids)"

section \<open>The synchronous functions\<close>

text \<open>
  The callback of a synchronous request moves the reply into the caller's object and posts the
  fiber unless the request was invalid; both objects live as long as the call.
\<close>

definition sync_callback :: "'m reply_data \<Rightarrow> 'm reply_data" where
  "sync_callback r = fst (Reply_Move r)"

definition sync_reply :: "'m reply_data list \<Rightarrow> 'm reply_data" where
  "sync_reply calls = fold (\<lambda>r _. snd (Reply_Move r)) calls new_HttpClientReplyData"

definition sync_posts :: "nat \<Rightarrow> 'm reply_data list \<Rightarrow> 'f fiber_mgr \<Rightarrow> 'f fiber_mgr" where
  "sync_posts obj calls m = fold (\<lambda>r m. if rd_result r \<noteq> ReplyINVALID then Post_fiber m obj True else m) calls m"

text \<open>
  \<open>HttpClientSyncFetch\<close>: \<open>during\<close> are the events that arrive before the wait ends. The result is
  the manager, the statistics, the reply, the client object if one was made, and the call
  chain of the thread, which the function saves and restores.
\<close>

definition HttpClientSyncFetch_fiber ::
  "(string \<Rightarrow> headers \<Rightarrow> nat) \<Rightarrow> (string \<Rightarrow> url) \<Rightarrow> (string \<Rightarrow> string) \<Rightarrow> (char \<Rightarrow> string \<Rightarrow> string list)
   \<Rightarrow> 'e \<Rightarrow> 'e option \<Rightarrow> 'f fiber_mgr option \<Rightarrow> stats \<Rightarrow> 'c \<Rightarrow> http_method \<Rightarrow> string \<Rightarrow> string \<Rightarrow> string
   \<Rightarrow> 'm client_event list
   \<Rightarrow> ('f fiber_mgr option \<times> stats \<times> 'm reply_data \<times> ('e, 'm) http_client option \<times> 'c) res" where
  "HttpClientSyncFetch_fiber g URL getHostByName split this_evb evb fiber_data_manger st chain meth url headers post_data during =
     (case fiber_data_manger of
        None \<Rightarrow> Inr (None, st, new_HttpClientReplyData, None, chain)
      | Some m \<Rightarrow> rbind (AllocFiberData m) (\<lambda>(m1, fiber_data).
          case fiber_data of
            None \<Rightarrow> Inr (Some m1, st, new_HttpClientReplyData, None, chain)
          | Some obj \<Rightarrow>
              let chain_back = chain;
                  c = AddRef (CreateHttpClient this_evb evb (Some sync_callback) 0);
                  st1 = IncreaseStats st f_http;
                  c1 = Fetch URL getHostByName split c meth url headers post_data;
                  m2 = sync_posts obj (hc_calls c1) m1
              in if rd_result (sync_reply (hc_calls c1)) \<noteq> ReplyINVALID
                 then rbind (client_run g c1 during) (\<lambda>c2.
                   let m3 = Wait_fiber (sync_posts obj (drop (length (hc_calls c1)) (hc_calls c2)) m2) obj
                   in Inr (Some (fst (DeleteFiberData_ptr m3 obj)), st1, sync_reply (hc_calls c2), Some (ReleaseRef c2), chain_back))
                 else Inr (Some (fst (DeleteFiberData_ptr m2 obj)), st1, sync_reply (hc_calls c1), Some (ReleaseRef c1), chain_back)))"

text \<open>\<open>fm\<close> is the manager of the calling thread.\<close>

definition HttpClientSyncFetch ::
  "(string \<Rightarrow> headers \<Rightarrow> nat) \<Rightarrow> (string \<Rightarrow> url) \<Rightarrow> (string \<Rightarrow> string) \<Rightarrow> (char \<Rightarrow> string \<Rightarrow> string list)
   \<Rightarrow> 'e \<Rightarrow> 'e option \<Rightarrow> 'f fiber_mgr \<Rightarrow> stats \<Rightarrow> 'c \<Rightarrow> http_method \<Rightarrow> string \<Rightarrow> string \<Rightarrow> string \<Rightarrow> 'm client_event list
   \<Rightarrow> ('f fiber_mgr option \<times> stats \<times> 'm reply_data \<times> ('e, 'm) http_client option \<times> 'c) res" where
  "HttpClientSyncFetch g URL getHostByName split this_evb evb fm st chain meth url headers post_data during =
     (if \<not> fm_inited fm then Inr (Some fm, st, new_HttpClientReplyData, None, chain)
      else HttpClientSyncFetch_fiber g URL getHostByName split this_evb evb (Some fm) st chain meth url headers post_data during)"

definition HttpClientSyncGet ::
  "(string \<Rightarrow> headers \<Rightarrow> nat) \<Rightarrow> (string \<Rightarrow> url) \<Rightarrow> (string \<Rightarrow> string) \<Rightarrow> (char \<Rightarrow> string \<Rightarrow> string list)
   \<Rightarrow> 'e \<Rightarrow> 'e option \<Rightarrow> 'f fiber_mgr \<Rightarrow> stats \<Rightarrow> 'c \<Rightarrow> string \<Rightarrow> 'm client_event list
   \<Rightarrow> ('f fiber_mgr option \<times> stats \<times> 'm reply_data \<times> ('e, 'm) http_client option \<times> 'c) res" where
  "HttpClientSyncGet g URL G split te evb fm st chain url during =
     HttpClientSyncFetch g URL G split te evb fm st chain GET url [] [] during"

definition HttpClientSyncGet_headers ::
  "(string \<Rightarrow> headers \<Rightarrow> nat) \<Rightarrow> (string \<Rightarrow> url) \<Rightarrow> (string \<Rightarrow> string) \<Rightarrow> (char \<Rightarrow> string \<Rightarrow> string list)
   \<Rightarrow> 'e \<Rightarrow> 'e option \<Rightarrow> 'f fiber_mgr \<Rightarrow> stats \<Rightarrow> 'c \<Rightarrow> string \<Rightarrow> string \<Rightarrow> 'm client_event list
   \<Rightarrow> ('f fiber_mgr option \<times> stats \<times> 'm reply_data \<times> ('e, 'm) http_client option \<times> 'c) res" where
  "HttpClientSyncGet_headers g URL G split te evb fm st chain url headers during =
     HttpClientSyncFetch g URL G split te evb fm st chain GET url headers [] during"

definition HttpClientSyncPost ::
  "(string \<Rightarrow> headers \<Rightarrow> nat) \<Rightarrow> (string \<Rightarrow> url) \<Rightarrow> (string \<Rightarrow> string) \<Rightarrow> (char \<Rightarrow> string \<Rightarrow> string list)
   \<Rightarrow> 'e \<Rightarrow> 'e option \<Rightarrow> 'f fiber_mgr \<Rightarrow> stats \<Rightarrow> 'c \<Rightarrow> string \<Rightarrow> string \<Rightarrow> 'm client_event list
   \<Rightarrow> ('f fiber_mgr option \<times> stats \<times> 'm reply_data \<times> ('e, 'm) http_client option \<times> 'c) res" where
  "HttpClientSyncPost g URL G split te evb fm st chain url post_data during =
     HttpClientSyncFetch g URL G split te evb fm st chain POST url [] post_data during"

definition HttpClientSyncPost_headers ::
  "(string \<Rightarrow> headers \<Rightarrow> nat) \<Rightarrow> (string \<Rightarrow> url) \<Rightarrow> (string \<Rightarrow> string) \<Rightarrow> (char \<Rightarrow> string \<Rightarrow> string list)
   \<Rightarrow> 'e \<Rightarrow> 'e option \<Rightarrow> 'f fiber_mgr \<Rightarrow> stats \<Rightarrow> 'c \<Rightarrow> string \<Rightarrow> string \<Rightarrow> string \<Rightarrow> 'm client_event list
   \<Rightarrow> ('f fiber_mgr option \<times> stats \<times> 'm reply_data \<times> ('e, 'm) http_client option \<times> 'c) res" where
  "HttpClientSyncPost_headers g URL G split te evb fm st chain url headers post_data during =
     HttpClientSyncFetch g URL G split te evb fm st chain POST url headers post_data during"

section \<open>What a session amounts to\<close>

definition bodies :: "'m client_event list \<Rightarrow> iobuf list" where
  "bodies evs = List.map_filter (\<lambda>ev. case ev of EBody b \<Rightarrow> Some b | _ \<Rightarrow> None) evs"

definition last_headers :: "'m client_event list \<Rightarrow> 'm option" where
  "last_headers evs = fold (\<lambda>ev h. case ev of EHeaders m \<Rightarrow> Some m | _ \<Rightarrow> h) evs None"

text \<open>
  The reply of a session, as the callbacks of the client make it: an error after the headers leaves
  them in the reply.
\<close>

definition session_reply :: "'m client_event list \<Rightarrow> 'm reply_data" where
  "session_reply evs =
     (if evs = [EConnectError] then \<lparr>rd_result = ReplyCONNECT_ERROR, rd_headers = None, rd_body = None\<rparr>
      else if EError \<in> set evs then \<lparr>rd_result = ReplyHTTP_ERROR, rd_headers = last_headers evs, rd_body = None\<rparr>
      else \<lparr>rd_result = ReplyOK, rd_headers = last_headers evs, rd_body = whole (bodies evs)\<rparr>)"

lemma session_snoc:
  "bodies (evs @ [ev]) = bodies evs @ (case ev of EBody b \<Rightarrow> [b] | _ \<Rightarrow> [])"
  "last_headers (evs @ [ev]) = (case ev of EHeaders m \<Rightarrow> Some m | _ \<Rightarrow> last_headers evs)"
  by (auto simp: bodies_def last_headers_def List.map_filter_def split: client_event.splits)

text \<open>The client between the answer of the connector and the end of the transaction.\<close>

definition in_session :: "'m client_event list \<Rightarrow> int \<Rightarrow> ('e, 'm) http_client \<Rightarrow> bool" where
  "in_session evs n c \<longleftrightarrow>
     hc_alive c \<and> hc_ref_count c = n \<and> hc_calls c = [] \<and>
     (\<exists>rc. hc_http_client c = Some rc \<and> rc_body rc = whole (bodies evs)) \<and>
     hc_reply c = \<lparr>rd_result = (if EError \<in> set evs then ReplyHTTP_ERROR else ReplyNONE),
                   rd_headers = last_headers evs, rd_body = None\<rparr>"

lemma in_session_connected:
  assumes "in_session [] n c"
  obtains c' where "client_event g c EConnected = Inr c'" "in_session [EConnected] n c'" "hc_cb c' = hc_cb c"
  using assms
  by (auto simp: in_session_def client_event_def rabbit_connectSuccess_def Let_def bodies_def last_headers_def
      List.map_filter_def split: if_splits)

lemma in_session_middle:
  assumes "in_session evs n c" "middle ev"
  obtains c' where "client_event g c ev = Inr c'" "in_session (evs @ [ev]) n c'" "hc_cb c' = hc_cb c"
proof (cases ev)
  case (EBody b)
  from assms(1) obtain rc where rc: "hc_http_client c = Some rc" "rc_body rc = whole (bodies evs)" by (auto simp: in_session_def)
  have "rc_body (rabbit_onBody rc b) = whole (bodies evs @ [b])"
    using rc(2) by (simp add: rabbit_onBody_def whole_def)
  with assms(1) rc(1) EBody show ?thesis
    by (intro that [of "c\<lparr>hc_http_client := Some (rabbit_onBody rc b)\<rparr>"])
       (simp_all add: in_session_def client_event_def session_snoc)
qed (use assms in \<open>auto intro!: that simp: in_session_def client_event_def session_snoc middle_def
      OnHeadersComplete_def OnError_def\<close>)

lemma in_session_run:
  assumes "in_session evs n c" "list_all middle mids"
  shows "\<exists>c'. client_run g c mids = Inr c' \<and> in_session (evs @ mids) n c' \<and> hc_cb c' = hc_cb c"
  using assms
proof (induction mids arbitrary: c evs)
  case (Cons m ms)
  from Cons.prems(2) have "middle m" by simp
  from in_session_middle [OF Cons.prems(1) this, of g] obtain c1 where
    "client_event g c m = Inr c1" "in_session (evs @ [m]) n c1" "hc_cb c1 = hc_cb c" by blast
  moreover from Cons.IH [OF this(2)] Cons.prems(2) obtain c' where
    "client_run g c1 ms = Inr c'" "in_session ((evs @ [m]) @ ms) n c'" "hc_cb c' = hc_cb c1" by auto
  ultimately show ?case by simp
qed simp

lemma open_session_run:
  assumes "in_session [] n c" "open_session evs"
  shows "\<exists>c'. client_run g c evs = Inr c' \<and> in_session evs n c' \<and> hc_cb c' = hc_cb c"
proof (cases "evs = []")
  case False
  then obtain mids where mids: "evs = EConnected # mids" "list_all middle mids"
    using assms(2) by (auto simp: open_session_def)
  from in_session_connected [OF assms(1), of g] obtain c1 where
    c1: "client_event g c EConnected = Inr c1" "in_session [EConnected] n c1" "hc_cb c1 = hc_cb c" by blast
  from in_session_run [OF c1(2) mids(2), of g] c1 mids(1) show ?thesis by auto
qed (use assms in auto)

text \<open>The end of a session: one call of the callback, one reference less.\<close>

definition released :: "int \<Rightarrow> 'm reply_data \<Rightarrow> ('e, 'm) http_client \<Rightarrow> bool" where
  "released n r c \<longleftrightarrow>
     hc_ref_count c = n \<and> hc_alive c = (n \<noteq> 0) \<and> hc_calls c = (if hc_cb c = None then [] else [r])"

lemma ReleaseRef_parts:
  assumes "0 < hc_ref_count c"
  shows "hc_ref_count (ReleaseRef c) = hc_ref_count c - 1" "hc_alive (ReleaseRef c) = (hc_alive c \<and> hc_ref_count c \<noteq> 1)"
    "hc_calls (ReleaseRef c) = hc_calls c" "hc_cb (ReleaseRef c) = hc_cb c"
    "hc_reply (ReleaseRef c) = hc_reply c" "hc_http_client (ReleaseRef c) = hc_http_client c"
  using assms by (auto simp: ReleaseRef_def Let_def)

lemma call_cb_parts:
  "hc_ref_count (call_cb c) = hc_ref_count c" "hc_alive (call_cb c) = hc_alive c"
  "hc_calls (call_cb c) = hc_calls c @ (if hc_cb c = None then [] else [hc_reply c])" "hc_cb (call_cb c) = hc_cb c"
  "hc_http_client (call_cb c) = hc_http_client c"
  by (auto simp: call_cb_def split: option.splits)

lemma in_session_detach:
  assumes "in_session evs n c" "0 < n" "evs \<noteq> []"
  shows "\<exists>c'. client_event g c EDetached = Inr c' \<and> released (n - 1) (session_reply (evs @ [EDetached])) c' \<and> hc_cb c' = hc_cb c"
  using assms
  by (auto simp: in_session_def client_event_def OnBodyComplete_def released_def ReleaseRef_parts call_cb_parts
      session_reply_def session_snoc Let_def)

text \<open>However far a session has come, its remaining events end it.\<close>

lemma session_end:
  assumes "in_session evs n c" "0 < n" "open_session evs" "complete_session (evs @ later)"
  shows "\<exists>c'. client_run g c later = Inr c' \<and> released (n - 1) (session_reply (evs @ later)) c' \<and> hc_cb c' = hc_cb c"
proof (cases "evs @ later = [EConnectError]")
  case True
  then have "evs = []" "later = [EConnectError]" using assms(3) by (auto simp: open_session_def Cons_eq_append_conv)
  with assms(1,2) show ?thesis
    by (auto simp: in_session_def client_event_def OnConnectError_def released_def ReleaseRef_parts call_cb_parts
        session_reply_def bodies_def last_headers_def)
next
  case False
  then obtain mids where mids: "evs @ later = EConnected # mids @ [EDetached]" "list_all middle mids"
    using assms(4) by (auto simp: complete_session_def)
  have "later \<noteq> []"
  proof
    assume "later = []"
    with mids(1) have "evs = EConnected # mids @ [EDetached]" by simp
    then show False using assms(3) by (auto simp: open_session_def middle_def)
  qed
  then obtain rest where later: "later = rest @ [EDetached]"
    using mids(1) by (metis append_butlast_last_id last_appendR last_ConsR last_snoc append_is_Nil_conv list.simps(3))
  then have er: "evs @ rest = EConnected # mids" using mids(1) by simp
  then have "\<exists>c1. client_run g c rest = Inr c1 \<and> in_session (evs @ rest) n c1 \<and> hc_cb c1 = hc_cb c"
  proof (cases evs)
    case Nil
    then show ?thesis using open_session_run [of n c rest g] assms(1) er mids(2) by (auto simp: open_session_def)
  next
    case (Cons e es)
    with er mids(2) have "list_all middle rest" by auto
    from in_session_run [OF assms(1) this, of g] show ?thesis .
  qed
  then obtain c1 where c1: "client_run g c rest = Inr c1" "in_session (evs @ rest) n c1" "hc_cb c1 = hc_cb c" by blast
  have "client_run g c later = client_event g c1 EDetached"
    unfolding later client_run_append c1(1) by (cases "client_event g c1 EDetached") simp_all
  moreover have "evs @ rest \<noteq> []" unfolding er by simp
  ultimately show ?thesis
    using in_session_detach [OF c1(2) assms(2), of g] c1(3) unfolding later by simp
qed

lemma complete_session_run:
  assumes "in_session [] n c" "0 < n" "complete_session evs"
  shows "\<exists>c'. client_run g c evs = Inr c' \<and> released (n - 1) (session_reply evs) c' \<and> hc_cb c' = hc_cb c"
  using session_end [OF assms(1,2), of evs g] assms(3) by (simp add: open_session_def)

section \<open>Starting a request\<close>

definition usable :: "(string \<Rightarrow> url) \<Rightarrow> (string \<Rightarrow> string) \<Rightarrow> string \<Rightarrow> bool" where
  "usable URL getHostByName url \<longleftrightarrow> url_valid (URL url) \<and> getHostByName (url_host (URL url)) \<noteq> []"

lemmas request_defs =
  HttpClientGet_def HttpClientGet_headers_def HttpClientPost_def HttpClientPost_headers_def Fetch3_def

lemma Fetch_usable:
  assumes "usable URL G url"
  shows "in_session [] 2 (Fetch URL G split (AddRef (CreateHttpClient te evb cb fid)) meth url headers post)"
    "hc_cb (Fetch URL G split (AddRef (CreateHttpClient te evb cb fid)) meth url headers post) = cb"
  using assms
  by (auto simp: usable_def Fetch_def AddRef_def CreateHttpClient_def in_session_def new_HttpClientReplyData_def
      new_RabbitHttpClient_def bodies_def last_headers_def whole_def List.map_filter_def Let_def)

lemma Fetch_not_usable:
  assumes "\<not> usable URL G url"
  shows "Fetch URL G split c meth url headers post = call_cb (c\<lparr>hc_reply := (hc_reply c)\<lparr>rd_result := ReplyINVALID\<rparr>\<rparr>)"
  using assms by (auto simp: usable_def Fetch_def Let_def)

lemma in_session_release:
  assumes "in_session evs n c" "1 < n"
  shows "in_session evs (n - 1) (ReleaseRef c)"
  using assms by (auto simp: in_session_def ReleaseRef_parts)

lemma request_start:
  assumes c_def: "c = ReleaseRef (Fetch URL G split (AddRef (CreateHttpClient te evb cb fid)) meth url headers post)"
  shows "usable URL G url \<Longrightarrow> in_session [] 1 c \<and> hc_cb c = cb"
    "\<not> usable URL G url \<Longrightarrow> released 0 \<lparr>rd_result = ReplyINVALID, rd_headers = None, rd_body = None\<rparr> c \<and> hc_cb c = cb"
proof -
  let ?c = "Fetch URL G split (AddRef (CreateHttpClient te evb cb fid)) meth url headers post"
  assume u: "usable URL G url"
  have "0 < hc_ref_count ?c" using Fetch_usable(1) [OF u, of split te evb cb fid meth headers post] by (simp add: in_session_def)
  then show "in_session [] 1 c \<and> hc_cb c = cb"
    using in_session_release [OF Fetch_usable(1) [OF u, of split te evb cb fid meth headers post]]
      Fetch_usable(2) [OF u, of split te evb cb fid meth headers post] by (simp add: c_def ReleaseRef_parts)
next
  assume "\<not> usable URL G url"
  then show "released 0 \<lparr>rd_result = ReplyINVALID, rd_headers = None, rd_body = None\<rparr> c \<and> hc_cb c = cb"
    by (simp add: c_def Fetch_not_usable released_def ReleaseRef_parts call_cb_parts AddRef_def CreateHttpClient_def
        new_HttpClientReplyData_def)
qed

section \<open>The fiber of a synchronous request\<close>

lemma Reply_Move_target [simp]: "snd (Reply_Move r) = r"
  by (cases r) (simp add: Reply_Move_def)

lemma sync_reply_simps [simp]: "sync_reply [] = new_HttpClientReplyData" "sync_reply [r] = r"
  by (simp_all add: sync_reply_def)

lemma sync_posts_parts:
  "fm_datas (sync_posts obj calls m) = fm_datas m"
  "fiber_id (fm_store (sync_posts obj calls m) x) = fiber_id (fm_store m x)"
  unfolding sync_posts_def
  by (induction calls arbitrary: m) (auto simp: Post_fiber_def FiberDataInfo_Post_def)

lemma Wait_fiber_parts:
  "fm_datas (Wait_fiber m obj) = fm_datas m" "fiber_id (fm_store (Wait_fiber m obj) x) = fiber_id (fm_store m x)"
  by (auto simp: Wait_fiber_def FiberDataInfo_Wait_def)

lemma FindFiberData_cong: "fm_datas m = fm_datas m' \<Longrightarrow> FindFiberData m = FindFiberData m'"
  by (simp add: FindFiberData_def fun_eq_iff)

section \<open>Splitting strings\<close>

text \<open>The documented behaviour of \<open>folly::split\<close>: the pieces between the delimiters, empty ones included.\<close>

fun joined :: "char \<Rightarrow> string list \<Rightarrow> string" where
  "joined d [] = []"
| "joined d [x] = x"
| "joined d (x # xs) = x @ d # joined d xs"

definition splits :: "(char \<Rightarrow> string \<Rightarrow> string list) \<Rightarrow> bool" where
  "splits split \<longleftrightarrow> (\<forall>d xs. xs \<noteq> [] \<longrightarrow> (\<forall>x \<in> set xs. d \<notin> set x) \<longrightarrow> split d (joined d xs) = xs)"

fun split_at :: "char \<Rightarrow> string \<Rightarrow> string list" where
  "split_at d [] = [[]]"
| "split_at d (x # xs) = (if x = d then [] # split_at d xs else (x # hd (split_at d xs)) # tl (split_at d xs))"

lemma split_at_no_delim: "d \<notin> set x \<Longrightarrow> split_at d x = [x]"
  by (induction x) auto

lemma split_at_append: "d \<notin> set x \<Longrightarrow> split_at d (x @ d # ys) = x # split_at d ys"
  by (induction x) auto

lemma splits_split_at: "splits split_at"
proof -
  have "split_at d (joined d xs) = xs" if "xs \<noteq> []" "\<forall>x \<in> set xs. d \<notin> set x" for d xs
    using that
  proof (induction xs rule: list_nonempty_induct)
    case (cons x xs)
    then have "joined d (x # xs) = x @ d # joined d xs" by (cases xs) simp_all
    with cons show ?case by (simp add: split_at_append)
  qed (simp add: split_at_no_delim)
  then show ?thesis by (simp add: splits_def)
qed

definition render_headers :: "headers \<Rightarrow> string" where
  "render_headers hs = joined CHR '';'' (map (\<lambda>(n, v). joined CHR '':'' [n, v]) hs)"

definition plain_header :: "string \<times> string \<Rightarrow> bool" where
  "plain_header h \<longleftrightarrow> fst h \<noteq> [] \<and> set (fst h @ snd h) \<inter> {CHR '':'', CHR '';''} = {}"

lemma parse_header_plain:
  assumes "splits split" "plain_header (n, v)"
  shows "parse_header split (joined CHR '':'' [n, v]) = Some (n, v)"
proof -
  have "split CHR '':'' (joined CHR '':'' [n, v]) = [n, v]"
    using assms(2) by (intro assms(1) [unfolded splits_def, rule_format]) (auto simp: plain_header_def)
  then show ?thesis using assms(2) unfolding parse_header_def Let_def by (simp add: plain_header_def)
qed

section \<open>Properties\<close>

text \<open>
  C13. Every asynchronous request tells its callback exactly once and frees itself at that
  moment: with the invalid reply at once if the address is unusable, otherwise at the end of
  its session with the reply that session amounts to; until then it is alive and silent. No
  event of a session uses freed memory. The reply of a session that failed after its headers came
  is \<open>HTTP_ERROR\<close> with those headers, although the comment in \<open>http_client.h\<close> promises them for result
  0 only.
\<close>

theorem http_client_calls_back_once:
  assumes "c \<in> {HttpClientGet URL G split te evb url cb, HttpClientGet_headers URL G split te evb url headers cb,
      HttpClientPost URL G split te evb url post cb, HttpClientPost_headers URL G split te evb url headers post cb}"
    and "cb \<noteq> None"
  shows "(\<not> usable URL G url \<longrightarrow>
        \<not> hc_alive c \<and> hc_calls c = [\<lparr>rd_result = ReplyINVALID, rd_headers = None, rd_body = None\<rparr>]) \<and>
     (usable URL G url \<longrightarrow>
        (\<forall>evs. open_session evs \<longrightarrow> (\<exists>c'. client_run g c evs = Inr c' \<and> hc_alive c' \<and> hc_calls c' = [])) \<and>
        (\<forall>evs. complete_session evs \<longrightarrow>
           (\<exists>c'. client_run g c evs = Inr c' \<and> \<not> hc_alive c' \<and> hc_calls c' = [session_reply evs])))"
proof -
  from assms(1) obtain meth hs po where
    c: "c = ReleaseRef (Fetch URL G split (AddRef (CreateHttpClient te evb cb 0)) meth url hs po)"
    unfolding request_defs by blast
  show ?thesis
  proof (cases "usable URL G url")
    case False
    from request_start(2) [OF c False] assms(2) False show ?thesis by (simp add: released_def)
  next
    case True
    from request_start(1) [OF c True] have s: "in_session [] 1 c" "hc_cb c = cb" by auto
    have "\<exists>c'. client_run g c evs = Inr c' \<and> hc_alive c' \<and> hc_calls c' = []" if "open_session evs" for evs
      using open_session_run [OF s(1) that, of g] by (auto simp: in_session_def)
    moreover have "\<exists>c'. client_run g c evs = Inr c' \<and> \<not> hc_alive c' \<and> hc_calls c' = [session_reply evs]"
      if "complete_session evs" for evs
      using complete_session_run [OF s(1) _ that, of g] s(2) assms(2) by (auto simp: released_def)
    ultimately show ?thesis using True by blast
  qed
qed

definition demo_url :: "string \<Rightarrow> url" where
  "demo_url u = \<lparr>url_valid = (u \<noteq> []), url_host = u, url_port = 80, url_hostport = u, url_relative = ''/'', url_secure = False\<rparr>"

theorem http_client_calls_back_once_witness:
  "\<exists>c'. client_run (\<lambda>_ _. 0) (HttpClientGet demo_url id split_at () None ''h'' (Some id))
      [EConnected, EHeaders ''200'', EBody [1], EBody [2, 3], EDetached] = Inr c' \<and> \<not> hc_alive c' \<and>
     hc_calls c' = [\<lparr>rd_result = ReplyOK, rd_headers = Some ''200'', rd_body = Some [1, 2, 3]\<rparr>]"
proof -
  let ?evs = "[EConnected, EHeaders ''200'', EBody [1], EBody [2, 3], EDetached]"
  have "complete_session ?evs"
    unfolding complete_session_def
    by (intro disjI2 exI [of _ "[EHeaders ''200'', EBody [1], EBody [2, 3]]"]) (simp add: middle_def)
  moreover have "session_reply ?evs = \<lparr>rd_result = ReplyOK, rd_headers = Some ''200'', rd_body = Some [1, 2, 3]\<rparr>"
    by (simp add: session_reply_def last_headers_def bodies_def whole_def List.map_filter_def)
  moreover have "usable demo_url id ''h''" by (simp add: usable_def demo_url_def)
  ultimately show ?thesis
    using http_client_calls_back_once [of "HttpClientGet demo_url id split_at () None ''h'' (Some id)" demo_url id split_at "()"
      None "''h''" "Some id" "[]" "[]" "\<lambda>_ _. 0"] by auto
qed

text \<open>
  The comment on \<open>HttpClientReplyData\<close> says that headers and body are set only when the result is
  0. A session that fails after its headers have arrived hands over those headers with the result
  \<open>HTTP_ERROR\<close>: \<open>OnHeadersComplete\<close> has stored them, and \<open>OnError\<close> changes the result alone.
\<close>

theorem error_reply_carries_headers:
  assumes "usable URL G url" "cb \<noteq> None" "complete_session evs" "EError \<in> set evs" "EHeaders h \<in> set evs"
  shows "\<exists>c' r. client_run g (HttpClientGet URL G split te evb url cb) evs = Inr c' \<and> hc_calls c' = [r] \<and>
     rd_result r = ReplyHTTP_ERROR \<and> rd_headers r \<noteq> None"
proof -
  have "HttpClientGet URL G split te evb url cb \<in> {HttpClientGet URL G split te evb url cb}" by simp
  then obtain meth hs po where
    c: "HttpClientGet URL G split te evb url cb = ReleaseRef (Fetch URL G split (AddRef (CreateHttpClient te evb cb 0)) meth url hs po)"
    unfolding request_defs by blast
  from request_start(1) [OF c assms(1)] have s: "in_session [] 1 (HttpClientGet URL G split te evb url cb)"
    "hc_cb (HttpClientGet URL G split te evb url cb) = cb" by auto
  from complete_session_run [OF s(1) _ assms(3), of g] s(2) assms(2) obtain c' where
    c': "client_run g (HttpClientGet URL G split te evb url cb) evs = Inr c'" "hc_calls c' = [session_reply evs]"
    by (auto simp: released_def)
  have "last_headers evs \<noteq> None" using assms(5)
  proof (induction evs rule: rev_induct)
    case (snoc ev evs)
    then show ?case by (cases ev) (auto simp: session_snoc)
  qed simp
  moreover have "evs \<noteq> [EConnectError]" using assms(4) by auto
  ultimately have "rd_result (session_reply evs) = ReplyHTTP_ERROR" "rd_headers (session_reply evs) \<noteq> None"
    using assms(4) by (simp_all add: session_reply_def)
  with c' show ?thesis by blast
qed

text \<open>
  C33. The header string survives the way through \<open>Fetch\<close>: names and values without colon and
  semicolon come out as they were written, in order; and no request without a name is added.
\<close>

theorem parse_headers_roundtrip:
  assumes "splits split" "\<forall>h \<in> set hs. plain_header h"
  shows "parse_headers split (render_headers hs) = hs"
proof (cases "hs = []")
  case True
  then show ?thesis by (simp add: parse_headers_def render_headers_def)
next
  case False
  let ?ps = "map (\<lambda>(n, v). joined CHR '':'' [n, v]) hs"
  have "render_headers hs \<noteq> []"
    using assms(2) False by (cases hs; cases "tl hs") (auto simp: render_headers_def plain_header_def)
  moreover have "split CHR '';'' (render_headers hs) = ?ps"
    unfolding render_headers_def using assms False
    by (intro assms(1) [unfolded splits_def, rule_format]) (auto simp: plain_header_def)
  moreover have "List.map_filter (parse_header split) ?ps = hs"
    using assms(2)
  proof (induction hs)
    case (Cons h hs)
    then show ?case
      using parse_header_plain [OF assms(1), of "fst h" "snd h"] by (simp add: List.map_filter_simps split_def)
  qed (simp add: List.map_filter_simps)
  ultimately show ?thesis by (simp add: parse_headers_def)
qed

theorem parse_headers_roundtrip_witness:
  "parse_headers split_at (render_headers [(''Accept'', ''text''), (''X'', [])]) = [(''Accept'', ''text''), (''X'', [])]"
  by (rule parse_headers_roundtrip [OF splits_split_at]) (simp add: plain_header_def)

text \<open>
  \<open>HttpClientGet\<close> with a header string sends the request of the one without: the string is
  passed in the place of the data to post, which a \<open>GET\<close> ignores.
\<close>

theorem get_drops_headers:
  "HttpClientGet_headers URL G split te evb url headers cb = HttpClientGet URL G split te evb url cb"
  by (simp add: request_defs Fetch_def)

text \<open>
  A synchronous request on a fiber: an unusable address is reported at once; if the session
  ends before the wait does, the caller gets the reply the session amounts to and the client is
  gone; if the wait ends first, the caller gets the reply \<open>NONE\<close>, the client stays alive for
  its transport and is freed by the rest of the session, without touching the caller's
  objects. In every case the table of fibers answers as before and the call chain is restored.
\<close>

theorem http_sync_fetch:
  fixes during :: "'m client_event list" and te :: 'e
  assumes "fm_inited m" "length (fm_datas m) < FIBER_MAX_QUEUE_SIZE"
    and "map_of (fm_datas m) (ucast (next_fiber m)) = None"
    and "open_session during \<or> complete_session during"
  shows "\<exists>m' r c. HttpClientSyncFetch g URL G split te evb m st chain meth url headers post during =
       Inr (Some m', IncreaseStats st f_http, r, Some c, chain) \<and>
     FindFiberData m' = FindFiberData m \<and>
     (\<not> usable URL G url \<longrightarrow> r = \<lparr>rd_result = ReplyINVALID, rd_headers = None, rd_body = None\<rparr> \<and> \<not> hc_alive c) \<and>
     (usable URL G url \<and> complete_session during \<longrightarrow> r = session_reply during \<and> \<not> hc_alive c) \<and>
     (usable URL G url \<and> \<not> complete_session during \<longrightarrow>
        r = \<lparr>rd_result = ReplyNONE, rd_headers = None, rd_body = None\<rparr> \<and> hc_alive c \<and>
        (\<forall>later. complete_session (during @ later) \<longrightarrow> (\<exists>c'. client_run g c later = Inr c' \<and> \<not> hc_alive c')))"
proof -
  obtain m1 obj where al: "AllocFiberData m = Inr (m1, Some obj)"
    using assms(1,2) by (simp add: AllocFiberData_def Let_def)
  define c1 :: "('e, 'm) http_client" where "c1 = Fetch URL G split (AddRef (CreateHttpClient te evb (Some sync_callback) 0)) meth url headers post"
  have find: "FindFiberData (fst (DeleteFiberData_ptr m2 obj)) = FindFiberData m"
    if "fm_datas m2 = fm_datas m1" "fiber_id (fm_store m2 obj) = fiber_id (fm_store m1 obj)" for m2
    by (rule FindFiberData_cong) (rule alloc_delete_datas [OF al assms(3) that])
  have fetch: "HttpClientSyncFetch g URL G split te evb m st chain meth url headers post during =
    (if rd_result (sync_reply (hc_calls c1)) \<noteq> ReplyINVALID
     then rbind (client_run g c1 during) (\<lambda>c2.
       Inr (Some (fst (DeleteFiberData_ptr (Wait_fiber (sync_posts obj (drop (length (hc_calls c1)) (hc_calls c2))
         (sync_posts obj (hc_calls c1) m1)) obj) obj)), IncreaseStats st f_http, sync_reply (hc_calls c2), Some (ReleaseRef c2), chain))
     else Inr (Some (fst (DeleteFiberData_ptr (sync_posts obj (hc_calls c1) m1) obj)), IncreaseStats st f_http,
       sync_reply (hc_calls c1), Some (ReleaseRef c1), chain))"
    using assms(1) al by (simp add: HttpClientSyncFetch_def HttpClientSyncFetch_fiber_def Let_def c1_def)
  note parts = find sync_posts_parts Wait_fiber_parts
  show ?thesis
  proof (cases "usable URL G url")
    case False
    then have "hc_calls c1 = [\<lparr>rd_result = ReplyINVALID, rd_headers = None, rd_body = None\<rparr>]"
      "hc_ref_count c1 = 1"
      by (simp_all add: c1_def Fetch_not_usable call_cb_parts AddRef_def CreateHttpClient_def new_HttpClientReplyData_def)
    with False fetch show ?thesis by (simp add: parts ReleaseRef_parts)
  next
    case True
    from Fetch_usable [OF True, of split te evb "Some sync_callback" 0 meth headers post]
    have s: "in_session [] 2 c1" "hc_cb c1 = Some sync_callback" "hc_calls c1 = []" unfolding c1_def by (auto simp: in_session_def)
    show ?thesis
    proof (cases "complete_session during")
      case ended: True
      from complete_session_run [OF s(1) _ ended, of g] s(2) obtain c2 where
        c2: "client_run g c1 during = Inr c2" "hc_ref_count c2 = 1" "hc_calls c2 = [session_reply during]"
        by (auto simp: released_def)
      with True ended s(3) fetch show ?thesis
        by (simp add: parts ReleaseRef_parts new_HttpClientReplyData_def)
    next
      case pending: False
      then have op: "open_session during" using assms(4) by simp
      from open_session_run [OF s(1) op, of g] obtain c2 where
        c2: "client_run g c1 during = Inr c2" "in_session during 2 c2" by blast
      have c3: "in_session during 1 (ReleaseRef c2)" using in_session_release [OF c2(2)] by simp
      have "\<exists>c'. client_run g (ReleaseRef c2) later = Inr c' \<and> \<not> hc_alive c'" if "complete_session (during @ later)" for later
        using session_end [OF c3 _ op that, of g] by (auto simp: released_def)
      with True pending s(3) c2 c3 fetch show ?thesis
        by (simp add: parts in_session_def new_HttpClientReplyData_def)
    qed
  qed
qed

theorem http_sync_fetch_witness:
  "\<exists>m' r c. HttpClientSyncFetch (\<lambda>_ _. 0) demo_url id split_at () None
       (fst (FiberDataManager_Initialize (new_FiberDataManager 8) ''evb'' 3)) (new_Stats [] 7) ''chain''
       GET ''h'' [] [] [EConnectError :: string client_event] =
     Inr (Some m', IncreaseStats (new_Stats [] 7) f_http, r, Some c, ''chain'') \<and> rd_result r = ReplyCONNECT_ERROR"
proof -
  let ?m = "fst (FiberDataManager_Initialize (new_FiberDataManager 8) ''evb'' 3)"
  have m: "fm_inited ?m" "length (fm_datas ?m) < FIBER_MAX_QUEUE_SIZE" "map_of (fm_datas ?m) (ucast (next_fiber ?m)) = None"
    by (simp_all add: FiberDataManager_Initialize_def new_FiberDataManager_def FIBER_MAX_QUEUE_SIZE_def)
  have e: "complete_session [EConnectError :: string client_event]" by (simp add: complete_session_def)
  moreover have "rd_result (session_reply [EConnectError :: string client_event]) = ReplyCONNECT_ERROR"
    by (simp add: session_reply_def)
  moreover have "usable demo_url id ''h''" by (simp add: usable_def demo_url_def)
  ultimately show ?thesis
    using http_sync_fetch [OF m disjI2 [OF e], of "\<lambda>_ _. 0" demo_url id split_at "()" None "new_Stats [] 7" "''chain''" GET
      "''h''" "[]" "[]"] by metis
qed

end
