(* ===== verification/Root_Main.thy ===== *)
theory Root_Main
  imports Servers Tcp_Client Snowflake Url_Codec Fiber_Data
begin

text \<open>
  The program: \<open>BaseMain\<close> (\<open>base/base_main\<close>), \<open>Root\<close> (\<open>net/root\<close>) and the server built on them,
  \<open>IotHubServer\<close> (\<open>server/IotHubServer/IotHubServer\<close>). A run goes from the command line over
  the configuration file, the thread groups and the services to the main loop and its end.
  What the operating system, gflags and the pools contribute is collected in a record.
\<close>

section \<open>The surroundings of the process\<close>

record ('h, 'e) process_env =
  env_program :: string
  env_json :: string
  env_pid_path :: string
  env_parse :: "string \<Rightarrow> json option"
  env_readFile :: "string \<Rightarrow> string option"
  env_hardware_concurrency :: u32
  env_port :: u32
  env_can_open :: "string \<Rightarrow> bool"
  env_pid :: u32
  env_make_pool :: "nat \<Rightarrow> pool_kind \<Rightarrow> int \<Rightarrow> 'h list"
  env_getEventBase :: "'h \<Rightarrow> 'e"
  env_start :: "'h service_impl"

text \<open>
  The registered configuration objects, each with its own \<open>SetConf\<close>. \<open>env_port\<close> is the value
  of an uninitialised \<open>ServiceConfig::port\<close>.
\<close>

datatype item = Services | System | Thread_Group | Logger | Hub

datatype conf_item =
    ServicesItem "service_config list" | SystemItem u32 | ThreadGroupItem "thread_group_option list"
  | LoggerItem log_flags | HubItem iothub_config

fun item_SetConf :: "('h, 'e) process_env \<Rightarrow> conf_item \<Rightarrow> string \<Rightarrow> json \<Rightarrow> conf_item res" where
  "item_SetConf env (ServicesItem cs) n j = map_sum id ServicesItem (ServicesConfig_SetConf (env_port env) n j)"
| "item_SetConf env (SystemItem v) n j = map_sum id SystemItem (SystemConfig_SetConf v n j)"
| "item_SetConf env (ThreadGroupItem os) n j =
     map_sum id ThreadGroupItem (ThreadGroupListOption_SetConf (env_hardware_concurrency env) os n j)"
| "item_SetConf env (LoggerItem f) n j = map_sum id LoggerItem (LogInitializer_SetConf (env_program env) f n j)"
| "item_SetConf env (HubItem c) n j = map_sum id HubItem (IotHubConfig_SetConf c n j)"

section \<open>The state of the program\<close>

record ('h, 'e, 'p, 'th) main_state =
  ms_config_file :: string
  ms_pid_file_path :: string
  ms_config_manager :: "item config_manager"
  ms_items :: "item \<Rightarrow> conf_item"
  ms_io_thread_pool_size :: u64
  ms_services :: "(string \<times> string) list"
  ms_service_manager :: "('h, 'e, 'p) service_mgr"
  ms_fiber_stats :: stats
  ms_snowflake :: "'th snowflake"

fun services_config :: "conf_item \<Rightarrow> service_config list" where
  "services_config (ServicesItem cs) = cs" | "services_config _ = []"

fun system_config :: "conf_item \<Rightarrow> u32" where
  "system_config (SystemItem v) = v" | "system_config _ = 0"

fun thread_group_options :: "conf_item \<Rightarrow> thread_group_option list" where
  "thread_group_options (ThreadGroupItem os) = os" | "thread_group_options _ = []"

fun hub_config :: "conf_item \<Rightarrow> iothub_config" where
  "hub_config (HubItem c) = c" | "hub_config _ = new_IotHubConfig 0"

text \<open>
  The objects before any configuration is read; \<open>flags\<close> are the logging flags and \<open>number\<close> the
  value of an uninitialised \<open>server_number\<close>.
\<close>

definition initial_items :: "log_flags \<Rightarrow> u16 \<Rightarrow> item \<Rightarrow> conf_item" where
  "initial_items flags number i =
     (case i of Services \<Rightarrow> ServicesItem [] | System \<Rightarrow> SystemItem 0 | Thread_Group \<Rightarrow> ThreadGroupItem []
      | Logger \<Rightarrow> LoggerItem flags | Hub \<Rightarrow> HubItem (new_IotHubConfig number))"

definition register_item :: "('h, 'e, 'p, 'th) main_state \<Rightarrow> string \<Rightarrow> item \<Rightarrow> ('h, 'e, 'p, 'th) main_state" where
  "register_item s name i = s\<lparr>ms_config_manager := ConfigManager_Register (ms_config_manager s) name i\<rparr>"

definition new_BaseMain :: "log_flags \<Rightarrow> u16 \<Rightarrow> ('h, 'e, 'p, 'th) main_state" where
  "new_BaseMain flags number =
     register_item
       \<lparr>ms_config_file = [], ms_pid_file_path = [], ms_config_manager = new_ConfigManager,
        ms_items = initial_items flags number, ms_io_thread_pool_size = 0, ms_services = [],
        ms_service_manager = new_ServiceManager, ms_fiber_stats = g_fiber_stats, ms_snowflake = new_Snowflake\<rparr>
       ''logger'' Logger"

definition new_Root :: "log_flags \<Rightarrow> u16 \<Rightarrow> ('h, 'e, 'p, 'th) main_state" where
  "new_Root flags number =
     register_item (register_item (register_item (new_BaseMain flags number)
       ''services'' Services) ''system'' System) ''thread_group'' Thread_Group"

definition RegisterService :: "('h, 'e, 'p, 'th) main_state \<Rightarrow> string \<Rightarrow> string \<Rightarrow> ('h, 'e, 'p, 'th) main_state" where
  "RegisterService s name type = s\<lparr>ms_services := ms_services s @ [(name, type)]\<rparr>"

definition set_io_thread_pool_size :: "('h, 'e, 'p, 'th) main_state \<Rightarrow> u64 \<Rightarrow> ('h, 'e, 'p, 'th) main_state" where
  "set_io_thread_pool_size s v = s\<lparr>ms_io_thread_pool_size := v\<rparr>"

definition new_IotHubServer :: "log_flags \<Rightarrow> u16 \<Rightarrow> ('h, 'e, 'p, 'th) main_state" where
  "new_IotHubServer flags number =
     RegisterService (register_item (new_Root flags number) ''iot_hub_server'' Hub) ''iot_hub_server'' ''tcp_server''"

definition GetIOThreadPoolSize :: "u32 \<Rightarrow> ('h, 'e, 'p, 'th) main_state \<Rightarrow> u64 \<times> ('h, 'e, 'p, 'th) main_state" where
  "GetIOThreadPoolSize hc s =
     (let s' = (if ms_io_thread_pool_size s = 0 then s\<lparr>ms_io_thread_pool_size := GetIOThreadSize hc\<rparr> else s)
      in (ms_io_thread_pool_size s', s'))"

section \<open>Start-up\<close>

definition BaseMain_LoadConfig ::
  "('h, 'e) process_env \<Rightarrow> ('h, 'e, 'p, 'th) main_state \<Rightarrow> string \<Rightarrow> (('h, 'e, 'p, 'th) main_state \<times> bool) res" where
  "BaseMain_LoadConfig env s config_path =
     rbind (ConfigManager_Initialize (item_SetConf env) (env_parse env) (env_readFile env)
              (ms_config_manager s) config_path (ms_items s)) (\<lambda>(cm, items, rv).
       Inr (s\<lparr>ms_config_manager := cm, ms_items := items\<rparr>, rv))"

definition Root_LoadConfig ::
  "('h, 'e) process_env \<Rightarrow> ('h, 'e, 'p, 'th) main_state \<Rightarrow> string \<Rightarrow> (('h, 'e, 'p, 'th) main_state \<times> bool) res" where
  "Root_LoadConfig env s config_path =
     rbind (BaseMain_LoadConfig env s config_path) (\<lambda>(s1, rv).
       Inr (if rv then s1\<lparr>ms_io_thread_pool_size := ucast (system_config (ms_items s1 System))\<rparr> else s1, rv))"

fun register_factories ::
  "(string \<times> string) list \<Rightarrow> ('h, 'e, 'p) service_mgr \<Rightarrow> ('h, 'e, 'p) service_mgr res" where
  "register_factories [] sm = Inr sm"
| "register_factories ((name, type) # services) sm =
     rbind (RegisterServiceFactory sm name type) (register_factories services)"

definition Root_Initialize ::
  "('h, 'e) process_env \<Rightarrow> ('h, 'e, 'p, 'th) main_state \<Rightarrow> (('h, 'e, 'p, 'th) main_state \<times> bool) res" where
  "Root_Initialize env s =
     rbind (set_thread_groups (ms_service_manager s)
              (new_ThreadGroupListManager (env_make_pool env) (env_getEventBase env)
                 (thread_group_options (ms_items s Thread_Group)))) (\<lambda>sm1.
     rbind (register_factories (ms_services s) (SetupService sm1 (services_config (ms_items s Services)))) (\<lambda>sm2.
       Inr (s\<lparr>ms_service_manager := sm2, ms_fiber_stats := InitFiberStats (ms_fiber_stats s)\<rparr>, True)))"

text \<open>The second argument of \<open>InitSnowflakeWorkerID\<close> has the default 1.\<close>

definition IotHubServer_Initialize ::
  "('h, 'e) process_env \<Rightarrow> ('h, 'e, 'p, 'th) main_state \<Rightarrow> (('h, 'e, 'p, 'th) main_state \<times> bool) res" where
  "IotHubServer_Initialize env s =
     rbind (Root_Initialize env s) (\<lambda>(s1, _).
       Inr (s1\<lparr>ms_snowflake := InitSnowflakeWorkerID (ms_snowflake s1) (GetServerNumber (hub_config (ms_items s1 Hub))) 1\<rparr>,
            True))"

section \<open>The main loop\<close>

text \<open>
  Closures the main event base runs after a delay: the one \<open>Run\<close> posts, which starts the timer,
  and the one \<open>DoTimer\<close> posts. \<open>DoTimer\<close> inside the closure is called with its default interval.
\<close>

datatype delayed = StartTimer | TimerTick

definition DoTimer :: "u32 \<Rightarrow> delayed \<times> u32" where
  "DoTimer intervals = (TimerTick, intervals)"

text \<open>A closure runs: how often it calls \<open>OnTimer(0)\<close>, and what it posts.\<close>

fun run_delayed :: "delayed \<Rightarrow> nat \<times> delayed \<times> u32" where
  "run_delayed StartTimer = (0, DoTimer 1000)"
| "run_delayed TimerTick = (1, DoTimer 1000)"

text \<open>\<open>SIGTERM\<close> is 15, \<open>SIGINT\<close> 2, \<open>SIGHUP\<close> 1; the result is whether \<open>terminateLoopSoon\<close> is called.\<close>

definition OnShutdownDaemon :: "'e option \<Rightarrow> bool" where
  "OnShutdownDaemon main_evb = (main_evb \<noteq> None)"

definition SignalHandler :: "'e option \<Rightarrow> int \<Rightarrow> bool" where
  "SignalHandler g_main_evb signum =
     (if signum = 15 \<or> signum = 2 \<or> signum = 1 then OnShutdownDaemon g_main_evb else False)"

text \<open>
  What reaches the main loop: its delayed closure falls due, or a signal arrives. \<open>loopForever\<close>
  returns when the loop was told to terminate; \<open>Inl\<close> is the state of a loop that still runs.
  The numbers count the calls of \<open>OnTimer\<close>.
\<close>

datatype main_event = Due | Signal int

fun loopForever :: "'e option \<Rightarrow> delayed \<times> u32 \<Rightarrow> nat \<Rightarrow> main_event list \<Rightarrow> (nat \<times> delayed \<times> u32) + nat" where
  "loopForever evb pending n [] = Inl (n, pending)"
| "loopForever evb pending n (Due # es) =
     (let (k, pending') = run_delayed (fst pending) in loopForever evb pending' (n + k) es)"
| "loopForever evb pending n (Signal x # es) =
     (if SignalHandler evb x then Inr n else loopForever evb pending n es)"

text \<open>
  \<open>Run\<close>: exceptions of \<open>Start\<close> are caught and end it with \<open>-1\<close>, which the return type turns into
  \<open>true\<close>; the other ways to fail end the process.
\<close>

fun is_exception :: "abort \<Rightarrow> bool" where
  "is_exception InvalidArgument = True"
| "is_exception TypeError = True"
| "is_exception ParseError = True"
| "is_exception SystemError = True"
| "is_exception _ = False"

datatype run_result =
    StartThrew abort bool
  | Looping nat "delayed \<times> u32"
  | LoopEnded nat "nat set" "string \<times> string" bool

definition Root_Run ::
  "('h, 'e) process_env \<Rightarrow> 'e \<Rightarrow> main_event list \<Rightarrow> ('h, 'e, 'p, 'th) main_state
   \<Rightarrow> (('h, 'e, 'p, 'th) main_state \<times> run_result) res" where
  "Root_Run env main_eb events s =
     (case ServiceManager_Start (env_start env) (ms_service_manager s) of
        Inl e \<Rightarrow> if is_exception e then Inr (s, StartThrew e True) else Inl e
      | Inr (sm, _) \<Rightarrow>
          let s1 = s\<lparr>ms_service_manager := sm\<rparr>
          in rbind (writePid (env_can_open env) (env_pid env) (ms_pid_file_path s) (env_program env)) (\<lambda>pid_file.
             case loopForever (Some main_eb) (StartTimer, 1000) 0 events of
               Inl (n, pending) \<Rightarrow> Inr (s1, Looping n pending)
             | Inr n \<Rightarrow> Inr (s1, LoopEnded n (ServiceManager_Stop sm) pid_file True)))"

section \<open>\<open>DoMain\<close>\<close>

text \<open>
  The driver calls the virtual \<open>LoadConfig\<close>, \<open>Initialize\<close> and \<open>Run\<close> of the program's class. It ends
  with \<open>exit(0)\<close> on every path; the flag is its local \<open>ret\<close>, which nothing reads.
\<close>

datatype main_end = Running run_result | Exit int bool "run_result option"

definition BaseMain_DoMain ::
  "(('h, 'e, 'p, 'th) main_state \<Rightarrow> string \<Rightarrow> (('h, 'e, 'p, 'th) main_state \<times> bool) res)
   \<Rightarrow> (('h, 'e, 'p, 'th) main_state \<Rightarrow> (('h, 'e, 'p, 'th) main_state \<times> bool) res)
   \<Rightarrow> (('h, 'e, 'p, 'th) main_state \<Rightarrow> (('h, 'e, 'p, 'th) main_state \<times> run_result) res)
   \<Rightarrow> ('h, 'e) process_env \<Rightarrow> ('h, 'e, 'p, 'th) main_state \<Rightarrow> (('h, 'e, 'p, 'th) main_state \<times> main_end) res" where
  "BaseMain_DoMain LoadConfig Initialize Run env s =
     (let file = (if env_json env = [] then env_program env @ ''.json'' else env_json env);
          s1 = s\<lparr>ms_config_file := file, ms_pid_file_path := env_pid_path env\<rparr>
      in rbind (LoadConfig s1 file) (\<lambda>(s2, loaded).
         if \<not> loaded then Inr (s2, Exit 0 False None)
         else rbind (Initialize s2) (\<lambda>(s3, ok).
           if \<not> ok then Inr (s3, Exit 0 False None)
           else rbind (Run s3) (\<lambda>(s4, r).
             case r of
               Looping n pending \<Rightarrow> Inr (s4, Running r)
             | _ \<Rightarrow> Inr (s4, Exit 0 True (Some r))))))"

text \<open>\<open>main\<close> of the hub: the functions called are those of \<open>IotHubServer\<close> and \<open>Root\<close>.\<close>

definition IotHubServer_main ::
  "log_flags \<Rightarrow> u16 \<Rightarrow> ('h, 'e) process_env \<Rightarrow> 'e \<Rightarrow> main_event list
   \<Rightarrow> (('h, 'e, 'p, 'th) main_state \<times> main_end) res" where
  "IotHubServer_main flags number env main_eb events =
     BaseMain_DoMain (Root_LoadConfig env) (IotHubServer_Initialize env) (Root_Run env main_eb events) env
       (new_IotHubServer flags number)"

section \<open>What the stages leave behind\<close>

text \<open>The configuration objects of the hub, in the order of the manager's map.\<close>

lemma hub_config_items:
  "config_items (ms_config_manager (new_IotHubServer flags number)) =
     [(''iot_hub_server'', Hub), (''logger'', Logger), (''services'', Services), (''system'', System),
      (''thread_group'', Thread_Group)]"
  by (simp add: new_IotHubServer_def new_Root_def new_BaseMain_def register_item_def RegisterService_def
      ConfigManager_Register_def new_ConfigManager_def)

lemma hub_fresh:
  "ms_items (new_IotHubServer flags number) = initial_items flags number"
  "ms_services (new_IotHubServer flags number) = [(''iot_hub_server'', ''tcp_server'')]"
  "ms_service_manager (new_IotHubServer flags number) = new_ServiceManager"
  "ms_snowflake (new_IotHubServer flags number) = new_Snowflake"
  by (simp_all add: new_IotHubServer_def new_Root_def new_BaseMain_def register_item_def RegisterService_def)

text \<open>A loaded configuration: every object has read its own part of the file.\<close>

definition loaded :: "('h, 'e) process_env \<Rightarrow> json \<Rightarrow> (item \<Rightarrow> conf_item) \<Rightarrow> string \<Rightarrow> item \<Rightarrow> (item \<Rightarrow> conf_item) \<Rightarrow> bool" where
  "loaded env j st k i st' \<longleftrightarrow>
     (case json_find j k of None \<Rightarrow> st' i = st i | Some v \<Rightarrow> item_SetConf env (st i) k v = Inr (st' i))"

lemma hub_LoadConfig:
  fixes s :: "('h, 'e, 'p, 'th) main_state"
  assumes "Root_LoadConfig env ((new_IotHubServer flags number)\<lparr>ms_config_file := f, ms_pid_file_path := p\<rparr>) file = Inr (s, True)"
  obtains data j where "env_readFile env file = Some data" "env_parse env data = Some j"
    "loaded env j (initial_items flags number) ''services'' Services (ms_items s)"
    "loaded env j (initial_items flags number) ''thread_group'' Thread_Group (ms_items s)"
    "loaded env j (initial_items flags number) ''iot_hub_server'' Hub (ms_items s)"
    "ms_services s = [(''iot_hub_server'', ''tcp_server'')]" "ms_service_manager s = new_ServiceManager"
    "ms_snowflake s = new_Snowflake"
proof -
  let ?items = "[(''iot_hub_server'', Hub), (''logger'', Logger), (''services'', Services), (''system'', System),
    (''thread_group'', Thread_Group)]"
  let ?s = "(new_IotHubServer flags number)\<lparr>ms_config_file := f, ms_pid_file_path := p\<rparr> :: ('h, 'e, 'p, 'th) main_state"
  from assms obtain s1 where s1: "BaseMain_LoadConfig env ?s file = Inr (s1, True)"
    and s: "s = s1\<lparr>ms_io_thread_pool_size := ucast (system_config (ms_items s1 System))\<rparr>"
    unfolding Root_LoadConfig_def rbind_eq_Inr_iff by auto
  from s1 obtain cm st' where init: "ConfigManager_Initialize (item_SetConf env) (env_parse env) (env_readFile env)
      (ms_config_manager ?s) file (ms_items ?s) = Inr (cm, st', True)"
    and s1: "s1 = ?s\<lparr>ms_config_manager := cm, ms_items := st'\<rparr>"
    unfolding BaseMain_LoadConfig_def rbind_eq_Inr_iff by (auto intro: that)
  from init obtain data j where d: "env_readFile env file = Some data" "env_parse env data = Some j"
    and l: "OnConfigDataUpdated_loop (item_SetConf env) j ?items (initial_items flags number) = Inr st'"
    unfolding ConfigManager_Initialize_def OnConfigUpdated_def OnConfigDataUpdated_def
    by (auto simp: Let_def rbind_eq_Inr_iff hub_fresh hub_config_items simp del: OnConfigDataUpdated_loop.simps
        split: if_splits option.splits)
  have "loaded env j (initial_items flags number) k i st'" if "(k, i) \<in> set ?items" for k i
    using OnConfigDataUpdated_loop_item [OF l _ that] by (simp add: loaded_def)
  then show thesis using that [OF d] by (simp add: s s1 hub_fresh)
qed

text \<open>Which services a list of factories can create.\<close>

definition factory_key :: "'h factory \<Rightarrow> string \<times> string" where
  "factory_key f = (factory_GetType (fac_kind f), fac_name f)"

lemma CreateService_iff:
  "FactoryManager_CreateService fs c \<noteq> None \<longleftrightarrow> (service_type c, service_name c) \<in> factory_key ` set fs"
  by (induction fs) (auto simp: factory_key_def)

definition untouched :: "('h, 'e, 'p) service_mgr \<Rightarrow> bool" where
  "untouched sm \<longleftrightarrow> sm_services sm = Map.empty \<and> sm_store sm = Map.empty \<and> sm_next sm = 0 \<and> sm_started sm = []"

lemma executor_iff:
  assumes "t = CONN_ACCEPT \<or> t = CONN_CLIENT"
  shows "\<exists>pool. GetIOThreadPoolExecutor (new_ThreadGroupListManager mp ge opts :: ('h, 'e, 'p) tg_manager) t = Inr pool \<and>
     (pool \<noteq> None \<longleftrightarrow> t \<in> tgo_thread_type ` set opts)"
proof (cases "t \<in> tgo_thread_type ` set opts")
  case True
  obtain pool where "GetIOThreadPoolExecutor (new_ThreadGroupListManager mp ge opts :: ('h, 'e, 'p) tg_manager) t = Inr (Some pool)"
    by (rule executor_configured [OF True assms])
  with True show ?thesis by blast
next
  case False
  then show ?thesis using assms executor_unconfigured by blast
qed

lemma hub_Initialize:
  assumes "IotHubServer_Initialize env s = Inr (s', b)" "ms_service_manager s = new_ServiceManager"
    and "ms_services s = [(''iot_hub_server'', ''tcp_server'')]" "ms_snowflake s = new_Snowflake"
    and types: "T = tgo_thread_type ` set (thread_group_options (ms_items s Thread_Group))"
  shows "b \<and> untouched (ms_service_manager s') \<and>
     (\<forall>f \<in> set (sm_factories (ms_service_manager s')). fac_kind f \<noteq> TcpClientGroupFactory \<and>
        (\<exists>tg. sm_thread_groups (ms_service_manager s') = Some tg \<and>
           Inr (Some (fac_io_group f)) \<in> {GetIOThreadPoolExecutor tg CONN_ACCEPT, GetIOThreadPoolExecutor tg CONN_CLIENT})) \<and>
     map factory_key (sm_factories (ms_service_manager s')) =
       (if CONN_ACCEPT \<in> T then [(''tcp_server'', ''tcp_server'')] else []) @
       (if CONN_CLIENT \<in> T then [(''tcp_client'', ''tcp_client'')] else []) @
       (if CONN_ACCEPT \<in> T then [(''tcp_server'', ''iot_hub_server'')] else []) \<and>
     sm_service_configs (ms_service_manager s') = services_config (ms_items s Services) \<and>
     sm_thread_groups (ms_service_manager s') =
       Some (new_ThreadGroupListManager (env_make_pool env) (env_getEventBase env)
         (thread_group_options (ms_items s Thread_Group))) \<and>
     g_worker_id (ms_snowflake s') = server_number (hub_config (ms_items s Hub)) \<and> id_workers (ms_snowflake s') = Map.empty"
proof -
  let ?tg = "new_ThreadGroupListManager (env_make_pool env) (env_getEventBase env)
    (thread_group_options (ms_items s Thread_Group)) :: ('a, 'b, 'c) tg_manager"
  obtain a where a: "GetIOThreadPoolExecutor ?tg CONN_ACCEPT = Inr a" "a \<noteq> None \<longleftrightarrow> CONN_ACCEPT \<in> T"
    using executor_iff unfolding types by blast
  obtain c where c: "GetIOThreadPoolExecutor ?tg CONN_CLIENT = Inr c" "c \<noteq> None \<longleftrightarrow> CONN_CLIENT \<in> T"
    using executor_iff unfolding types by blast
  show ?thesis
    using assms(1-4) a c
    by (cases a; cases c)
       (auto simp: IotHubServer_Initialize_def Root_Initialize_def set_thread_groups_def SetupService_def
        RegisterServiceFactory_def factory_for_def FactoryManager_Register_def new_ServiceManager_def Let_def
        class_defs CreateFactory_def factory_key_def untouched_def InitSnowflakeWorkerID_def new_Snowflake_def
        GetServerNumber_def)
qed

lemma hub_Initialize_total:
  fixes s :: "('h, 'e, 'p, 'th) main_state"
  assumes "ms_services s = [(''iot_hub_server'', ''tcp_server'')]"
  shows "\<exists>s'. IotHubServer_Initialize env s = Inr (s', True)"
proof -
  let ?tg = "new_ThreadGroupListManager (env_make_pool env) (env_getEventBase env)
    (thread_group_options (ms_items s Thread_Group)) :: ('h, 'e, 'p) tg_manager"
  obtain a where a: "GetIOThreadPoolExecutor ?tg CONN_ACCEPT = Inr a"
    using executor_iff [of CONN_ACCEPT] by metis
  obtain c where c: "GetIOThreadPoolExecutor ?tg CONN_CLIENT = Inr c"
    using executor_iff [of CONN_CLIENT] by metis
  from a c show ?thesis
    using assms
    by (cases a; cases c) (simp_all add: IotHubServer_Initialize_def Root_Initialize_def set_thread_groups_def
        SetupService_def RegisterServiceFactory_def factory_for_def Let_def)
qed

text \<open>A process that got as far as its main loop.\<close>

fun serving :: "main_end \<Rightarrow> bool" where
  "serving (Running (Looping n pending)) = True"
| "serving (Exit c ret (Some (LoopEnded n stopped pid_file v))) = True"
| "serving _ = False"

text \<open>The configuration file of a run.\<close>

definition config_path :: "('h, 'e) process_env \<Rightarrow> string" where
  "config_path env = (if env_json env = [] then env_program env @ ''.json'' else env_json env)"

lemma Root_Run_serving:
  assumes "Root_Run env main_eb events s = Inr (s', r)" "\<not> (\<exists>e v. r = StartThrew e v)"
  obtains sm where "ServiceManager_Start (env_start env) (ms_service_manager s) = Inr (sm, True)"
    "s' = s\<lparr>ms_service_manager := sm\<rparr>"
proof (cases "ServiceManager_Start (env_start env) (ms_service_manager s)")
  case (Inl e)
  then show thesis using assms by (auto simp: Root_Run_def split: if_splits)
next
  case (Inr p)
  then obtain sm b where p: "p = (sm, b)" and b
    by (cases p) (auto simp: ServiceManager_Start_def rbind_eq_Inr_iff)
  have "s' = s\<lparr>ms_service_manager := sm\<rparr>"
    using assms Inr p
    by (cases "loopForever (Some main_eb) (StartTimer, 1000) 0 events")
       (auto simp: Root_Run_def rbind_eq_Inr_iff Let_def)
  then show thesis using that Inr p \<open>b\<close> by simp
qed

text \<open>The stages of a run that serves.\<close>

lemma hub_stages:
  fixes s :: "('h, 'e, 'p, 'th) main_state"
  assumes "IotHubServer_main flags number env main_eb events = Inr (s, e)" "serving e"
  obtains s1 s2 :: "('h, 'e, 'p, 'th) main_state" and sm where
    "Root_LoadConfig env ((new_IotHubServer flags number)\<lparr>ms_config_file := config_path env,
       ms_pid_file_path := env_pid_path env\<rparr>) (config_path env) = Inr (s1, True)"
    "IotHubServer_Initialize env s1 = Inr (s2, True)"
    "ServiceManager_Start (env_start env) (ms_service_manager s2) = Inr (sm, True)"
    "s = s2\<lparr>ms_service_manager := sm\<rparr>"
proof -
  let ?s0 = "(new_IotHubServer flags number)\<lparr>ms_config_file := config_path env,
    ms_pid_file_path := env_pid_path env\<rparr> :: ('h, 'e, 'p, 'th) main_state"
  from assms(1) obtain p1 where p1: "Root_LoadConfig env ?s0 (config_path env) = Inr p1"
    and r1: "(\<lambda>(s2, loaded). if \<not> loaded then Inr (s2, Exit 0 False None)
         else rbind (IotHubServer_Initialize env s2) (\<lambda>(s3, ok).
           if \<not> ok then Inr (s3, Exit 0 False None)
           else rbind (Root_Run env main_eb events s3) (\<lambda>(s4, r).
             case r of
               Looping n pending \<Rightarrow> Inr (s4, Running r)
             | _ \<Rightarrow> Inr (s4, Exit 0 True (Some r))))) p1 = Inr (s, e)"
    unfolding IotHubServer_main_def BaseMain_DoMain_def config_path_def [symmetric] Let_def rbind_eq_Inr_iff by blast
  obtain s1 where p1': "p1 = (s1, True)" using r1 assms(2) by (cases p1) (auto split: if_splits)
  then obtain p2 where p2: "IotHubServer_Initialize env s1 = Inr p2"
    and r2: "(\<lambda>(s3, ok). if \<not> ok then Inr (s3, Exit 0 False None)
           else rbind (Root_Run env main_eb events s3) (\<lambda>(s4, r).
             case r of
               Looping n pending \<Rightarrow> Inr (s4, Running r)
             | _ \<Rightarrow> Inr (s4, Exit 0 True (Some r)))) p2 = Inr (s, e)"
    using r1 by (auto simp: rbind_eq_Inr_iff)
  obtain s2 where p2': "p2 = (s2, True)" using r2 assms(2) by (cases p2) (auto split: if_splits)
  then obtain s3 r where run: "Root_Run env main_eb events s2 = Inr (s3, r)"
    and r3: "(case r of Looping n pending \<Rightarrow> Inr (s3, Running r) | _ \<Rightarrow> Inr (s3, Exit 0 True (Some r))) =
      (Inr (s, e) :: (('h, 'e, 'p, 'th) main_state \<times> main_end) res)"
    using r2 by (auto simp: rbind_eq_Inr_iff)
  have ok: "\<not> (\<exists>e v. r = StartThrew e v)" and "s3 = s" using r3 assms(2) by (cases r; auto)+
  note run = run [unfolded \<open>s3 = s\<close>]
  from Root_Run_serving [OF run ok] show thesis using that p1 p1' p2 p2' by metis
qed

text \<open>A server number that fits is used as it is written.\<close>

lemma word_of_to_i32: "(word_of_int (to_i32 x) :: u16) = word_of_int x"
  by (rule bit_word_eqI) (simp add: to_i32_def bit_signed_take_bit_iff bit_word_of_int_iff min_def)

text \<open>Everything a serving hub has read and started.\<close>

lemma hub_serving:
  fixes s :: "('h, 'e, 'p, 'th) main_state"
  assumes "IotHubServer_main flags number env main_eb events = Inr (s, e)" "serving e"
  obtains data j sm cs opts hub T where
    "env_readFile env (config_path env) = Some data" "env_parse env data = Some j"
    "case json_find j ''services'' of None \<Rightarrow> cs = [] | Some v \<Rightarrow> ToServiceConfigs (env_port env) v = Inr cs"
    "case json_find j ''thread_group'' of None \<Rightarrow> opts = []
      | Some v \<Rightarrow> ThreadGroupListOption_SetConf (env_hardware_concurrency env) [] ''thread_group'' v = Inr opts"
    "case json_find j ''iot_hub_server'' of None \<Rightarrow> hub = new_IotHubConfig number
      | Some v \<Rightarrow> IotHubConfig_SetConf (new_IotHubConfig number) ''iot_hub_server'' v = Inr hub"
    "T = tgo_thread_type ` set opts" "untouched sm" "sm_service_configs sm = cs"
    "\<forall>f \<in> set (sm_factories sm). fac_kind f \<noteq> TcpClientGroupFactory \<and>
       (\<exists>tg. sm_thread_groups sm = Some tg \<and>
          Inr (Some (fac_io_group f)) \<in> {GetIOThreadPoolExecutor tg CONN_ACCEPT, GetIOThreadPoolExecutor tg CONN_CLIENT})"
    "map factory_key (sm_factories sm) =
       (if CONN_ACCEPT \<in> T then [(''tcp_server'', ''tcp_server'')] else []) @
       (if CONN_CLIENT \<in> T then [(''tcp_client'', ''tcp_client'')] else []) @
       (if CONN_ACCEPT \<in> T then [(''tcp_server'', ''iot_hub_server'')] else [])"
    "sm_thread_groups sm = Some (new_ThreadGroupListManager (env_make_pool env) (env_getEventBase env) opts)"
    "ServiceManager_Start (env_start env) sm = Inr (ms_service_manager s, True)"
    "g_worker_id (ms_snowflake s) = server_number hub" "id_workers (ms_snowflake s) = Map.empty"
proof -
  obtain s1 s2 sm where l: "Root_LoadConfig env ((new_IotHubServer flags number)\<lparr>ms_config_file := config_path env,
       ms_pid_file_path := env_pid_path env\<rparr>) (config_path env) = Inr (s1, True)"
    and i: "IotHubServer_Initialize env s1 = Inr (s2, True)"
    and st: "ServiceManager_Start (env_start env) (ms_service_manager s2) = Inr (sm, True)"
    and s: "s = s2\<lparr>ms_service_manager := sm\<rparr>"
    by (rule hub_stages [OF assms])
  obtain data j where d: "env_readFile env (config_path env) = Some data" "env_parse env data = Some j"
    and sv: "loaded env j (initial_items flags number) ''services'' Services (ms_items s1)"
    and tg: "loaded env j (initial_items flags number) ''thread_group'' Thread_Group (ms_items s1)"
    and hub: "loaded env j (initial_items flags number) ''iot_hub_server'' Hub (ms_items s1)"
    and m: "ms_services s1 = [(''iot_hub_server'', ''tcp_server'')]" "ms_service_manager s1 = new_ServiceManager"
      "ms_snowflake s1 = new_Snowflake"
    by (rule hub_LoadConfig [OF l])
  have "case json_find j ''services'' of None \<Rightarrow> services_config (ms_items s1 Services) = []
      | Some v \<Rightarrow> ToServiceConfigs (env_port env) v = Inr (services_config (ms_items s1 Services))"
    using sv by (auto simp: loaded_def initial_items_def ServicesConfig_SetConf_def map_sum_Inr_iff split: option.splits)
  moreover have "case json_find j ''thread_group'' of None \<Rightarrow> thread_group_options (ms_items s1 Thread_Group) = []
      | Some v \<Rightarrow> ThreadGroupListOption_SetConf (env_hardware_concurrency env) [] ''thread_group'' v =
          Inr (thread_group_options (ms_items s1 Thread_Group))"
    using tg by (auto simp: loaded_def initial_items_def map_sum_Inr_iff split: option.splits)
  moreover have "case json_find j ''iot_hub_server'' of None \<Rightarrow> hub_config (ms_items s1 Hub) = new_IotHubConfig number
      | Some v \<Rightarrow> IotHubConfig_SetConf (new_IotHubConfig number) ''iot_hub_server'' v = Inr (hub_config (ms_items s1 Hub))"
    using hub by (auto simp: loaded_def initial_items_def map_sum_Inr_iff split: option.splits)
  ultimately show thesis
    using that [OF d _ _ _ refl] hub_Initialize [OF i m(2,1,3) refl] st s by auto
qed

text \<open>The worker number of the ids is the configured server number.\<close>

lemma hub_worker_number:
  fixes s :: "('h, 'e, 'p, 'th) main_state"
  assumes "IotHubServer_main flags number env main_eb events = Inr (s, e)" "serving e"
    and "env_readFile env (config_path env) = Some data" "env_parse env data = Some j"
    and "json_find j ''iot_hub_server'' = Some h" "json_find h ''server_number'' = Some (JUInt k)"
  shows "g_worker_id (ms_snowflake s) = word_of_nat k \<and> id_workers (ms_snowflake s) = Map.empty"
  by (rule hub_serving [OF assms(1,2)])
     (use assms(3-6) in \<open>auto simp: IotHubConfig_SetConf_def rbind_eq_Inr_iff word_of_to_i32\<close>)

text \<open>What is started, given the factories.\<close>

lemma started_after_Start:
  assumes "ServiceManager_Start start sm = Inr (sm', True)" "untouched sm"
  shows "map (cfg_of sm') (sm_started sm') =
     map Some (filter (\<lambda>c. FactoryManager_CreateService (sm_factories sm) c \<noteq> None) (sm_service_configs sm))"
proof -
  have "reg_ok [] sm" using assms(2) by (intro reg_ok_new) (simp_all add: untouched_def)
  from Start_loop_reg_ok [OF this, of start "sm_service_configs sm" sm'] assms(1)
  have "reg_ok (created (sm_factories sm) (sm_service_configs sm)) sm'"
    by (auto simp: ServiceManager_Start_def rbind_eq_Inr_iff)
  then show ?thesis unfolding reg_ok_def created_def by blast
qed

text \<open>The services a hub with thread configuration \<open>t\<close> has a factory for.\<close>

definition hub_service :: "json \<Rightarrow> service_config \<Rightarrow> bool" where
  "hub_service t c \<longleftrightarrow> json_find t ''conn'' = None \<and>
     (json_find t ''accept'' \<noteq> None \<and> service_type c = ''tcp_server'' \<and>
        service_name c \<in> {''tcp_server'', ''iot_hub_server''} \<or>
      json_find t ''client'' \<noteq> None \<and> service_type c = ''tcp_client'' \<and> service_name c = ''tcp_client'')"

lemma hub_serving_file:
  fixes s :: "('h, 'e, 'p, 'th) main_state"
  assumes "IotHubServer_main flags number env main_eb events = Inr (s, e)" "serving e"
    and "env_readFile env (config_path env) = Some data" "env_parse env data = Some j"
    and "json_find j ''services'' = Some v" "json_find j ''thread_group'' = Some t"
  obtains cs sm where "ToServiceConfigs (env_port env) v = Inr cs" "untouched sm" "sm_service_configs sm = cs"
    "\<forall>f \<in> set (sm_factories sm). fac_kind f \<noteq> TcpClientGroupFactory"
    "\<And>c. FactoryManager_CreateService (sm_factories sm) c \<noteq> None \<longleftrightarrow> hub_service t c"
    "ServiceManager_Start (env_start env) sm = Inr (ms_service_manager s, True)"
proof -
  obtain data' j' sm cs opts hub T where h: "env_readFile env (config_path env) = Some data'" "env_parse env data' = Some j'"
    "case json_find j' ''services'' of None \<Rightarrow> cs = [] | Some v \<Rightarrow> ToServiceConfigs (env_port env) v = Inr cs"
    "case json_find j' ''thread_group'' of None \<Rightarrow> opts = []
      | Some v \<Rightarrow> ThreadGroupListOption_SetConf (env_hardware_concurrency env) [] ''thread_group'' v = Inr opts"
    "T = tgo_thread_type ` set opts" and sm: "untouched sm" "sm_service_configs sm = cs"
      "\<forall>f \<in> set (sm_factories sm). fac_kind f \<noteq> TcpClientGroupFactory"
    and keys: "map factory_key (sm_factories sm) =
       (if CONN_ACCEPT \<in> T then [(''tcp_server'', ''tcp_server'')] else []) @
       (if CONN_CLIENT \<in> T then [(''tcp_client'', ''tcp_client'')] else []) @
       (if CONN_ACCEPT \<in> T then [(''tcp_server'', ''iot_hub_server'')] else [])"
    and st: "ServiceManager_Start (env_start env) sm = Inr (ms_service_manager s, True)"
    by (rule hub_serving [OF assms(1,2)]) blast
  have j: "j' = j" using h(1,2) assms(3,4) by simp
  have cs: "ToServiceConfigs (env_port env) v = Inr cs" using h(3) assms(5) j by simp
  have o: "ThreadGroupListOption_SetConf (env_hardware_concurrency env) [] ''thread_group'' t = Inr opts"
    using h(4) assms(6) j by simp
  have T: "CONN_ACCEPT \<in> T \<longleftrightarrow> json_find t ''conn'' = None \<and> json_find t ''accept'' \<noteq> None"
    "CONN_CLIENT \<in> T \<longleftrightarrow> json_find t ''conn'' = None \<and> json_find t ''client'' \<noteq> None"
    unfolding h(5) SetConf_types [OF o] by auto
  have "FactoryManager_CreateService (sm_factories sm) c \<noteq> None \<longleftrightarrow> hub_service t c" for c
    unfolding CreateService_iff set_map [symmetric] keys hub_service_def using T by auto
  then show thesis by (rule that [OF cs sm _ st])
qed

section \<open>The start of one service\<close>

text \<open>
  The virtual \<open>Start\<close> of the service objects. wangle throws when it cannot listen on a port; the
  pipeline of a client is built on the event base thread of its pool, where nothing catches
  an exception. The constructor of a client throws unless its host is the text of an address.
\<close>

definition service_construct :: "(string \<Rightarrow> bool) \<Rightarrow> 'h service \<Rightarrow> unit res" where
  "service_construct is_address sv =
     (if sv_module sv = TCP_CLIENT \<and> \<not> is_address (hosts (sv_config sv)) then Inl SystemError else Inr ())"

definition service_Start ::
  "(u32 \<Rightarrow> bool) \<Rightarrow> (string \<Rightarrow> bool) \<Rightarrow> (string \<times> u16 \<Rightarrow> bool) \<Rightarrow> string \<Rightarrow> ('f, 'z) http_options \<Rightarrow> 'f \<Rightarrow> ('h list \<Rightarrow> 'e)
   \<Rightarrow> (pipeline_factory \<Rightarrow> 'q res) \<Rightarrow> 'h service \<Rightarrow> unit res" where
  "service_Start can_listen resolves can_bind cleartext defaults handlers getEventBase newPipeline sv =
     (case sv_module sv of
        TCP_SERVER \<Rightarrow> if can_listen (port (sv_config sv)) then Inr () else Inl SystemError
      | HTTP_SERVER \<Rightarrow>
          (case snd (HttpServer_Start resolves can_bind cleartext defaults handlers
                       (new_HttpServer (sv_config sv) (sv_io_group sv) :: ('f, 'z, unit, 'h) http_server)) of
             Thrown \<Rightarrow> Inl SystemError | _ \<Rightarrow> Inr ())
      | TCP_CLIENT \<Rightarrow>
          let evb = getEventBase (sv_io_group sv);
              c = (new_TcpClient (Some evb))\<lparr>tc_factory := sv_child sv\<rparr>
          in (case TcpClient_Start newPipeline evb c of Inl _ \<Rightarrow> Inl Terminated | Inr _ \<Rightarrow> Inr ())
      | _ \<Rightarrow> Inr ())"

lemma Start_loop_starts_all:
  assumes "Start_loop start configs s = Inr s'" "c \<in> set configs"
    and "FactoryManager_CreateService (sm_factories s) c = Some sv"
    and "reg_ok cs s"
  shows "si_start start sv = Inr ()"
  using assms
proof (induction configs arbitrary: cs s)
  case (Cons c0 configs)
  show ?case
  proof (cases "FactoryManager_CreateService (sm_factories s) c0")
    case None
    then show ?thesis using Cons by auto
  next
    case (Some sv0)
    obtain r s1 where add: "add_object s sv0 = (r, s1)" by fastforce
    from Cons.prems(1) Some add obtain s2 b where reg: "RegisterServiceBase s1 r sv0 = Inr (s2, b)"
      by (auto simp: rbind_eq_Inr_iff)
    note st = reg_ok_step [OF Cons.prems(4) Some add reg]
    have "si_start start sv0 = Inr ()" "Start_loop start configs (s2\<lparr>sm_started := sm_started s2 @ [r]\<rparr>) = Inr s'"
      using Cons.prems(1) Some add reg st by (auto simp: rbind_eq_Inr_iff)
    then show ?thesis using Cons st Some by (cases "c = c0") auto
  qed
qed simp

text \<open>A service that the factory of the hub makes for a \<open>tcp_client\<close>.\<close>

lemma created_client:
  assumes "FactoryManager_CreateService fs c = Some sv" "service_type c = ''tcp_client''"
    and "\<forall>f \<in> set fs. fac_kind f \<noteq> TcpClientGroupFactory"
  shows "sv_module sv = TCP_CLIENT \<and> sv_child sv = Some ClientConnPipelineFactory"
  using assms
proof (induction fs)
  case (Cons f fs)
  then show ?case
    by (cases "fac_kind f") (auto simp: factory_CreateInstance_def class_defs split: if_splits)
qed simp

lemma client_start_terminates:
  assumes "wangle_flows lib" "checks_links lib finalize" "sv_module sv = TCP_CLIENT"
    and "sv_child sv = Some ClientConnPipelineFactory"
    and "np ClientConnPipelineFactory = ClientConnPipelineFactory_newPipeline finalize (Some (Tcp TcpClient)) sock"
  shows "service_Start cl rs cb ct d h ge np sv = Inl Terminated"
proof -
  have "np ClientConnPipelineFactory = Inl InvalidArgument"
    unfolding assms(5) by (simp add: newPipeline_defs finalize_result [OF assms(2,1)] List.map_filter_def)
  then show ?thesis
    by (simp add: service_Start_def assms(3,4) TcpClient_Start_def new_TcpClient_def new_ClientBootstrap2_def
        bootstrap_pipelineFactory_def DoConnect_def bootstrap_connect_def)
qed

text \<open>The threads of a hub are those the service manager was given; starting services keeps them.\<close>

lemma RegisterServiceBase_threads:
  "RegisterServiceBase s r sv = Inr (s', ok) \<Longrightarrow> sm_thread_groups s' = sm_thread_groups s"
  by (erule RegisterServiceBase_cases) (auto simp: RegisterTcpClient_def add_object_def)

lemma Start_loop_threads:
  "Start_loop start configs s = Inr s' \<Longrightarrow> sm_thread_groups s' = sm_thread_groups s"
proof (induction configs arbitrary: s)
  case (Cons c configs)
  show ?case
  proof (cases "FactoryManager_CreateService (sm_factories s) c")
    case None
    then show ?thesis using Cons by simp
  next
    case (Some sv)
    obtain r s1 where add: "add_object s sv = (r, s1)" by fastforce
    from Cons.prems Some add obtain s2 b where reg: "RegisterServiceBase s1 r sv = Inr (s2, b)"
      by (auto simp: rbind_eq_Inr_iff)
    have "sm_thread_groups s2 = sm_thread_groups s"
      using RegisterServiceBase_threads [OF reg] add by (auto simp: add_object_def)
    moreover have "sm_thread_groups s' = sm_thread_groups s2"
      using Cons.prems Cons.IH [of "s2\<lparr>sm_started := sm_started s2 @ [r]\<rparr>"] Cons.IH [of s2] Some add reg
      by (cases b) (auto simp: rbind_eq_Inr_iff)
    ultimately show ?thesis by simp
  qed
qed simp

lemma hub_threads:
  fixes s :: "('h, 'e, 'p, 'th) main_state"
  assumes "IotHubServer_main flags number env main_eb events = Inr (s, e)" "serving e"
  obtains opts sm where
    "sm_thread_groups (ms_service_manager s) =
       Some (new_ThreadGroupListManager (env_make_pool env) (env_getEventBase env) opts)"
    "sm_thread_groups sm = sm_thread_groups (ms_service_manager s)" "untouched sm"
    "\<forall>f \<in> set (sm_factories sm). \<exists>tg. sm_thread_groups sm = Some tg \<and>
       Inr (Some (fac_io_group f)) \<in> {GetIOThreadPoolExecutor tg CONN_ACCEPT, GetIOThreadPoolExecutor tg CONN_CLIENT}"
    "Start_loop (env_start env) (sm_service_configs sm) sm = Inr (ms_service_manager s)"
proof (rule hub_serving [OF assms])
  fix sm opts
  assume tg: "sm_thread_groups sm = Some (new_ThreadGroupListManager (env_make_pool env) (env_getEventBase env) opts)"
    and "untouched sm"
    and "\<forall>f \<in> set (sm_factories sm). fac_kind f \<noteq> TcpClientGroupFactory \<and>
       (\<exists>tg. sm_thread_groups sm = Some tg \<and>
          Inr (Some (fac_io_group f)) \<in> {GetIOThreadPoolExecutor tg CONN_ACCEPT, GetIOThreadPoolExecutor tg CONN_CLIENT})"
    and "ServiceManager_Start (env_start env) sm = Inr (ms_service_manager s, True)"
  then show thesis
    using Start_loop_threads [of "env_start env" "sm_service_configs sm" sm "ms_service_manager s"]
    by (intro that [of opts sm]) (auto simp: ServiceManager_Start_def rbind_eq_Inr_iff)
qed

end
