(* ===== verification/Conn_System.thy ===== *)
theory Conn_System
  imports Conn_Routing Conn_Handler
begin

text \<open>
  All event-loop threads at once: the handler of every pipeline, working on the connection
  manager of the thread the pipeline lives on (\<open>net/conn_handler\<close>,
  \<open>net/thread_local_conn_manager\<close>), and the sends by connection id and event-loop turns of
  \<open>net/service_manager\<close> between them. The system simulates the routing of ids
  (\<open>Conn_Routing\<close>) and, seen from one thread, the handlers of that thread
  (\<open>Conn_Handler\<close>); what both say together gives the delivery of what is sent to a live
  connection and the silence of dead ones.
\<close>

section \<open>The system\<close>

record ('h, 'e, 'p, 'a) conn_system =
  cs_net :: "('h, 'e, 'p) net"
  cs_handlers :: "'p \<Rightarrow> 'a conn_handler"

datatype ('e, 'p) sys_event =
    OnPipeline 'p conn_event "('e, 'p) net_event option"
  | InLoop "('e, 'p) net_event"

text \<open>What an event of a handler means for the routing: a new connection, a lost one, or nothing.\<close>

definition table_effect ::
  "'e \<Rightarrow> 'p \<Rightarrow> 'a conn_handler \<Rightarrow> 'a conn_handler \<Rightarrow> ('e, 'p) net_event option" where
  "table_effect e p h h' =
     (if ch_conn_state h \<noteq> kConnected \<and> ch_conn_state h' = kConnected then Some (Opened e p (ch_conn_id h'))
      else if ch_conn_state h = kConnected \<and> ch_conn_state h' \<noteq> kConnected then Some (Closed e (ch_conn_id h))
      else None)"

fun in_loop :: "('e, 'p) net_event \<Rightarrow> bool" where
  "in_loop (Opened _ _ _) = False"
| "in_loop (Closed _ _) = False"
| "in_loop _ = True"

text \<open>\<open>home p\<close> is the event base the pipeline \<open>p\<close> lives on.\<close>

inductive sys_step ::
  "('p \<Rightarrow> 'e) \<Rightarrow> ('h, 'e, 'p, 'a) conn_system \<Rightarrow> ('e, 'p) sys_event \<Rightarrow> ('h, 'e, 'p, 'a) conn_system \<Rightarrow> bool"
  for home where
  on_pipeline: "home p \<in> event_bases (thread_datas (n_threads (cs_net s))) \<Longrightarrow>
     may_happen ev (cs_handlers s p) \<Longrightarrow>
     handle ev (conn_mgrs (n_threads (cs_net s)) (home p)) (cs_handlers s p) p = Some (Inr (m, h, out)) \<Longrightarrow>
     sys_step home s (OnPipeline p ev (table_effect (home p) p (cs_handlers s p) h))
       \<lparr>cs_net = set_mgr (cs_net s) (home p) m, cs_handlers = (cs_handlers s)(p := h)\<rparr>"
| loop: "net_step (cs_net s) ev n \<Longrightarrow> in_loop ev \<Longrightarrow>
     sys_step home s (InLoop ev) (s\<lparr>cs_net := n\<rparr>)"

definition system_init ::
  "(nat \<Rightarrow> pool_kind \<Rightarrow> int \<Rightarrow> 'h list) \<Rightarrow> ('h \<Rightarrow> 'e) \<Rightarrow> thread_group_option list \<Rightarrow> ('p \<Rightarrow> tcp_service)
   \<Rightarrow> ('h, 'e, 'p, 'a) conn_system" where
  "system_init mp ge options sv =
     \<lparr>cs_net = net_init mp ge options, cs_handlers = (\<lambda>p. new_ConnHandler (Some (Tcp (sv p))))\<rparr>"

abbreviation live :: "('h, 'e, 'p, 'a) conn_system \<Rightarrow> 'p \<Rightarrow> bool" where
  "live s p \<equiv> ch_conn_state (cs_handlers s p) = kConnected"

abbreviation conn_of :: "('h, 'e, 'p, 'a) conn_system \<Rightarrow> 'p \<Rightarrow> u64" where
  "conn_of s p \<equiv> ch_conn_id (cs_handlers s p)"

section \<open>The two views\<close>

fun net_label :: "('e, 'p) sys_event \<Rightarrow> ('e, 'p) net_event option" where
  "net_label (OnPipeline p ev eff) = eff"
| "net_label (InLoop ev) = Some ev"

fun thread_label :: "('p \<Rightarrow> 'e) \<Rightarrow> 'e \<Rightarrow> ('e, 'p) sys_event \<Rightarrow> ('p \<times> conn_event) option" where
  "thread_label home e (OnPipeline p ev eff) = (if home p = e then Some (p, ev) else None)"
| "thread_label home e (InLoop ev) = None"

definition thread_view ::
  "('p \<Rightarrow> 'e) \<Rightarrow> 'e \<Rightarrow> ('p \<Rightarrow> tcp_service) \<Rightarrow> ('h, 'e, 'p, 'a) conn_system \<Rightarrow> ('p, 'a) conn_thread" where
  "thread_view home e sv s =
     \<lparr>ct_mgr = conn_mgrs (n_threads (cs_net s)) e,
      ct_handlers = (\<lambda>p. if home p = e then cs_handlers s p else new_ConnHandler (Some (Tcp (sv p))))\<rparr>"

definition services_ok :: "('h, 'e, 'p, 'a) conn_system \<Rightarrow> bool" where
  "services_ok s \<longleftrightarrow> (\<forall>p. \<exists>sv. ch_service (cs_handlers s p) = Some sv \<and> sv \<noteq> TcpClientGroup)"

abbreviation net_events :: "('e, 'p) sys_event list \<Rightarrow> ('e, 'p) net_event list" where
  "net_events \<equiv> List.map_filter net_label"

lemma map_filter_append [simp]: "List.map_filter f (xs @ ys) = List.map_filter f xs @ List.map_filter f ys"
  by (simp add: List.map_filter_def)

lemma map_filter_single [simp]: "List.map_filter f [x] = (case f x of None \<Rightarrow> [] | Some y \<Rightarrow> [y])"
  by (simp add: List.map_filter_def split: option.splits)

lemma services_okE:
  assumes "services_ok s"
  obtains sv where "ch_service (cs_handlers s p) = Some sv" "sv \<noteq> TcpClientGroup"
  using assms unfolding services_ok_def by blast

lemma sys_step_services:
  assumes "sys_step home s l s'" "services_ok s"
  shows "services_ok s'"
  using assms(1)
proof cases
  case (on_pipeline p ev m h out)
  obtain sv where sv: "ch_service (cs_handlers s p) = Some sv" "sv \<noteq> TcpClientGroup"
    using assms(2) by (rule services_okE)
  have "ch_service h = Some sv"
    by (cases rule: handle_cases [OF on_pipeline(5,4) sv]) (use sv in simp_all)
  then show ?thesis using assms(2) sv unfolding services_ok_def on_pipeline(2) by simp
qed (use assms(2) in \<open>simp add: services_ok_def\<close>)

lemma set_mgr_same [simp]: "set_mgr n e (conn_mgrs (n_threads n) e) = n"
  by (simp add: set_mgr_def)

lemma net_step_closed:
  "e \<in> event_bases (thread_datas (n_threads n)) \<Longrightarrow>
   net_step n (Closed e c) (set_mgr n e (fst (TLCM_OnConnectionClosed (conn_mgrs (n_threads n) e) c p)))"
  by (intro net_step.closed [where b = "snd (TLCM_OnConnectionClosed (conn_mgrs (n_threads n) e) c p)"]) simp_all

lemma net_step_in_loop: "net_step n ev n' \<Longrightarrow> in_loop ev \<Longrightarrow> n_threads n' = n_threads n"
  by (induction rule: net_step.induct)
     (auto simp: ServiceManager_SendIOBuf_conn_def rbind_eq_Inr_iff Let_def
       split: option.splits elim: run_posted_SomeE)

interpretation routing: simulation "sys_step home" net_step net_label
    "cs_net :: ('h, 'e, 'p, 'a) conn_system \<Rightarrow> _" services_ok
  for home :: "'p \<Rightarrow> 'e"
proof
  fix s s' :: "('h, 'e, 'p, 'a) conn_system" and l m
  assume s: "services_ok s" and step: "sys_step home s l s'"
  show "services_ok s'" by (rule sys_step_services [OF step s])
  from step show "net_step (cs_net s) m (cs_net s')" if "net_label l = Some m"
  proof cases
    case (on_pipeline p ev mgr h out)
    obtain sv where sv: "ch_service (cs_handlers s p) = Some sv" "sv \<noteq> TcpClientGroup"
      using s by (rule services_okE)
    show ?thesis
      by (cases rule: handle_cases [OF on_pipeline(5,4) sv])
         (use on_pipeline(1-3) that in
           \<open>auto simp: table_effect_def intro: net_step.opened net_step_closed\<close>)
  qed (use that in simp)
  from step show "cs_net s' = cs_net s" if "net_label l = None"
  proof cases
    case (on_pipeline p ev mgr h out)
    obtain sv where sv: "ch_service (cs_handlers s p) = Some sv" "sv \<noteq> TcpClientGroup"
      using s by (rule services_okE)
    show ?thesis
      by (cases rule: handle_cases [OF on_pipeline(5,4) sv])
         (use on_pipeline(1,2) that in \<open>simp_all add: table_effect_def split: if_splits\<close>)
  qed (use that in simp)
qed

interpretation seen: simulation "sys_step home" conn_step "thread_label home e"
    "thread_view home e sv :: ('h, 'e, 'p, 'a) conn_system \<Rightarrow> _" services_ok
  for home :: "'p \<Rightarrow> 'e" and e sv
proof
  fix s s' :: "('h, 'e, 'p, 'a) conn_system" and l m
  assume s: "services_ok s" and step: "sys_step home s l s'"
  show "services_ok s'" by (rule sys_step_services [OF step s])
  from step show "conn_step (thread_view home e sv s) m (thread_view home e sv s')"
    if "thread_label home e l = Some m"
  proof cases
    case (on_pipeline p ev mgr h out)
    then have m: "m = (p, ev)" "home p = e" using that by (simp_all split: if_splits)
    have "conn_step (thread_view home e sv s) (p, ev)
        \<lparr>ct_mgr = mgr, ct_handlers = (ct_handlers (thread_view home e sv s))(p := h)\<rparr>"
      using on_pipeline(4,5) m(2) by (intro conn_step.handled) (auto simp: thread_view_def)
    moreover have "thread_view home e sv s' = \<lparr>ct_mgr = mgr, ct_handlers = (ct_handlers (thread_view home e sv s))(p := h)\<rparr>"
      using m(2) by (auto simp: thread_view_def on_pipeline(2) fun_eq_iff)
    ultimately show ?thesis by (simp add: m(1))
  qed (use that in simp)
  from step show "thread_view home e sv s' = thread_view home e sv s" if "thread_label home e l = None"
  proof cases
    case (on_pipeline p ev mgr h out)
    then show ?thesis using that by (auto simp: thread_view_def fun_eq_iff split: if_splits)
  next
    case (loop ev n)
    then show ?thesis using net_step_in_loop [OF loop(3,4)] by (simp add: thread_view_def fun_eq_iff)
  qed
qed

section \<open>What both views say of a run\<close>

lemma sys_step_threads:
  "sys_step home s l s' \<Longrightarrow> thread_datas (n_threads (cs_net s')) = thread_datas (n_threads (cs_net s))"
  by (induction rule: sys_step.induct) (simp_all add: net_step_threads)

abbreviation sys_bases :: "('h, 'e, 'p, 'a) conn_system \<Rightarrow> 'e set" where
  "sys_bases s \<equiv> event_bases (thread_datas (n_threads (cs_net s)))"

lemma sys_run_threads:
  "run (sys_step home) s0 tr s \<Longrightarrow> thread_datas (n_threads (cs_net s)) = thread_datas (n_threads (cs_net s0))"
  by (induction rule: run.induct) (simp_all add: sys_step_threads)

lemma services_ok_init: "\<forall>p. sv p \<noteq> TcpClientGroup \<Longrightarrow> services_ok (system_init mp ge options sv)"
  by (simp add: services_ok_def system_init_def new_ConnHandler_def)

text \<open>
  The assumptions of the theorems below, in one place: executors with an event base per
  thread, at most $2^{32}$ threads, handlers of servers and clients, and fewer than $2^{32}$
  connections opened on each thread during the run.
\<close>

definition system_run ::
  "(nat \<Rightarrow> pool_kind \<Rightarrow> int \<Rightarrow> 'h list) \<Rightarrow> ('h \<Rightarrow> 'e) \<Rightarrow> thread_group_option list \<Rightarrow> ('p \<Rightarrow> tcp_service) \<Rightarrow> ('p \<Rightarrow> 'e)
   \<Rightarrow> ('e, 'p) sys_event list \<Rightarrow> ('h, 'e, 'p, 'a) conn_system \<Rightarrow> bool" where
  "system_run mp ge options sv home tr s \<longleftrightarrow>
     own_event_bases ge mp \<and> length (thread_datas (n_threads (cs_net s))) \<le> 2 ^ 32 \<and>
     (\<forall>p. sv p \<noteq> TcpClientGroup) \<and> (\<forall>e. opened_count e (net_events tr) < 2 ^ 32) \<and>
     run (sys_step home) (system_init mp ge options sv) tr s"

lemma system_run_services: "system_run mp ge options sv home tr s \<Longrightarrow> services_ok s"
  unfolding system_run_def by (blast intro: routing.run_inv services_ok_init)

lemma system_net_inv:
  fixes s :: "('h, 'e, 'p, 'a) conn_system"
  assumes "system_run mp ge options sv home tr s"
  shows "net_inv (net_events tr) (cs_net s)"
proof -
  let ?s0 = "system_init mp ge options sv :: ('h, 'e, 'p, 'a) conn_system"
  have r: "run (sys_step home) ?s0 tr s" and own: "own_event_bases ge mp" and ok: "services_ok ?s0"
    and len: "length (thread_datas (n_threads (cs_net ?s0))) \<le> 2 ^ 32"
    using assms sys_run_threads [of home ?s0 tr s] by (auto simp: system_run_def services_ok_init)
  have "cs_net ?s0 = net_init mp ge options" by (simp add: system_init_def)
  from net_inv_init [OF own this len] show ?thesis
    using assms by (intro net_run_inv [OF routing.run_abs [OF r ok]]) (simp_all add: system_run_def)
qed

lemma system_init_view:
  assumes "own_event_bases ge mp" "s = system_init mp ge options sv" "e \<in> sys_bases s"
  shows "thread_view home e sv s = conn_thread_init (evb_index (cs_net s) e) sv"
proof -
  have "indexed (n_threads (cs_net s))"
    using new_ThreadGroupListManager_indexed [OF assms(1)] by (simp add: assms(2) system_init_def net_init_def)
  moreover from assms(3) obtain i where "i < length (thread_datas (n_threads (cs_net s)))"
    "td_evb (thread_datas (n_threads (cs_net s)) ! i) = Some e"
    by (auto simp: event_bases_def in_set_conv_nth)
  ultimately have "tl_pipelines (conn_mgrs (n_threads (cs_net s)) e) = Map.empty"
    "tl_current_conn_id (conn_mgrs (n_threads (cs_net s)) e) = 0"
    unfolding indexed_def by blast+
  moreover have "cs_handlers s = (\<lambda>p. new_ConnHandler (Some (Tcp (sv p))))"
    by (simp add: assms(2) system_init_def)
  ultimately show ?thesis
    by (auto simp: thread_view_def conn_thread_init_def evb_index_def set_thread_id_def
        new_ThreadLocalConnManager_def)
qed

lemma system_view:
  fixes s :: "('h, 'e, 'p, 'a) conn_system"
  assumes r: "system_run mp ge options sv home tr s" and e: "e \<in> sys_bases s"
  shows "registry_exact (evb_index (cs_net s) e) sv (thread_view home e sv s)"
proof -
  let ?s0 = "system_init mp ge options sv :: ('h, 'e, 'p, 'a) conn_system"
  let ?i = "evb_index (cs_net ?s0) e"
  have run: "run (sys_step home) ?s0 tr s" and own: "own_event_bases ge mp" and sv: "\<forall>p. sv p \<noteq> TcpClientGroup"
    using r by (simp_all add: system_run_def)
  have "e \<in> sys_bases ?s0" using e by (simp add: sys_run_threads [OF run])
  from system_init_view [OF own refl this]
  have "run conn_step (conn_thread_init ?i sv) (List.map_filter (thread_label home e) tr) (thread_view home e sv s)"
    using seen.run_abs [OF run services_ok_init [OF sv], of e sv] by simp
  from conn_run_registry_exact [OF this sv]
  have x: "registry_exact ?i sv (thread_view home e sv s)" .
  then have "evb_index (cs_net s) e = ?i"
    by (simp add: registry_exact_def thread_view_def evb_index_def)
  with x show ?thesis by simp
qed

text \<open>
  The table of a thread and the handlers that live on it, in every state of a run: a number
  leads to a pipeline exactly if that pipeline is live, lives here, and has the id made of
  the thread's index and the number.
\<close>

lemma system_table:
  assumes "system_run mp ge options sv home tr s" "e \<in> sys_bases s"
  shows "tl_pipelines (conn_mgrs (n_threads (cs_net s)) e) k = Some p \<longleftrightarrow>
     home p = e \<and> live s p \<and> conn_of s p = pack_id (evb_index (cs_net s) e) k"
  using registry_exact_table [OF system_view [OF assms], of k p]
  by (auto simp: thread_view_def new_ConnHandler_def)

lemma live_has_home:
  fixes s :: "('h, 'e, 'p, 'a) conn_system"
  assumes "run (sys_step home) (system_init mp ge options sv) tr s" "live s p"
  shows "home p \<in> sys_bases s"
proof -
  have "\<forall>p. live s p \<longrightarrow> home p \<in> sys_bases s"
    using assms(1)
  proof (rule run_invariant)
    show "\<forall>p. live (system_init mp ge options sv :: ('h, 'e, 'p, 'a) conn_system) p \<longrightarrow>
        home p \<in> sys_bases (system_init mp ge options sv :: ('h, 'e, 'p, 'a) conn_system)"
      by (simp add: system_init_def new_ConnHandler_def)
  next
    fix s s' :: "('h, 'e, 'p, 'a) conn_system" and l
    assume h: "\<forall>p. live s p \<longrightarrow> home p \<in> sys_bases s" and st: "sys_step home s l s'"
    from st show "\<forall>p. live s' p \<longrightarrow> home p \<in> sys_bases s'"
      by cases (use h sys_step_threads [OF st] in auto)
  qed
  with assms(2) show ?thesis by blast
qed

section \<open>The life of one connection\<close>

text \<open>A connection that is live keeps its id; once closed it never comes back.\<close>

lemma sys_step_live_back:
  assumes "sys_step home s l s'" "services_ok s" "ch_conn_state (cs_handlers s p) \<noteq> kNone"
  shows "ch_conn_state (cs_handlers s' p) \<noteq> kNone"
    and "live s' p \<Longrightarrow> live s p \<and> conn_of s' p = conn_of s p"
proof -
  have "ch_conn_state (cs_handlers s' p) \<noteq> kNone \<and> (live s' p \<longrightarrow> live s p \<and> conn_of s' p = conn_of s p)"
    using assms(1)
  proof cases
    case (on_pipeline q ev m h out)
    obtain sv where sv: "ch_service (cs_handlers s q) = Some sv" "sv \<noteq> TcpClientGroup"
      using assms(2) by (rule services_okE)
    show ?thesis
      by (cases rule: handle_cases [OF on_pipeline(5,4) sv]) (use assms(3) on_pipeline(2) in auto)
  qed (use assms(3) in simp)
  then show "ch_conn_state (cs_handlers s' p) \<noteq> kNone"
    and "live s' p \<Longrightarrow> live s p \<and> conn_of s' p = conn_of s p" by blast+
qed

lemma sys_run_live_back:
  assumes "run (sys_step home) s tr s'" "services_ok s" "live s p"
  shows "services_ok s' \<and> ch_conn_state (cs_handlers s' p) \<noteq> kNone \<and>
    (live s' p \<longrightarrow> conn_of s' p = conn_of s p)"
  using assms(1)
proof (induction rule: run.induct)
  case run_nil
  with assms(2,3) show ?case by simp
next
  case (run_snoc tr t l t')
  then show ?case using sys_step_live_back [of home t l t' p] sys_step_services [of home t l t'] by auto
qed

lemma closed_stays:
  assumes "run (sys_step home) s tr s'" "services_ok s" "ch_conn_state (cs_handlers s p) = kClosed"
  shows "ch_conn_state (cs_handlers s' p) = kClosed \<and> conn_of s' p = conn_of s p"
proof -
  have "services_ok s' \<and> ch_conn_state (cs_handlers s' p) = kClosed \<and> conn_of s' p = conn_of s p"
    using assms(1)
  proof (induction rule: run.induct)
    case run_nil
    with assms(2,3) show ?case by simp
  next
    case (run_snoc tr t l t')
    have t: "services_ok t" and c: "ch_conn_state (cs_handlers t p) = kClosed" "conn_of t p = conn_of s p"
      using run_snoc.IH by simp_all
    note t' = sys_step_services [OF run_snoc.hyps(2) t]
    from run_snoc.hyps(2) show ?case
    proof cases
      case (on_pipeline q ev m h out)
      obtain sv where sv: "ch_service (cs_handlers t q) = Some sv" "sv \<noteq> TcpClientGroup"
        using t by (rule services_okE)
      show ?thesis
        by (cases rule: handle_cases [OF on_pipeline(5,4) sv]) (use t' c on_pipeline(2) in auto)
    qed (use t' c in simp)
  qed
  then show ?thesis by blast
qed

text \<open>
  While a connection stays live, its thread writes whatever it takes from its queues for
  that id to that pipeline.
\<close>

lemma sys_step_loop:
  "sys_step home s (InLoop ev) s' \<Longrightarrow> net_step (cs_net s) ev (cs_net s')"
  by (erule sys_step.cases) simp_all

lemma live_id:
  assumes r: "system_run mp ge options sv home tr s" and live: "live s p"
  shows "home p \<in> sys_bases s" and "id_hi (conn_of s p) = evb_index (cs_net s) (home p)"
    and "e \<in> sys_bases s \<Longrightarrow> id_hi (conn_of s p) = evb_index (cs_net s) e \<Longrightarrow> home p = e"
proof -
  have "run (sys_step home) (system_init mp ge options sv) tr s" using r by (simp add: system_run_def)
  from live_has_home [OF this live] show home: "home p \<in> sys_bases s" .
  have thr: "threads_ok (cs_net s)" using system_net_inv [OF r] by (simp add: net_inv_def)
  obtain k where "conn_of s p = pack_id (evb_index (cs_net s) (home p)) k"
    by (rule registry_exact_id [OF system_view [OF r home], of p]) (simp_all add: thread_view_def live)
  then show hi: "id_hi (conn_of s p) = evb_index (cs_net s) (home p)"
    using evb_index_small [OF thr home] by simp
  show "home p = e" if "e \<in> sys_bases s" "id_hi (conn_of s p) = evb_index (cs_net s) e"
    using evb_index_inj [OF thr home that(1)] that(2) hi by simp
qed

lemma run_posted_live:
  fixes s :: "('h, 'e, 'p, 'a) conn_system"
  assumes r: "system_run mp ge options sv home tr s" and e: "e \<in> sys_bases s"
    and posted: "run_posted (cs_net s) e l = Some ((c, b), w, n)"
  shows "w = Some p \<longleftrightarrow> live s p \<and> conn_of s p = c"
proof -
  have inv: "net_inv (net_events tr) (cs_net s)" by (rule system_net_inv [OF r])
  obtain q where q: "n_queue (cs_net s) (e, l) = (c, b) # q"
    and w: "w = tl_pipelines (conn_mgrs (n_threads (cs_net s)) e) (id_lo c)"
    using posted by (rule run_posted_SomeE)
  have hi: "id_hi c = evb_index (cs_net s) e" by (rule net_inv_queued(1) [OF inv e, of _ b l]) (simp add: q)
  then have c: "c = pack_id (evb_index (cs_net s) e) (id_lo c)" by (metis pack_id_unpack)
  have "home p = e" if live: "live s p" "conn_of s p = c"
    using live_id(3) [OF r live(1) e] hi live(2) by simp
  then show ?thesis using system_table [OF r e, of "id_lo c" p] w c by metis
qed

lemma system_run_prefix:
  fixes s s' :: "('h, 'e, 'p, 'a) conn_system"
  assumes r: "system_run mp ge options sv home (tr @ tr') s'"
    and run: "run (sys_step home) (system_init mp ge options sv) tr s"
  shows "system_run mp ge options sv home tr s"
proof -
  let ?s0 = "system_init mp ge options sv :: ('h, 'e, 'p, 'a) conn_system"
  have "run (sys_step home) ?s0 (tr @ tr') s'" using r by (simp add: system_run_def)
  from sys_run_threads [OF this] sys_run_threads [OF run]
  have "thread_datas (n_threads (cs_net s')) = thread_datas (n_threads (cs_net s))" by simp
  moreover have "opened_count e (net_events tr) < 2 ^ 32" if "\<forall>e. opened_count e (net_events (tr @ tr')) < 2 ^ 32" for e
    using spec [OF that, of e] by simp
  ultimately show ?thesis using r run unfolding system_run_def by auto
qed

lemma system_run_extend:
  assumes "system_run mp ge options sv home tr s" "run (sys_step home) s tr' s'"
    and "\<forall>e. opened_count e (net_events (tr @ tr')) < 2 ^ 32"
  shows "system_run mp ge options sv home (tr @ tr') s'"
  using assms run_trans [OF assms(2)] sys_run_threads [OF assms(2)]
  by (simp add: system_run_def)

lemma sys_loopE:
  assumes "sys_step home s lab s'" "net_label lab = Some ev" "in_loop ev"
  shows "net_step (cs_net s) ev (cs_net s')"
  using assms by cases (auto simp: table_effect_def split: if_splits)

lemma handled_loop: "(c, b) \<in> set (handled i l [ev]) \<Longrightarrow> (\<exists>q. ev = Wrote l c q b) \<or> ev = Dropped l c b"
  by (cases ev) (auto split: if_splits)

text \<open>One event: what is taken from a queue for the id of a live connection is written to it.\<close>

lemma sys_step_writes_live:
  fixes s :: "('h, 'e, 'p, 'a) conn_system"
  assumes r: "system_run mp ge options sv home tr s" and live: "live s p"
    and st: "sys_step home s lab s'" and ev: "net_label lab = Some ev"
    and h: "(conn_of s p, b) \<in> set (handled i l [ev])"
  shows "ev = Wrote l (conn_of s p) p b"
proof -
  note cases = handled_loop [OF h]
  then have "in_loop ev" by auto
  with st ev have ns: "net_step (cs_net s) ev (cs_net s')" by (rule sys_loopE)
  from cases show ?thesis
  proof (elim disjE exE)
    fix q assume q: "ev = Wrote l (conn_of s p) q b"
    from ns [unfolded q] obtain e n where "e \<in> sys_bases s" "run_posted (cs_net s) e l = Some ((conn_of s p, b), Some q, n)"
      by cases auto
    then have "Some q = Some p" using run_posted_live [OF r] live by blast
    with q show ?thesis by simp
  next
    assume d: "ev = Dropped l (conn_of s p) b"
    from ns [unfolded d] obtain e n where "e \<in> sys_bases s" "run_posted (cs_net s) e l = Some ((conn_of s p, b), None, n)"
      by cases auto
    then have "None = Some p" using run_posted_live [OF r] live by blast
    then show ?thesis by simp
  qed
qed

lemma sys_run_writes_live:
  fixes s :: "('h, 'e, 'p, 'a) conn_system"
  assumes "run (sys_step home) s tr' s'" and r: "system_run mp ge options sv home tr s" "live s p"
    and "system_run mp ge options sv home (tr @ tr') s'" "live s' p"
    and "(conn_of s p, b) \<in> set (handled i l (net_events tr'))"
  shows "Wrote l (conn_of s p) p b \<in> set (net_events tr')"
  using assms(1,4-)
proof (induction rule: run.induct)
  case (run_snoc tr' t lab t')
  have run: "run (sys_step home) (system_init mp ge options sv) (tr @ tr') t"
    using run_trans [OF run_snoc.hyps(1)] r(1) by (simp add: system_run_def)
  have t: "system_run mp ge options sv home (tr @ tr') t"
    using system_run_prefix [OF _ run, of "[lab]" t'] run_snoc.prems(1) by simp
  note kept = sys_run_live_back [OF run_snoc.hyps(1) system_run_services [OF r(1)] r(2)]
  have live: "live t p" "conn_of t p = conn_of s p"
    using sys_step_live_back(2) [OF run_snoc.hyps(2), of p] kept run_snoc.prems(2) by blast+
  show ?case
  proof (cases "(conn_of s p, b) \<in> set (handled i l (net_events tr'))")
    case True
    with run_snoc.IH [OF t live(1)] show ?thesis by simp
  next
    case False
    then obtain ev where ev: "net_label lab = Some ev" "(conn_of t p, b) \<in> set (handled i l [ev])"
      using run_snoc.prems(3) live(2) by (auto simp del: handled.simps split: option.splits) (simp)
    from sys_step_writes_live [OF t live(1) run_snoc.hyps(2) ev] ev(1) live(2) show ?thesis by simp
  qed
qed (simp add: List.map_filter_def)

lemma threads_ok_index_eq:
  assumes "threads_ok s" "threads_ok s'" "thread_datas (n_threads s') = thread_datas (n_threads s)"
    and "e \<in> event_bases (thread_datas (n_threads s))"
  shows "evb_index s' e = evb_index s e"
proof -
  obtain i where "i < length (thread_datas (n_threads s))" "td_evb (thread_datas (n_threads s) ! i) = Some e"
    using assms(4) by (auto simp: event_bases_def in_set_conv_nth)
  then show ?thesis using assms(1-3) by (simp add: threads_ok_def)
qed

lemma in_prefix:
  assumes "(q @ [x]) @ ys = h @ zs" "length q < length h"
  shows "x \<in> set h"
proof -
  have "h ! length q = x" using arg_cong [OF assms(1), of "\<lambda>xs. xs ! length q"] assms(2) by (simp add: nth_append)
  with assms(2) show ?thesis by (metis nth_mem)
qed

text \<open>Between two states of a run the queues of a thread move in order.\<close>

lemma system_queue:
  fixes s :: "('h, 'e, 'p, 'a) conn_system"
  assumes r: "system_run mp ge options sv home tr s" and e: "e \<in> sys_bases s"
    and r': "system_run mp ge options sv home (tr @ tr') s'" and run: "run (sys_step home) s tr' s'"
  defines "i \<equiv> evb_index (cs_net s) e"
  shows "n_queue (cs_net s) (e, l) @ sents i e l (net_events tr') =
     handled i l (net_events tr') @ n_queue (cs_net s') (e, l)"
proof -
  note inv = system_net_inv [OF r] and inv' = system_net_inv [OF r']
  note td = sys_run_threads [OF run]
  have i: "evb_index (cs_net s') e = i"
    unfolding i_def using inv inv' td e by (intro threads_ok_index_eq) (simp_all add: net_inv_def)
  have "sents i e l (net_events tr) = handled i l (net_events tr) @ n_queue (cs_net s) (e, l)"
    using inv e by (simp add: net_inv_def i_def)
  moreover have "sents i e l (net_events (tr @ tr')) = handled i l (net_events (tr @ tr')) @ n_queue (cs_net s') (e, l)"
    using inv' e td i by (auto simp: net_inv_def)
  ultimately show ?thesis by simp
qed

text \<open>The id of a connection, live or closed, was handed out when it was opened.\<close>

lemma system_opened:
  fixes s :: "('h, 'e, 'p, 'a) conn_system"
  assumes run: "run (sys_step home) (system_init mp ge options sv) tr s" and sv: "\<forall>p. sv p \<noteq> TcpClientGroup"
    and st: "ch_conn_state (cs_handlers s p) \<noteq> kNone"
  shows "Opened (home p) p (conn_of s p) \<in> set (net_events tr)"
  using run st
proof (induction rule: run.induct)
  case run_nil
  then show ?case by (simp add: system_init_def new_ConnHandler_def)
next
  case (run_snoc tr s l s')
  have ok: "services_ok s" by (rule routing.run_inv [OF run_snoc.hyps(1) services_ok_init [OF sv]])
  from run_snoc.hyps(2) show ?case
  proof cases
    case (on_pipeline q ev m h out)
    obtain sv where sv: "ch_service (cs_handlers s q) = Some sv" "sv \<noteq> TcpClientGroup"
      using ok by (rule services_okE)
    show ?thesis
      by (cases rule: handle_cases [OF on_pipeline(5,4) sv])
         (use run_snoc.IH run_snoc.prems on_pipeline(1,2) in \<open>auto simp: table_effect_def split: if_splits\<close>)
  next
    case (loop ev n)
    then show ?thesis using run_snoc.IH run_snoc.prems by simp
  qed
qed

text \<open>Delivery: the buffer is handled in its turn, and written because the connection is live.\<close>

lemma delivered:
  fixes s :: "('h, 'e, 'p, 'a) conn_system"
  assumes r: "system_run mp ge options sv home tr s" and live: "live s p"
  shows "let c = conn_of s p; l = lane_of caller (home p) in
     \<exists>n. ServiceManager_SendIOBuf_conn (cs_net s) caller c b = Inr (n, True) \<and>
       (\<forall>tr' s'. run (sys_step home) (s\<lparr>cs_net := n\<rparr>) tr' s' \<and> live s' p \<and>
          (\<forall>e. opened_count e (net_events (tr @ tr')) < 2 ^ 32) \<and>
          length (n_queue (cs_net s) (home p, l)) < length (handled (id_hi c) l (net_events tr')) \<longrightarrow>
          Wrote l c p b \<in> set (net_events tr'))"
proof -
  let ?e = "home p"
  define c l where "c = conn_of s p" and "l = lane_of caller (home p)"
  have home: "?e \<in> sys_bases s" and hi: "id_hi c = evb_index (cs_net s) ?e"
    using live_id(1,2) [OF r live] by (simp_all add: c_def)
  have "threads_ok (cs_net s)" using system_net_inv [OF r] by (simp add: net_inv_def)
  then obtain n where send: "ServiceManager_SendIOBuf_conn (cs_net s) caller c b = Inr (n, True)"
    and q: "n_queue n (?e, l) = n_queue (cs_net s) (?e, l) @ [(c, b)]" "n_threads n = n_threads (cs_net s)"
    using SendIOBuf_conn_accepts [OF _ home, of c caller b] hi by (auto simp: l_def)
  let ?s = "s\<lparr>cs_net := n\<rparr>" and ?l = "InLoop (Sent caller c b)"
  have st: "sys_step home s ?l ?s" by (intro sys_step.loop net_step.sent send) simp
  have "Wrote l c p b \<in> set (net_events tr')"
    if run: "run (sys_step home) ?s tr' s'" and live': "live s' p"
      and cnt: "\<forall>e. opened_count e (net_events (tr @ tr')) < 2 ^ 32"
      and turns: "length (n_queue (cs_net s) (?e, l)) < length (handled (id_hi c) l (net_events tr'))"
    for tr' s'
  proof -
    have "\<forall>e. opened_count e (net_events (tr @ [?l])) < 2 ^ 32"
    proof
      fix e show "opened_count e (net_events (tr @ [?l])) < 2 ^ 32" using spec [OF cnt, of e] by simp
    qed
    with r run_single [where step = "sys_step home", OF st]
    have r1: "system_run mp ge options sv home (tr @ [?l]) ?s" by (rule system_run_extend)
    have r2: "system_run mp ge options sv home ((tr @ [?l]) @ tr') s'"
      by (rule system_run_extend [OF r1 run]) (use cnt in simp)
    have "evb_index (cs_net ?s) ?e = id_hi c" using hi q(2) by (simp add: evb_index_def)
    then have "(n_queue (cs_net s) (?e, l) @ [(c, b)]) @ sents (id_hi c) ?e l (net_events tr') =
        handled (id_hi c) l (net_events tr') @ n_queue (cs_net s') (?e, l)"
      using system_queue [OF r1 _ r2 run, of ?e l] home q by simp
    then have "(conn_of ?s p, b) \<in> set (handled (id_hi c) l (net_events tr'))"
      using in_prefix [OF _ turns] by (simp add: c_def)
    from sys_run_writes_live [OF run r1 _ r2 live' this] live show ?thesis by (simp add: c_def)
  qed
  with send show ?thesis unfolding Let_def c_def [symmetric] l_def [symmetric] by blast
qed

section \<open>A concrete run\<close>

text \<open>
  The pools of \<open>demo_options\<close>; every pipeline lives on the client thread, index 2. The
  connection \<open>a\<close> is opened, gets a buffer, and is closed.
\<close>

definition demo_sys :: "(nat \<times> nat, nat \<times> nat, string, unit) conn_system" where
  "demo_sys = system_init demo_pool id demo_options (\<lambda>_. TcpServer)"

definition demo_home :: "string \<Rightarrow> nat \<times> nat" where
  "demo_home p = (Suc 0, 0)"

definition demo_live :: "(nat \<times> nat, nat \<times> nat, string, unit) conn_system" where
  "demo_live =
     \<lparr>cs_net = set_mgr (cs_net demo_sys) (Suc 0, 0)
        \<lparr>tl_current_conn_id = 1, tl_thread_id = 2, tl_pipelines = [1 \<mapsto> ''a'']\<rparr>,
      cs_handlers = (cs_handlers demo_sys)(''a'' := (new_ConnHandler (Some (Tcp TcpServer)))
        \<lparr>ch_conn_state := kConnected, ch_remote_address := ''peer'', ch_conn_id := pack_id 2 1\<rparr>)\<rparr>"

definition demo_events :: "(nat \<times> nat, string) sys_event list" where
  "demo_events = [OnPipeline ''a'' (TransportActive ''peer'') (Some (Opened (Suc 0, 0) ''a'' (pack_id 2 1)))]"

lemma demo_sys_simps:
  "cs_net demo_sys = demo_net" "cs_handlers demo_sys p = new_ConnHandler (Some (Tcp TcpServer))"
  by (simp_all add: demo_sys_def system_init_def demo_net_def)

lemma demo_mgr:
  "conn_mgrs (n_threads demo_net) (Suc 0, 0) = \<lparr>tl_current_conn_id = 0, tl_thread_id = 2, tl_pipelines = Map.empty\<rparr>"
  by (simp add: demo_threads)

lemma demo_home_base: "demo_home p \<in> event_bases (thread_datas (n_threads demo_net))"
  by (simp add: demo_home_def event_bases_def demo_threads)

lemma demo_live_run: "run (sys_step demo_home) demo_sys demo_events demo_live"
proof -
  let ?h = "(new_ConnHandler (Some (Tcp TcpServer)))
      \<lparr>ch_conn_state := kConnected, ch_remote_address := ''peer'', ch_conn_id := pack_id 2 1\<rparr> :: unit conn_handler"
  let ?m = "\<lparr>tl_current_conn_id = 1, tl_thread_id = 2, tl_pipelines = [1 \<mapsto> ''a'']\<rparr>"
  have "handle (TransportActive ''peer'') (conn_mgrs (n_threads (cs_net demo_sys)) (demo_home ''a''))
      (cs_handlers demo_sys ''a'') ''a'' = Some (Inr (?m, ?h, []))"
    by (simp add: demo_sys_simps demo_home_def demo_mgr ConnHandler_transportActive_def new_ConnHandler_def
        TLCM_OnNewConnection_def)
  then have "sys_step demo_home demo_sys
      (OnPipeline ''a'' (TransportActive ''peer'') (table_effect (demo_home ''a'') ''a'' (cs_handlers demo_sys ''a'') ?h))
      \<lparr>cs_net = set_mgr (cs_net demo_sys) (demo_home ''a'') ?m, cs_handlers = (cs_handlers demo_sys)(''a'' := ?h)\<rparr>"
    using demo_home_base by (intro sys_step.on_pipeline) (simp_all add: demo_sys_simps may_happen_def new_ConnHandler_def)
  moreover have "table_effect (demo_home ''a'') ''a'' (cs_handlers demo_sys ''a'') ?h =
      Some (Opened (Suc 0, 0) ''a'' (pack_id 2 1))"
    by (simp add: table_effect_def demo_sys_simps new_ConnHandler_def demo_home_def)
  ultimately show ?thesis
    unfolding demo_events_def demo_live_def by (intro run_single) (simp add: demo_home_def)
qed

lemma demo_live_system_run: "system_run demo_pool id demo_options (\<lambda>_. TcpServer) demo_home demo_events demo_live"
  using demo_live_run demo_pool_own demo_threads(1)
  by (simp add: system_run_def demo_sys_def [symmetric] demo_live_def demo_events_def demo_sys_simps)

lemma demo_live_simps:
  "live demo_live ''a''" "conn_of demo_live ''a'' = pack_id 2 1"
  "n_queue (cs_net demo_live) = (\<lambda>_. [])"
  by (simp_all add: demo_live_def demo_sys_simps demo_threads)

section \<open>Properties\<close>

text \<open>
  C4. The program's threads, handlers and sends refine both abstract descriptions: a run of
  the whole system is, event by event, a run of the routing of connection ids, and seen from
  any event-loop thread it is a run of that thread's handlers on its own table.
\<close>

theorem system_refines:
  fixes s :: "('h, 'e, 'p, 'a) conn_system"
  assumes "own_event_bases ge mp" "\<forall>p. sv p \<noteq> TcpClientGroup"
    and "run (sys_step home) (system_init mp ge options sv) tr s"
  shows "run net_step (net_init mp ge options) (net_events tr) (cs_net s) \<and>
     (\<forall>e \<in> event_bases (thread_datas (n_threads (net_init mp ge options :: ('h, 'e, 'p) net))).
        run conn_step (conn_thread_init (evb_index (net_init mp ge options :: ('h, 'e, 'p) net) e) sv)
          (List.map_filter (thread_label home e) tr) (thread_view home e sv s))"
proof -
  let ?s0 = "system_init mp ge options sv :: ('h, 'e, 'p, 'a) conn_system"
  have n: "cs_net ?s0 = net_init mp ge options" by (simp add: system_init_def)
  note ok = services_ok_init [OF assms(2)]
  have "run conn_step (conn_thread_init (evb_index (cs_net ?s0) e) sv)
      (List.map_filter (thread_label home e) tr) (thread_view home e sv s)" if "e \<in> sys_bases ?s0" for e
    using seen.run_abs [OF assms(3) ok, of e sv] system_init_view [OF assms(1) refl that, of home] by simp
  then show ?thesis using routing.run_abs [OF assms(3) ok] by (simp add: n)
qed

theorem system_refines_witness:
  "run net_step demo_net [Opened (Suc 0, 0) ''a'' (pack_id 2 1)] (cs_net demo_live)"
  using system_refines [OF demo_pool_own _ demo_live_run [unfolded demo_sys_def]]
  by (simp add: demo_net_def [symmetric] demo_events_def)

text \<open>
  C2. A turn of an event loop writes to a pipeline exactly if the pipeline's connection is
  live at that moment and its id is the id the buffer was sent to: no buffer reaches another
  connection or a closed one, and none that can still be delivered is dropped. (Fewer than
  $2^{32}$ connections opened on each thread so far.)
\<close>

theorem conn_write_exact:
  fixes s :: "('h, 'e, 'p, 'a) conn_system"
  assumes "system_run mp ge options sv home tr s" "e \<in> sys_bases s"
    and "run_posted (cs_net s) e l = Some ((c, b), w, n)"
  shows "w = Some p \<longleftrightarrow> live s p \<and> conn_of s p = c"
  by (rule run_posted_live [OF assms])

theorem conn_write_exact_witness:
  "\<exists>s :: (nat \<times> nat, nat \<times> nat, string, unit) conn_system. \<exists>n.
     run_posted (cs_net s) (Suc 0, 0) OtherThread = Some ((pack_id 2 1, [42]), Some ''a'', n) \<and>
     live s ''a'' \<and> conn_of s ''a'' = pack_id 2 1"
proof -
  let ?c = "pack_id 2 1" and ?n = "cs_net demo_live"
  let ?n' = "?n\<lparr>n_queue := (n_queue ?n)(((Suc 0, 0), OtherThread) := n_queue ?n ((Suc 0, 0), OtherThread) @ [(?c, [42])])\<rparr>"
  have send: "ServiceManager_SendIOBuf_conn ?n None ?c [42] = Inr (?n', True)"
    by (simp add: demo_live_def demo_sys_simps ServiceManager_SendIOBuf_conn_def GetEventBaseByThreadID_def
        demo_threads lane_of_def)
  let ?s = "demo_live\<lparr>cs_net := ?n'\<rparr>" and ?l = "InLoop (Sent None ?c [42])"
  have "sys_step demo_home demo_live ?l ?s" by (intro sys_step.loop net_step.sent send) simp
  from run_single [where step = "sys_step demo_home", OF this]
  have r: "system_run demo_pool id demo_options (\<lambda>_. TcpServer) demo_home (demo_events @ [?l]) ?s"
    by (rule system_run_extend [OF demo_live_system_run]) (auto simp: demo_events_def opened_count_def)
  have post: "run_posted (cs_net ?s) (Suc 0, 0) OtherThread =
      Some ((?c, [42]), Some ''a'', ?n'\<lparr>n_queue := (n_queue ?n')(((Suc 0, 0), OtherThread) := [])\<rparr>)"
    by (simp add: run_posted_def TLCM_SendIOBufByConnID_def demo_live_def demo_sys_simps demo_threads)
  have "(Suc 0, 0) \<in> sys_bases ?s"
    using demo_home_base [of "''a''"] by (simp add: demo_live_def demo_sys_simps demo_home_def)
  from conn_write_exact [OF r this post, of "''a''"] have "live ?s ''a'' \<and> conn_of ?s ''a'' = ?c" by blast
  with post show ?thesis by blast
qed

text \<open>
  C3. A closed connection is silent for good: after the handler of a pipeline has seen the end
  of its connection, no buffer sent to its id, before or after, is written to any pipeline. This is
  for runs in which fewer than $2^{32}$ connections are opened on each thread, closed ones counted:
  then the 32-bit counter comes round, and the number of a closed connection is handed out again.
\<close>

theorem closed_conn_silent:
  fixes s :: "('h, 'e, 'p, 'a) conn_system"
  assumes r: "system_run mp ge options sv home tr s" and closed: "ch_conn_state (cs_handlers s p) = kClosed"
    and run: "run (sys_step home) s tr' s'" and cnt: "\<forall>e. opened_count e (net_events (tr @ tr')) < 2 ^ 32"
  shows "Wrote l (conn_of s p) q b \<notin> set (net_events tr')"
  using run cnt
proof (induction rule: run.induct)
  case (run_snoc tr' t lab t')
  have cnt: "\<forall>e. opened_count e (net_events (tr @ tr')) < 2 ^ 32"
  proof
    fix e show "opened_count e (net_events (tr @ tr')) < 2 ^ 32" using spec [OF run_snoc.prems, of e] by simp
  qed
  have t: "system_run mp ge options sv home (tr @ tr') t" by (rule system_run_extend [OF r run_snoc.hyps(1) cnt])
  have kept: "ch_conn_state (cs_handlers t p) = kClosed \<and> conn_of t p = conn_of s p"
    by (rule closed_stays [OF run_snoc.hyps(1) system_run_services [OF r] closed])
  have "False" if "net_label lab = Some (Wrote l (conn_of s p) q b)"
  proof -
    have "net_step (cs_net t) (Wrote l (conn_of s p) q b) (cs_net t')"
      by (rule sys_loopE [OF run_snoc.hyps(2) that]) simp
    then obtain e n where "e \<in> sys_bases t" "run_posted (cs_net t) e l = Some ((conn_of s p, b), Some q, n)"
      by cases auto
    then have q: "live t q" "conn_of t q = conn_of s p" using run_posted_live [OF t] by blast+
    have "Opened (home x) x (conn_of t x) \<in> set (net_events (tr @ tr'))"
      if "ch_conn_state (cs_handlers t x) \<noteq> kNone" for x
      by (rule system_opened [where mp = mp and ge = ge and options = options and sv = sv, OF _ _ that]) (use t in \<open>simp_all add: system_run_def\<close>)
    from this [of q] this [of p] q(1) kept
    have "Opened (home q) q (conn_of t q) \<in> set (net_events (tr @ tr'))"
      "Opened (home p) p (conn_of t p) \<in> set (net_events (tr @ tr'))" by simp_all
    moreover have "ids_ok (net_events (tr @ tr')) (cs_net t)"
      using system_net_inv [OF t] by (simp add: net_inv_def)
    ultimately have "q = p" using q(2) kept unfolding ids_ok_def by metis
    with q(1) kept show False by simp
  qed
  then show ?case using run_snoc.IH [OF cnt] by (auto split: option.splits)
qed (simp add: List.map_filter_def)

theorem closed_conn_silent_witness:
  "\<exists>s. run (sys_step demo_home) demo_live [OnPipeline ''a'' ReadEOF (Some (Closed (Suc 0, 0) (pack_id 2 1)))] s \<and>
     Wrote OtherThread (pack_id 2 1) ''a'' [42] \<notin> set (net_events [InLoop (Sent None (pack_id 2 1) [42])])"
proof -
  let ?c = "pack_id 2 1" and ?n = "cs_net demo_live" and ?h = "cs_handlers demo_live ''a''"
  let ?m = "fst (TLCM_OnConnectionClosed (conn_mgrs (n_threads ?n) (Suc 0, 0)) ?c ''a'')"
  let ?h' = "?h\<lparr>ch_conn_state := kClosed, ch_remote_address := []\<rparr>"
  have sv: "ch_service ?h = Some TcpServer" by (simp add: demo_live_def new_ConnHandler_def)
  have "handle ReadEOF (conn_mgrs (n_threads ?n) (demo_home ''a'')) ?h ''a'' = Some (Inr (?m, ?h', [FireClose]))"
    using sv demo_live_simps(1,2)
    by (simp add: ConnHandler_readEOF_def ConnHandler_close_def demo_home_def)
  moreover have "demo_home ''a'' \<in> sys_bases demo_live"
    using demo_home_base by (simp add: demo_live_def demo_sys_simps)
  ultimately have "sys_step demo_home demo_live
      (OnPipeline ''a'' ReadEOF (table_effect (demo_home ''a'') ''a'' ?h ?h'))
      \<lparr>cs_net = set_mgr ?n (demo_home ''a'') ?m, cs_handlers = (cs_handlers demo_live)(''a'' := ?h')\<rparr>"
    by (intro sys_step.on_pipeline) (simp_all add: may_happen_def)
  then obtain s where st: "sys_step demo_home demo_live (OnPipeline ''a'' ReadEOF (Some (Closed (Suc 0, 0) ?c))) s"
    and s: "s = \<lparr>cs_net = set_mgr ?n (Suc 0, 0) ?m, cs_handlers = (cs_handlers demo_live)(''a'' := ?h')\<rparr>"
    using demo_live_simps by (simp add: table_effect_def demo_home_def)
  note r = run_single [where step = "sys_step demo_home", OF st]
  from r have sr: "system_run demo_pool id demo_options (\<lambda>_. TcpServer) demo_home
      (demo_events @ [OnPipeline ''a'' ReadEOF (Some (Closed (Suc 0, 0) ?c))]) s"
    by (rule system_run_extend [OF demo_live_system_run]) (auto simp: demo_events_def opened_count_def)
  obtain n where "ServiceManager_SendIOBuf_conn (cs_net s) None ?c [42] = Inr (n, True)"
    by (simp add: s demo_live_def demo_sys_simps ServiceManager_SendIOBuf_conn_def GetEventBaseByThreadID_def demo_threads)
  then have "sys_step demo_home s (InLoop (Sent None ?c [42])) (s\<lparr>cs_net := n\<rparr>)"
    by (intro sys_step.loop net_step.sent) simp_all
  from closed_conn_silent [OF sr _ run_single [where step = "sys_step demo_home", OF this], of "''a''" OtherThread "''a''" "[42]"]
  have "Wrote OtherThread ?c ''a'' [42] \<notin> set (net_events [InLoop (Sent None ?c [42])])"
    by (simp add: s demo_live_simps demo_events_def)
  with r show ?thesis by blast
qed

end
