(* ===== verification/Hub_Runs.thy ===== *)
theory Hub_Runs
  imports Root_Main
begin

text \<open>
  What a run of the IoT hub does, from its configuration file to its end: which services it
  starts and with which worker number, which configurations make it serve nothing or fail, and
  with which status it exits. The theory also builds the concrete hub used by the witnesses.
\<close>

section \<open>Properties\<close>

text \<open>
  C11. From the configuration file to the running services: when the hub reaches its main loop,
  the services started are exactly those of the file's \<open>services\<close> list, in the order of the
  file, whose type and name the hub has a factory for, and the snowflake worker number is the
  configured \<open>server_number\<close>.
\<close>

theorem hub_runs_configured_services:
  fixes s :: "('h, 'e, 'p, 'th) main_state"
  assumes "IotHubServer_main flags number env main_eb events = Inr (s, e)" "serving e"
    and "env_readFile env (config_path env) = Some data" "env_parse env data = Some j"
    and "json_find j ''services'' = Some v" "json_find j ''thread_group'' = Some t"
    and "json_find j ''iot_hub_server'' = Some h" "json_find h ''server_number'' = Some (JUInt k)"
  shows "\<exists>cs. ToServiceConfigs (env_port env) v = Inr cs \<and>
     map (cfg_of (ms_service_manager s)) (sm_started (ms_service_manager s)) = map Some (filter (hub_service t) cs) \<and>
     g_worker_id (ms_snowflake s) = word_of_nat k"
proof -
  obtain cs sm where cs: "ToServiceConfigs (env_port env) v = Inr cs" and sm: "untouched sm" "sm_service_configs sm = cs"
    and k: "\<And>c. FactoryManager_CreateService (sm_factories sm) c \<noteq> None \<longleftrightarrow> hub_service t c"
    and st: "ServiceManager_Start (env_start env) sm = Inr (ms_service_manager s, True)"
    by (rule hub_serving_file [OF assms(1-6)]) blast
  have "map (cfg_of (ms_service_manager s)) (sm_started (ms_service_manager s)) = map Some (filter (hub_service t) cs)"
    using started_after_Start [OF st sm(1)] unfolding sm(2) k .
  moreover have "g_worker_id (ms_snowflake s) = word_of_nat k"
    using hub_worker_number [OF assms(1-4,7,8)] by simp
  ultimately show ?thesis using cs by blast
qed

text \<open>
  A hub configured with the combined \<open>conn\<close> thread group runs, and serves nothing: it reaches
  its main loop and writes its pid file without having started any service.
\<close>

theorem hub_conn_group_serves_nothing:
  fixes s :: "('h, 'e, 'p, 'th) main_state"
  assumes "IotHubServer_main flags number env main_eb events = Inr (s, e)" "serving e"
    and "env_readFile env (config_path env) = Some data" "env_parse env data = Some j"
    and "json_find j ''services'' = Some v" "json_find j ''thread_group'' = Some t" "json_find t ''conn'' \<noteq> None"
  shows "sm_started (ms_service_manager s) = []"
proof -
  obtain cs sm where sm: "untouched sm" "sm_service_configs sm = cs"
    and k: "\<And>c. FactoryManager_CreateService (sm_factories sm) c \<noteq> None \<longleftrightarrow> hub_service t c"
    and st: "ServiceManager_Start (env_start env) sm = Inr (ms_service_manager s, True)"
    by (rule hub_serving_file [OF assms(1-6)]) blast
  have "\<not> hub_service t c" for c using assms(7) by (simp add: hub_service_def)
  then show ?thesis using started_after_Start [OF st sm(1)] unfolding k by simp
qed

text \<open>
  C39. A hub whose file configures a service of type and name \<open>tcp_client\<close> never reaches its main
  loop: the pipeline of the client cannot be linked, and the exception leaves the event base
  thread on which it is built.
\<close>

theorem hub_client_never_serves:
  fixes env :: "('h, 'e) process_env"
  assumes "wangle_flows lib" "checks_links lib finalize"
    and "newPipeline ClientConnPipelineFactory =
       ClientConnPipelineFactory_newPipeline finalize (Some (Tcp TcpClient)) sock"
    and "si_start (env_start env) = service_Start can_listen resolves can_bind cleartext defaults handlers getEventBase newPipeline"
    and "env_readFile env (config_path env) = Some data" "env_parse env data = Some j"
    and "json_find j ''services'' = Some v" "json_find j ''thread_group'' = Some t"
    and "ToServiceConfigs (env_port env) v = Inr cs" "c \<in> set cs"
    and "service_type c = ''tcp_client''" "hub_service t c"
  shows "\<not> (\<exists>(s :: ('h, 'e, 'p, 'th) main_state) e.
     IotHubServer_main flags number env main_eb events = Inr (s, e) \<and> serving e)"
proof
  assume "\<exists>(s :: ('h, 'e, 'p, 'th) main_state) e.
     IotHubServer_main flags number env main_eb events = Inr (s, e) \<and> serving e"
  then obtain s :: "('h, 'e, 'p, 'th) main_state" and e
    where main: "IotHubServer_main flags number env main_eb events = Inr (s, e)" "serving e" by blast
  obtain cs' sm where cs: "ToServiceConfigs (env_port env) v = Inr cs'"
    and sm: "untouched sm" "sm_service_configs sm = cs'" "\<forall>f \<in> set (sm_factories sm). fac_kind f \<noteq> TcpClientGroupFactory"
    and k: "\<And>c. FactoryManager_CreateService (sm_factories sm) c \<noteq> None \<longleftrightarrow> hub_service t c"
    and st: "ServiceManager_Start (env_start env) sm = Inr (ms_service_manager s, True)"
    by (rule hub_serving_file [OF main assms(5-8)]) blast
  obtain sv where sv: "FactoryManager_CreateService (sm_factories sm) c = Some sv" using k assms(12) by blast
  have "reg_ok [] sm" using sm(1) by (intro reg_ok_new) (simp_all add: untouched_def)
  moreover have "c \<in> set (sm_service_configs sm)" using assms(9,10) cs sm(2) by simp
  moreover have "Start_loop (env_start env) (sm_service_configs sm) sm = Inr (ms_service_manager s)"
    using st by (simp add: ServiceManager_Start_def rbind_eq_Inr_iff)
  ultimately have "si_start (env_start env) sv = Inr ()" using Start_loop_starts_all sv by blast
  moreover have "sv_module sv = TCP_CLIENT" "sv_child sv = Some ClientConnPipelineFactory"
    using created_client [OF sv assms(11) sm(3)] by simp_all
  ultimately show False
    using client_start_terminates [of lib finalize sv newPipeline sock can_listen resolves can_bind cleartext defaults
        handlers getEventBase, OF assms(1,2) _ _ assms(3)]
    unfolding assms(4) by simp
qed

text \<open>
  The exit status tells nothing: a configuration file that cannot be read and a service that
  throws at its start both end the process with status 0, the latter with \<open>ret\<close> true, after
  \<open>Run\<close> has turned \<open>-1\<close> into \<open>true\<close>.
\<close>

theorem hub_failures_exit_zero:
  fixes s1 :: "('h, 'e, 'p, 'th) main_state"
  shows "(env_readFile env (config_path env) = None \<longrightarrow>
      (\<exists>s :: ('h, 'e, 'p, 'th) main_state.
         IotHubServer_main flags number env main_eb events = Inr (s, Exit 0 False None))) \<and>
    (Root_LoadConfig env ((new_IotHubServer flags number)\<lparr>ms_config_file := config_path env,
       ms_pid_file_path := env_pid_path env\<rparr>) (config_path env) = Inr (s1, True) \<longrightarrow>
     IotHubServer_Initialize env s1 = Inr (s2, True) \<longrightarrow>
     ServiceManager_Start (env_start env) (ms_service_manager s2) = Inl x \<longrightarrow> is_exception x \<longrightarrow>
     IotHubServer_main flags number env main_eb events = Inr (s2, Exit 0 True (Some (StartThrew x True))))"
proof (intro conjI impI)
  have "config_path env \<noteq> []" by (simp add: config_path_def)
  moreover assume "env_readFile env (config_path env) = None"
  ultimately show "\<exists>s :: ('h, 'e, 'p, 'th) main_state.
      IotHubServer_main flags number env main_eb events = Inr (s, Exit 0 False None)"
    by (simp add: IotHubServer_main_def BaseMain_DoMain_def config_path_def [symmetric] Let_def
        Root_LoadConfig_def BaseMain_LoadConfig_def ConfigManager_Initialize_def OnConfigUpdated_def)
next
  assume "Root_LoadConfig env ((new_IotHubServer flags number)\<lparr>ms_config_file := config_path env,
       ms_pid_file_path := env_pid_path env\<rparr>) (config_path env) = Inr (s1, True)"
    "IotHubServer_Initialize env s1 = Inr (s2, True)"
    "ServiceManager_Start (env_start env) (ms_service_manager s2) = Inl x" "is_exception x"
  then show "IotHubServer_main flags number env main_eb events = Inr (s2, Exit 0 True (Some (StartThrew x True)))"
    by (simp add: IotHubServer_main_def BaseMain_DoMain_def config_path_def [symmetric] Let_def Root_Run_def)
qed

text \<open>The signals that end the program.\<close>

definition stops :: "main_event \<Rightarrow> bool" where
  "stops e \<longleftrightarrow> e \<in> {Signal 15, Signal 2, Signal 1}"

lemma stops_simps [simp]: "\<not> stops Due" "stops (Signal x) \<longleftrightarrow> x = 15 \<or> x = 2 \<or> x = 1"
  by (auto simp: stops_def)

lemma loopForever_ticking:
  "loopForever (Some evb) (TimerTick, 1000) n es =
     (let k = n + count_list (takeWhile (\<lambda>x. \<not> stops x) es) Due
      in if list_ex stops es then Inr k else Inl (k, TimerTick, 1000))"
proof (induction es arbitrary: n)
  case (Cons e es)
  then show ?case
    by (cases e) (auto simp: SignalHandler_def OnShutdownDaemon_def DoTimer_def Let_def)
qed simp

text \<open>
  C34. The main loop returns exactly when one of the three signals arrives, and until then has
  called \<open>OnTimer\<close> once for each closure that fell due, except the first, which only starts
  the timer. The next tick is always pending, one second away.
\<close>

theorem main_loop_ends_on_signal:
  "loopForever (Some evb) (StartTimer, 1000) 0 es =
     (let k = count_list (takeWhile (\<lambda>x. \<not> stops x) es) Due
      in if list_ex stops es then Inr (k - 1)
         else Inl (k - 1, if k = 0 then StartTimer else TimerTick, 1000))"
proof (induction es)
  case (Cons e es)
  then show ?case
    by (cases e) (auto simp: loopForever_ticking SignalHandler_def OnShutdownDaemon_def DoTimer_def Let_def)
qed simp

section \<open>A concrete hub\<close>

text \<open>A hub with the thread configuration \<open>t\<close>, one service of its own and one it has no factory for.\<close>

definition demo_hub_json :: "nat \<Rightarrow> json \<Rightarrow> json list \<Rightarrow> json" where
  "demo_hub_json k t services =
     JObject [(''thread_group'', t), (''iot_hub_server'', JObject [(''server_number'', JUInt k)]), (''services'', JArray services)]"

definition demo_service :: "string \<Rightarrow> string \<Rightarrow> json" where
  "demo_service name type = JObject [(''service_name'', JString name), (''service_type'', JString type), (''port'', JUInt 80)]"

definition demo_hub_env ::
  "nat \<Rightarrow> json \<Rightarrow> json list \<Rightarrow> (((nat \<times> nat) service) \<Rightarrow> unit res) \<Rightarrow> (nat \<times> nat, nat \<times> nat) process_env" where
  "demo_hub_env k t services start =
     \<lparr>env_program = ''hub'', env_json = [], env_pid_path = [], env_parse = (\<lambda>_. Some (demo_hub_json k t services)),
      env_readFile = (\<lambda>n. if n = ''hub.json'' then Some [] else None), env_hardware_concurrency = 4, env_port = 0,
      env_can_open = (\<lambda>_. True), env_pid = 42, env_make_pool = demo_pool, env_getEventBase = id, env_start = starting start\<rparr>"

definition demo_threads :: json where
  "demo_threads = JObject [(''accept'', JInt 2), (''client'', JInt 1)]"

definition demo_flags :: log_flags where
  "demo_flags = \<lparr>log_destination = Map.empty, logbufsecs = 0, logbuflevel = 0, max_log_size = 0, minloglevel = 0,
     stop_logging_if_full_disk = False, v_level = 0, GLOG_trace = False, GLOG_trace_call_chain = False,
     GLOG_trace_fiber = False, GLOG_trace_http = False, GLOG_trace_message_handler = False, GLOG_trace_cost = False\<rparr>"

lemma demo_hub_facts [simp]:
  "config_path (demo_hub_env k t services start) = ''hub.json''"
  "env_readFile (demo_hub_env k t services start) ''hub.json'' = Some []"
  "env_parse (demo_hub_env k t services start) d = Some (demo_hub_json k t services)"
  "env_start (demo_hub_env k t services start) = starting start" "env_port (demo_hub_env k t services start) = 0"
  "env_pid_path (demo_hub_env k t services start) = []" "env_hardware_concurrency (demo_hub_env k t services start) = 4"
  "json_find (demo_hub_json k t services) ''services'' = Some (JArray services)"
  "json_find (demo_hub_json k t services) ''thread_group'' = Some t"
  "json_find (demo_hub_json k t services) ''iot_hub_server'' = Some (JObject [(''server_number'', JUInt k)])"
  "json_find (demo_hub_json k t services) ''logger'' = None" "json_find (demo_hub_json k t services) ''system'' = None"
  by (simp_all add: demo_hub_env_def demo_hub_json_def config_path_def)

lemma demo_hub_loads:
  assumes "ThreadGroupListOption_SetConf 4 [] ''thread_group'' t = Inr opts" "ToServiceConfigs 0 (JArray services) = Inr cs"
  shows "\<exists>s1 :: (nat \<times> nat, nat \<times> nat, string, nat) main_state.
     Root_LoadConfig (demo_hub_env k t services start) ((new_IotHubServer demo_flags 0)\<lparr>ms_config_file := ''hub.json'',
       ms_pid_file_path := []\<rparr>) ''hub.json'' = Inr (s1, True) \<and>
     ms_items s1 Services = ServicesItem cs \<and> ms_items s1 Thread_Group = ThreadGroupItem opts \<and>
     ms_service_manager s1 = new_ServiceManager \<and> ms_services s1 = [(''iot_hub_server'', ''tcp_server'')] \<and>
     ms_pid_file_path s1 = []"
  using assms
  by (simp add: Root_LoadConfig_def BaseMain_LoadConfig_def ConfigManager_Initialize_def OnConfigUpdated_def
      OnConfigDataUpdated_def Let_def hub_fresh hub_config_items initial_items_def IotHubConfig_SetConf_def
      ServicesConfig_SetConf_def)

text \<open>The stages of a run of the concrete hub.\<close>

lemma demo_hub_stages:
  assumes "ThreadGroupListOption_SetConf 4 [] ''thread_group'' t = Inr opts" "ToServiceConfigs 0 (JArray services) = Inr cs"
  obtains s1 s2 :: "(nat \<times> nat, nat \<times> nat, string, nat) main_state" where
    "Root_LoadConfig (demo_hub_env k t services start) ((new_IotHubServer demo_flags 0)\<lparr>ms_config_file := ''hub.json'',
       ms_pid_file_path := []\<rparr>) ''hub.json'' = Inr (s1, True)"
    "IotHubServer_Initialize (demo_hub_env k t services start) s1 = Inr (s2, True)"
    "untouched (ms_service_manager s2)" "sm_service_configs (ms_service_manager s2) = cs"
    "\<forall>c. FactoryManager_CreateService (sm_factories (ms_service_manager s2)) c \<noteq> None \<longleftrightarrow> hub_service t c"
proof -
  obtain s1 :: "(nat \<times> nat, nat \<times> nat, string, nat) main_state"
    where l: "Root_LoadConfig (demo_hub_env k t services start) ((new_IotHubServer demo_flags 0)\<lparr>ms_config_file := ''hub.json'',
       ms_pid_file_path := []\<rparr>) ''hub.json'' = Inr (s1, True)"
    and items: "ms_items s1 Services = ServicesItem cs" "ms_items s1 Thread_Group = ThreadGroupItem opts"
    and sv: "ms_services s1 = [(''iot_hub_server'', ''tcp_server'')]" and sm: "ms_service_manager s1 = new_ServiceManager"
    using demo_hub_loads [OF assms, of k start] by blast
  have sn: "ms_snowflake s1 = new_Snowflake" by (rule hub_LoadConfig [OF l])
  obtain s2 where i: "IotHubServer_Initialize (demo_hub_env k t services start) s1 = Inr (s2, True)"
    using hub_Initialize_total [OF sv] by blast
  note h = hub_Initialize [OF i sm sv sn refl]
  have T: "CONN_ACCEPT \<in> tgo_thread_type ` set opts \<longleftrightarrow> json_find t ''conn'' = None \<and> json_find t ''accept'' \<noteq> None"
    "CONN_CLIENT \<in> tgo_thread_type ` set opts \<longleftrightarrow> json_find t ''conn'' = None \<and> json_find t ''client'' \<noteq> None"
    unfolding SetConf_types [OF assms(1)] by auto
  have "FactoryManager_CreateService (sm_factories (ms_service_manager s2)) c \<noteq> None \<longleftrightarrow> hub_service t c" for c
    unfolding CreateService_iff set_map [symmetric] using h T unfolding items hub_service_def by auto
  then show thesis using that [OF l i] h items by simp
qed

lemma demo_hub_ends:
  assumes "Root_LoadConfig (demo_hub_env k t services start) ((new_IotHubServer demo_flags 0)\<lparr>ms_config_file := ''hub.json'',
       ms_pid_file_path := []\<rparr>) ''hub.json'' = Inr (s1, True)"
    and "IotHubServer_Initialize (demo_hub_env k t services start) s1 = Inr (s2, True)"
    and "ServiceManager_Start (starting start) (ms_service_manager s2) = Inr (sm, True)"
  shows "\<exists>n st pf. IotHubServer_main demo_flags 0 (demo_hub_env k t services start) evb [Due, Signal 15] =
     Inr (s2\<lparr>ms_service_manager := sm\<rparr>, Exit 0 True (Some (LoopEnded n st pf True)))"
  using assms
  by (simp add: IotHubServer_main_def BaseMain_DoMain_def config_path_def [symmetric] Let_def Root_Run_def writePid_def
      SignalHandler_def OnShutdownDaemon_def DoTimer_def demo_hub_env_def [THEN arg_cong, of env_can_open])

lemma demo_threads_conf:
  "ThreadGroupListOption_SetConf 4 [] ''thread_group'' demo_threads =
     Inr [\<lparr>tgo_thread_type = CONN_ACCEPT, tgo_thread_size = 2\<rparr>, \<lparr>tgo_thread_type = CONN_CLIENT, tgo_thread_size = 1\<rparr>]"
  by (simp add: demo_threads_def ThreadGroupListOption_SetConf_def conf_group_def group_size_def to_i32_id)

lemma demo_service_conf:
  "ServiceConfig_SetConf (new_ServiceConfig 0) [] (demo_service name type) =
     Inr \<lparr>service_name = name, service_type = type, hosts = [], port = 80, max_conn_cnt = 0\<rparr>"
  by (simp add: demo_service_def ServiceConfig_SetConf_def new_ServiceConfig_def to_i32_id)

definition demo_conf :: "string \<Rightarrow> string \<Rightarrow> service_config" where
  "demo_conf name type = \<lparr>service_name = name, service_type = type, hosts = [], port = 80, max_conn_cnt = 0\<rparr>"

lemma demo_services_conf:
  "ToServiceConfigs 0 (JArray [demo_service n t, demo_service n' t']) = Inr [demo_conf n t, demo_conf n' t']"
  by (simp add: ToServiceConfigs_def demo_service_conf demo_conf_def)

lemma demo_hub_service:
  "hub_service demo_threads (demo_conf ''iot_hub_server'' ''tcp_server'')"
  "\<not> hub_service demo_threads (demo_conf ''web'' ''http_server'')"
  by (simp_all add: hub_service_def demo_threads_def demo_conf_def)

lemma one_server_starts:
  assumes "untouched sm" "sm_service_configs sm = [c, c']" "service_type c = ''tcp_server''"
    and "FactoryManager_CreateService (sm_factories sm) c \<noteq> None" "FactoryManager_CreateService (sm_factories sm) c' = None"
  shows "\<exists>sm'. ServiceManager_Start (starting (\<lambda>_. Inr ())) sm = Inr (sm', True)"
proof -
  obtain sv where sv: "FactoryManager_CreateService (sm_factories sm) c = Some sv" using assms(4) by blast
  have "sv_config sv = c" using CreateService_result [OF sv] by simp
  then show ?thesis
    using assms sv
    by (simp add: ServiceManager_Start_def add_object_def RegisterServiceBase_def untouched_def Let_def)
qed

lemma demo_hub_serves:
  "\<exists>(s :: (nat \<times> nat, nat \<times> nat, string, nat) main_state) e.
     IotHubServer_main demo_flags 0 (demo_hub_env k demo_threads
       [demo_service ''iot_hub_server'' ''tcp_server'', demo_service ''web'' ''http_server''] (\<lambda>_. Inr ())) (9, 9)
       [Due, Signal 15] = Inr (s, e) \<and> serving e"
proof -
  let ?sv = "[demo_service ''iot_hub_server'' ''tcp_server'', demo_service ''web'' ''http_server'']"
  let ?env = "demo_hub_env k demo_threads ?sv (\<lambda>_. Inr ())"
  obtain s1 s2 :: "(nat \<times> nat, nat \<times> nat, string, nat) main_state" where st:
    "Root_LoadConfig ?env ((new_IotHubServer demo_flags 0)\<lparr>ms_config_file := ''hub.json'',
       ms_pid_file_path := []\<rparr>) ''hub.json'' = Inr (s1, True)"
    "IotHubServer_Initialize ?env s1 = Inr (s2, True)"
    and u: "untouched (ms_service_manager s2)"
    "sm_service_configs (ms_service_manager s2) = [demo_conf ''iot_hub_server'' ''tcp_server'', demo_conf ''web'' ''http_server'']"
    "\<forall>c. FactoryManager_CreateService (sm_factories (ms_service_manager s2)) c \<noteq> None \<longleftrightarrow> hub_service demo_threads c"
    by (rule demo_hub_stages [where k = k and services = ?sv and start = "\<lambda>_. Inr ()", OF demo_threads_conf demo_services_conf])
  obtain sm where sm: "ServiceManager_Start (starting (\<lambda>_. Inr ())) (ms_service_manager s2) = Inr (sm, True)"
    using one_server_starts [OF u(1,2)] u(3) [rule_format] demo_hub_service by (auto simp: demo_conf_def)
  obtain n stopped pf where "IotHubServer_main demo_flags 0 ?env (9, 9) [Due, Signal 15] =
      Inr (s2\<lparr>ms_service_manager := sm\<rparr>, Exit 0 True (Some (LoopEnded n stopped pf True)))"
    using demo_hub_ends [OF st sm] by blast
  then show ?thesis
    by (intro exI [of _ "s2\<lparr>ms_service_manager := sm\<rparr>"] exI [of _ "Exit 0 True (Some (LoopEnded n stopped pf True))"]) simp
qed

theorem hub_runs_configured_services_witness:
  "\<exists>(s :: (nat \<times> nat, nat \<times> nat, string, nat) main_state) e.
     IotHubServer_main demo_flags 0 (demo_hub_env 7 demo_threads
       [demo_service ''iot_hub_server'' ''tcp_server'', demo_service ''web'' ''http_server''] (\<lambda>_. Inr ())) (9, 9)
       [Due, Signal 15] = Inr (s, e) \<and> serving e \<and>
     map (cfg_of (ms_service_manager s)) (sm_started (ms_service_manager s)) =
       [Some (demo_conf ''iot_hub_server'' ''tcp_server'')] \<and>
     g_worker_id (ms_snowflake s) = 7"
proof -
  let ?sv = "[demo_service ''iot_hub_server'' ''tcp_server'', demo_service ''web'' ''http_server'']"
  let ?env = "demo_hub_env 7 demo_threads ?sv (\<lambda>_. Inr ())"
  obtain s :: "(nat \<times> nat, nat \<times> nat, string, nat) main_state" and e
    where m: "IotHubServer_main demo_flags 0 ?env (9, 9) [Due, Signal 15] = Inr (s, e)" "serving e"
    using demo_hub_serves [of 7] by blast
  have f: "env_readFile ?env (config_path ?env) = Some []"
    "env_parse ?env [] = Some (demo_hub_json 7 demo_threads ?sv)"
    "json_find (demo_hub_json 7 demo_threads ?sv) ''services'' = Some (JArray ?sv)"
    "json_find (demo_hub_json 7 demo_threads ?sv) ''thread_group'' = Some demo_threads"
    "json_find (demo_hub_json 7 demo_threads ?sv) ''iot_hub_server'' = Some (JObject [(''server_number'', JUInt 7)])"
    "json_find (JObject [(''server_number'', JUInt 7)]) ''server_number'' = Some (JUInt 7)"
    by simp_all
  from hub_runs_configured_services [OF m f]
  have "map (cfg_of (ms_service_manager s)) (sm_started (ms_service_manager s)) =
      [Some (demo_conf ''iot_hub_server'' ''tcp_server'')] \<and> g_worker_id (ms_snowflake s) = 7"
    using demo_hub_service by (auto simp: demo_services_conf)
  with m show ?thesis by (intro exI [of _ s] exI [of _ e]) simp
qed

theorem hub_conn_group_serves_nothing_witness:
  "\<exists>(s :: (nat \<times> nat, nat \<times> nat, string, nat) main_state) e.
     IotHubServer_main demo_flags 0 (demo_hub_env 7 (JObject [(''conn'', JInt 4)])
       [demo_service ''iot_hub_server'' ''tcp_server'', demo_service ''web'' ''http_server''] (\<lambda>_. Inr ())) (9, 9)
       [Due, Signal 15] = Inr (s, e) \<and> serving e \<and> sm_started (ms_service_manager s) = []"
proof -
  let ?sv = "[demo_service ''iot_hub_server'' ''tcp_server'', demo_service ''web'' ''http_server'']"
  let ?t = "JObject [(''conn'', JInt 4)]"
  let ?env = "demo_hub_env 7 ?t ?sv (\<lambda>_. Inr ())"
  have t: "ThreadGroupListOption_SetConf 4 [] ''thread_group'' ?t = Inr [\<lparr>tgo_thread_type = CONN, tgo_thread_size = 4\<rparr>]"
    by (simp add: ThreadGroupListOption_SetConf_def conf_group_def group_size_def to_i32_id)
  obtain s1 s2 :: "(nat \<times> nat, nat \<times> nat, string, nat) main_state" where st:
    "Root_LoadConfig ?env ((new_IotHubServer demo_flags 0)\<lparr>ms_config_file := ''hub.json'',
       ms_pid_file_path := []\<rparr>) ''hub.json'' = Inr (s1, True)"
    "IotHubServer_Initialize ?env s1 = Inr (s2, True)"
    and u: "sm_service_configs (ms_service_manager s2) = [demo_conf ''iot_hub_server'' ''tcp_server'', demo_conf ''web'' ''http_server'']"
    "\<forall>c. FactoryManager_CreateService (sm_factories (ms_service_manager s2)) c \<noteq> None \<longleftrightarrow> hub_service ?t c"
    by (rule demo_hub_stages [where k = 7 and services = ?sv and start = "\<lambda>_. Inr ()", OF t demo_services_conf])
  have "FactoryManager_CreateService (sm_factories (ms_service_manager s2)) c = None" for c
    using u(2) [rule_format, of c] by (simp add: hub_service_def)
  then have "ServiceManager_Start (starting (\<lambda>_. Inr ())) (ms_service_manager s2) = Inr (ms_service_manager s2, True)"
    by (simp add: ServiceManager_Start_def u(1))
  from demo_hub_ends [OF st this, of "(9, 9)"] obtain n stopped pf where m:
    "IotHubServer_main demo_flags 0 ?env (9, 9) [Due, Signal 15] = Inr (s2, Exit 0 True (Some (LoopEnded n stopped pf True)))"
    by auto
  from hub_conn_group_serves_nothing [OF m] have "sm_started (ms_service_manager s2) = []" by simp
  with m show ?thesis by auto
qed

theorem hub_client_never_serves_witness:
  "\<not> (\<exists>(s :: (nat \<times> nat, nat \<times> nat, string, nat) main_state) e.
     IotHubServer_main demo_flags 0 (demo_hub_env 7 demo_threads
       [demo_service ''iot_hub_server'' ''tcp_server'', demo_service ''tcp_client'' ''tcp_client'']
       (service_Start (\<lambda>_. True) (\<lambda>_. True) (\<lambda>_. True) ''http'' demo_http_options () (\<lambda>_. ())
          (\<lambda>_. ClientConnPipelineFactory_newPipeline demo_finalize (Some (Tcp TcpClient))
            \<lparr>local_address = ''a'', peer_address = ''b''\<rparr>)))
       (9, 9) [Due, Signal 15] = Inr (s, e) \<and> serving e)"
proof -
  have w: "wangle_flows demo_flows" "checks_links demo_flows demo_finalize"
    by (simp_all add: wangle_flows_def checks_links_def demo_flows_def demo_finalize_def)
  have c: "demo_conf ''tcp_client'' ''tcp_client'' \<in> set [demo_conf ''iot_hub_server'' ''tcp_server'', demo_conf ''tcp_client'' ''tcp_client'']"
    "service_type (demo_conf ''tcp_client'' ''tcp_client'') = ''tcp_client''"
    "hub_service demo_threads (demo_conf ''tcp_client'' ''tcp_client'')"
    by (simp_all add: demo_conf_def hub_service_def demo_threads_def)
  show ?thesis
    by (rule hub_client_never_serves [OF w refl _ _ _ _ _ _ c, where data = "[]"
          and v = "JArray [demo_service ''iot_hub_server'' ''tcp_server'', demo_service ''tcp_client'' ''tcp_client'']"
          and j = "demo_hub_json 7 demo_threads
            [demo_service ''iot_hub_server'' ''tcp_server'', demo_service ''tcp_client'' ''tcp_client'']"])
       (simp_all only: demo_hub_facts demo_services_conf service_impl.simps)
qed

theorem hub_failures_exit_zero_witness:
  "(\<exists>s :: (nat \<times> nat, nat \<times> nat, string, nat) main_state.
     IotHubServer_main demo_flags 0 ((demo_hub_env 7 demo_threads [] (\<lambda>_. Inr ()))\<lparr>env_json := ''other.json''\<rparr>) (9, 9) [] =
       Inr (s, Exit 0 False None)) \<and>
   (\<exists>s :: (nat \<times> nat, nat \<times> nat, string, nat) main_state.
     IotHubServer_main demo_flags 0 (demo_hub_env 7 demo_threads
       [demo_service ''iot_hub_server'' ''tcp_server'', demo_service ''web'' ''http_server''] (\<lambda>_. Inl SystemError)) (9, 9) [] =
       Inr (s, Exit 0 True (Some (StartThrew SystemError True))))"
proof
  let ?env = "(demo_hub_env 7 demo_threads [] (\<lambda>_. Inr ()))\<lparr>env_json := ''other.json''\<rparr>"
  have "env_readFile ?env (config_path ?env) = None" by (simp add: demo_hub_env_def config_path_def)
  then show "\<exists>s :: (nat \<times> nat, nat \<times> nat, string, nat) main_state.
     IotHubServer_main demo_flags 0 ?env (9, 9) [] = Inr (s, Exit 0 False None)"
    by (rule hub_failures_exit_zero [THEN conjunct1, rule_format])
next
  let ?sv = "[demo_service ''iot_hub_server'' ''tcp_server'', demo_service ''web'' ''http_server'']"
  let ?env = "demo_hub_env 7 demo_threads ?sv (\<lambda>_. Inl SystemError)"
  obtain s1 s2 :: "(nat \<times> nat, nat \<times> nat, string, nat) main_state" where st:
    "Root_LoadConfig ?env ((new_IotHubServer demo_flags 0)\<lparr>ms_config_file := ''hub.json'',
       ms_pid_file_path := []\<rparr>) ''hub.json'' = Inr (s1, True)"
    "IotHubServer_Initialize ?env s1 = Inr (s2, True)"
    and u: "untouched (ms_service_manager s2)"
    "sm_service_configs (ms_service_manager s2) = [demo_conf ''iot_hub_server'' ''tcp_server'', demo_conf ''web'' ''http_server'']"
    "\<forall>c. FactoryManager_CreateService (sm_factories (ms_service_manager s2)) c \<noteq> None \<longleftrightarrow> hub_service demo_threads c"
    by (rule demo_hub_stages [where k = 7 and services = ?sv and start = "\<lambda>_. Inl SystemError", OF demo_threads_conf demo_services_conf])
  obtain sv where sv: "FactoryManager_CreateService (sm_factories (ms_service_manager s2)) (demo_conf ''iot_hub_server'' ''tcp_server'') = Some sv"
    using u(3) [rule_format] by (fastforce simp: hub_service_def demo_threads_def demo_conf_def)
  have "sv_config sv = demo_conf ''iot_hub_server'' ''tcp_server''" using CreateService_result [OF sv] by simp
  then have "ServiceManager_Start (starting (\<lambda>_. Inl SystemError)) (ms_service_manager s2) = Inl SystemError"
    using u(1,2) sv
    by (simp add: ServiceManager_Start_def add_object_def RegisterServiceBase_def untouched_def Let_def demo_conf_def)
  with hub_failures_exit_zero [of ?env demo_flags 0 "(9, 9)" "[]" s1 s2 SystemError] st
  show "\<exists>s :: (nat \<times> nat, nat \<times> nat, string, nat) main_state.
     IotHubServer_main demo_flags 0 ?env (9, 9) [] = Inr (s, Exit 0 True (Some (StartThrew SystemError True)))" by auto
qed

end
