(* ===== verification/Hub_Connections.thy ===== *)
theory Hub_Connections
  imports Hub_Runs Conn_System
begin

text \<open>
  The connections of a running hub: \<open>Hub_Runs\<close> says which thread groups a hub that reached its
  main loop has created and which services it has started on them, \<open>Conn_System\<close> what holds of
  connections on such threads. Together: every service of the hub works on threads that sends by
  connection id can reach, and what is sent to a live connection of the hub is delivered.
\<close>

section \<open>Every service works on numbered threads\<close>

definition io_of :: "('h, 'e, 'p) service_mgr \<Rightarrow> nat \<Rightarrow> 'h set" where
  "io_of s r = (case sm_store s r of None \<Rightarrow> {} | Some x \<Rightarrow> set (sv_io_group x))"

definition on_threads :: "('h \<Rightarrow> 'e) \<Rightarrow> 'e set \<Rightarrow> ('h, 'e, 'p) service_mgr \<Rightarrow> bool" where
  "on_threads ge E s \<longleftrightarrow>
     (\<forall>f \<in> set (sm_factories s). ge ` set (fac_io_group f) \<subseteq> E) \<and> (\<forall>r. ge ` io_of s r \<subseteq> E)"

lemma CreateService_io_group:
  "FactoryManager_CreateService fs c = Some sv \<Longrightarrow> \<exists>f \<in> set fs. sv_io_group sv = fac_io_group f"
  by (induction fs) (auto simp: factory_CreateInstance_def class_defs split: if_splits factory_kind.splits)

lemma io_of_simps [simp]:
  "io_of (snd (add_object s x)) = (io_of s)(sm_next s := set (sv_io_group x))"
  "io_of (RegisterTcpClient s g c) = io_of s"
  "io_of (s\<lparr>sm_services := m\<rparr>) = io_of s" "io_of (s\<lparr>sm_started := l\<rparr>) = io_of s"
  by (auto simp: io_of_def add_object_def RegisterTcpClient_def fun_eq_iff split: option.splits)

lemma sm_factories_simps [simp]:
  "sm_factories (snd (add_object s x)) = sm_factories s"
  "sm_factories (RegisterTcpClient s g c) = sm_factories s"
  by (simp_all add: add_object_def RegisterTcpClient_def)

lemma on_threads_RegisterServiceBase:
  assumes "on_threads ge E s" "RegisterServiceBase s r sv = Inr (s', b)"
    and "sm_thread_groups s = Some tg"
    and "\<And>pool. GetIOThreadPoolExecutor tg CONN_CLIENT = Inr (Some pool) \<Longrightarrow> ge ` set pool \<subseteq> E"
  shows "on_threads ge E s'"
  using assms(2)
proof (cases rule: RegisterServiceBase_cases)
  case (fresh_group g s1 x)
  have "s1 = snd (add_object s x)" using fresh_group(4) by simp
  moreover have "ge ` set (sv_io_group x) \<subseteq> E"
    using fresh_group(9) assms(3,4) by (auto split: option.splits)
  ultimately show ?thesis
    using assms(1) unfolding fresh_group(8) on_threads_def by simp
qed (use assms(1) in \<open>simp_all add: on_threads_def\<close>)

lemma on_threads_Start_loop:
  assumes "Start_loop start configs s = Inr s'" "on_threads ge E s" "sm_thread_groups s = Some tg"
    and pools: "\<And>t pool. GetIOThreadPoolExecutor tg t = Inr (Some pool) \<Longrightarrow> ge ` set pool \<subseteq> E"
  shows "on_threads ge E s'"
  using assms(1-3)
proof (induction configs arbitrary: s)
  case (Cons c configs)
  show ?case
  proof (cases "FactoryManager_CreateService (sm_factories s) c")
    case None
    then show ?thesis using Cons by simp
  next
    case (Some sv)
    obtain r s1 where add: "add_object s sv = (r, s1)" by fastforce
    from Cons.prems(1) Some add obtain s2 b where reg: "RegisterServiceBase s1 r sv = Inr (s2, b)"
      by (auto simp: rbind_eq_Inr_iff)
    have s1: "s1 = snd (add_object s sv)" "sm_thread_groups s1 = Some tg"
      using add Cons.prems(3) by (auto simp: add_object_def)
    have "ge ` set (sv_io_group sv) \<subseteq> E"
      using CreateService_io_group [OF Some] Cons.prems(2) unfolding on_threads_def by fastforce
    then have "on_threads ge E s1" using Cons.prems(2) unfolding s1(1) on_threads_def by simp
    from on_threads_RegisterServiceBase [OF this reg s1(2) pools] have "on_threads ge E s2" .
    moreover have "sm_thread_groups s2 = Some tg" using RegisterServiceBase_threads [OF reg] s1(2) by simp
    ultimately show ?thesis
      using Cons.prems(1) Cons.IH [of "s2\<lparr>sm_started := sm_started s2 @ [r]\<rparr>"] Cons.IH [of s2] Some add reg
      by (cases b) (auto simp: rbind_eq_Inr_iff on_threads_def)
  qed
qed simp

section \<open>The connections of a hub\<close>

text \<open>
  The system of \<open>Conn_System\<close> on the threads of a hub: its pipelines are not connected yet, and
  \<open>sv p\<close> is the service whose factory makes the pipeline \<open>p\<close>.
\<close>

definition hub_system :: "('h, 'e, 'p, 'th) main_state \<Rightarrow> ('p \<Rightarrow> tcp_service) \<Rightarrow> ('h, 'e, 'p, 'a) conn_system" where
  "hub_system s sv =
     \<lparr>cs_net = \<lparr>n_threads = the (sm_thread_groups (ms_service_manager s)), n_queue = (\<lambda>_. [])\<rparr>,
      cs_handlers = (\<lambda>p. new_ConnHandler (Some (Tcp (sv p))))\<rparr>"

lemma hub_system_init:
  fixes s :: "('h, 'e, 'p, 'th) main_state"
  assumes "sm_thread_groups (ms_service_manager s) =
     Some (new_ThreadGroupListManager (env_make_pool env) (env_getEventBase env) opts)"
  shows "hub_system s sv = system_init (env_make_pool env) (env_getEventBase env) opts sv"
  by (simp add: hub_system_def system_init_def net_init_def assms)

section \<open>The concrete hub\<close>

abbreviation demo_run :: "nat \<Rightarrow> ((nat \<times> nat, nat \<times> nat, string, nat) main_state \<times> main_end) res" where
  "demo_run k \<equiv> IotHubServer_main demo_flags 0 (demo_hub_env k demo_threads
     [demo_service ''iot_hub_server'' ''tcp_server'', demo_service ''web'' ''http_server''] (\<lambda>_. Inr ())) (9, 9) [Due, Signal 15]"

lemma vec_at_accept: "length xs = 33 \<Longrightarrow> vec_at xs 2 = Inr (xs ! 2)"
  by (simp add: vec_at_def)

lemma demo_executors:
  "GetIOThreadPoolExecutor (new_ThreadGroupListManager demo_pool id demo_options) CONN_ACCEPT = Inr (Some [(0, 0), (0, 1)])"
  "GetIOThreadPoolExecutor (new_ThreadGroupListManager demo_pool id demo_options) CONN_CLIENT = Inr (Some [(1, 0)])"
  by (simp_all add: GetIOThreadPoolExecutor_def demo_manager_simps vec_at_client vec_at_accept)

lemma demo_hub_store:
  assumes "demo_run k = Inr (s, e)" "serving e"
  shows "\<exists>sv h. sm_store (ms_service_manager s) 0 = Some sv \<and> h \<in> set (sv_io_group sv)"
    and "sm_thread_groups (ms_service_manager s) = Some (new_ThreadGroupListManager demo_pool id demo_options)"
proof -
  let ?c = "demo_conf ''iot_hub_server'' ''tcp_server''" and ?c' = "demo_conf ''web'' ''http_server''"
  let ?env = "demo_hub_env k demo_threads
       [demo_service ''iot_hub_server'' ''tcp_server'', demo_service ''web'' ''http_server''] (\<lambda>_. Inr ())"
  obtain data j sm cs opts T where j: "env_parse ?env data = Some j"
    and cs: "case json_find j ''services'' of None \<Rightarrow> cs = [] | Some v \<Rightarrow> ToServiceConfigs (env_port ?env) v = Inr cs"
    and opts: "case json_find j ''thread_group'' of None \<Rightarrow> opts = []
      | Some v \<Rightarrow> ThreadGroupListOption_SetConf (env_hardware_concurrency ?env) [] ''thread_group'' v = Inr opts"
    and T: "T = tgo_thread_type ` set opts" and sm: "untouched sm" "sm_service_configs sm = cs"
    and fs: "\<forall>f \<in> set (sm_factories sm). fac_kind f \<noteq> TcpClientGroupFactory \<and>
       (\<exists>tg. sm_thread_groups sm = Some tg \<and>
          Inr (Some (fac_io_group f)) \<in> {GetIOThreadPoolExecutor tg CONN_ACCEPT, GetIOThreadPoolExecutor tg CONN_CLIENT})"
    and keys: "map factory_key (sm_factories sm) =
       (if CONN_ACCEPT \<in> T then [(''tcp_server'', ''tcp_server'')] else []) @
       (if CONN_CLIENT \<in> T then [(''tcp_client'', ''tcp_client'')] else []) @
       (if CONN_ACCEPT \<in> T then [(''tcp_server'', ''iot_hub_server'')] else [])"
    and tg: "sm_thread_groups sm = Some (new_ThreadGroupListManager (env_make_pool ?env) (env_getEventBase ?env) opts)"
    and st: "ServiceManager_Start (env_start ?env) sm = Inr (ms_service_manager s, True)"
    by (rule hub_serving [OF assms]) blast
  have tg: "sm_thread_groups sm = Some (new_ThreadGroupListManager demo_pool id opts)"
    using tg by (simp add: demo_hub_env_def)
  note st = st [unfolded demo_hub_facts]
  have j: "j = demo_hub_json k demo_threads
       [demo_service ''iot_hub_server'' ''tcp_server'', demo_service ''web'' ''http_server'']"
    using j by simp
  have opts: "opts = demo_options" using opts by (simp add: j demo_threads_conf demo_options_def)
  have cs: "cs = [?c, ?c']" using cs by (simp add: j demo_services_conf)
  have T: "T = {CONN_ACCEPT, CONN_CLIENT}" by (simp add: T opts demo_options_def)
  have k: "factory_key ` set (sm_factories sm) =
      {(''tcp_server'', ''tcp_server''), (''tcp_client'', ''tcp_client''), (''tcp_server'', ''iot_hub_server'')}"
    unfolding set_map [symmetric] keys T by simp
  have "FactoryManager_CreateService (sm_factories sm) ?c \<noteq> None"
    unfolding CreateService_iff k by (simp add: demo_conf_def)
  moreover have "\<not> FactoryManager_CreateService (sm_factories sm) ?c' \<noteq> None"
    unfolding CreateService_iff k by (simp add: demo_conf_def)
  ultimately obtain sv where sv: "FactoryManager_CreateService (sm_factories sm) ?c = Some sv"
    "FactoryManager_CreateService (sm_factories sm) ?c' = None" by blast
  have "sv_config sv = ?c" using CreateService_result [OF sv(1)] by simp
  then have "sm_store (ms_service_manager s) 0 = Some sv"
    using st sm(1) sv cs sm(2)
    by (auto simp: ServiceManager_Start_def add_object_def RegisterServiceBase_def untouched_def Let_def demo_conf_def
        dest!: sym [of _ "ms_service_manager s"])
  moreover obtain f where "f \<in> set (sm_factories sm)" "sv_io_group sv = fac_io_group f"
    using CreateService_io_group [OF sv(1)] by blast
  then have "Inr (Some (sv_io_group sv)) \<in> {Inr (Some [(0, 0), (0, 1)]), Inr (Some [(1, 0)])}"
    using fs tg opts by (auto simp: demo_executors)
  then have "sv_io_group sv \<noteq> []" by auto
  ultimately show "\<exists>sv h. sm_store (ms_service_manager s) 0 = Some sv \<and> h \<in> set (sv_io_group sv)"
    by (metis list.set_intros(1) neq_Nil_conv)
  show "sm_thread_groups (ms_service_manager s) = Some (new_ThreadGroupListManager demo_pool id demo_options)"
    using Start_loop_threads [of "starting (\<lambda>_. Inr ())" "sm_service_configs sm" sm "ms_service_manager s"] st tg opts
    by (auto simp: ServiceManager_Start_def rbind_eq_Inr_iff)
qed

section \<open>Properties\<close>

text \<open>
  C7. Every service object of a serving hub works on event-loop threads that the thread manager
  has numbered: the event base of each of its I/O threads is in the manager's table, so an id
  handed out there can be sent to.
\<close>

theorem hub_services_on_numbered_threads:
  fixes s :: "('h, 'e, 'p, 'th) main_state"
  assumes run: "IotHubServer_main flags number env main_eb events = Inr (s, e)" "serving e"
    and sv: "sm_store (ms_service_manager s) r = Some sv" and h: "h \<in> set (sv_io_group sv)"
  shows "env_getEventBase env h \<in> sys_bases (hub_system s svc)"
proof -
  let ?ge = "env_getEventBase env"
  obtain opts sm where tg: "sm_thread_groups (ms_service_manager s) =
       Some (new_ThreadGroupListManager (env_make_pool env) ?ge opts)"
    and sm: "sm_thread_groups sm = sm_thread_groups (ms_service_manager s)" "untouched sm"
    and fs: "\<forall>f \<in> set (sm_factories sm). \<exists>tg. sm_thread_groups sm = Some tg \<and>
       Inr (Some (fac_io_group f)) \<in> {GetIOThreadPoolExecutor tg CONN_ACCEPT, GetIOThreadPoolExecutor tg CONN_CLIENT}"
    and st: "Start_loop (env_start env) (sm_service_configs sm) sm = Inr (ms_service_manager s)"
    by (rule hub_threads [OF run])
  let ?tg = "new_ThreadGroupListManager (env_make_pool env) ?ge opts :: ('h, 'e, 'p) tg_manager"
  let ?E = "event_bases (thread_datas ?tg)"
  have pools: "?ge ` set pool \<subseteq> ?E" if "GetIOThreadPoolExecutor ?tg t = Inr (Some pool)" for t pool
    by (rule executor_threads [OF that refl])
  have fs: "?ge ` set (fac_io_group f) \<subseteq> ?E" if "f \<in> set (sm_factories sm)" for f
  proof -
    have "Inr (Some (fac_io_group f)) \<in> {GetIOThreadPoolExecutor ?tg CONN_ACCEPT, GetIOThreadPoolExecutor ?tg CONN_CLIENT}"
      using fs that sm(1) tg by auto
    then show ?thesis using pools by (metis empty_iff insert_iff)
  qed
  have "io_of sm r = {}" for r using sm(2) by (simp add: untouched_def io_of_def)
  then have "on_threads ?ge ?E sm" unfolding on_threads_def using fs by simp
  from on_threads_Start_loop [OF st this _ pools] tg sm(1)
  have "on_threads ?ge ?E (ms_service_manager s)" by simp
  then have "?ge ` io_of (ms_service_manager s) r \<subseteq> ?E" unfolding on_threads_def by blast
  then show ?thesis using sv h by (auto simp: io_of_def hub_system_def tg)
qed

theorem hub_services_on_numbered_threads_witness:
  "\<exists>s e sv h. demo_run 7 = Inr (s, e) \<and> serving e \<and> sm_store (ms_service_manager s) 0 = Some sv \<and>
     h \<in> set (sv_io_group sv) \<and> h \<in> sys_bases (hub_system s (\<lambda>_. TcpServer) :: (nat \<times> nat, nat \<times> nat, string, unit) conn_system)"
proof -
  obtain s e where m: "demo_run 7 = Inr (s, e)" "serving e" using demo_hub_serves [of 7] by blast
  obtain sv h where sv: "sm_store (ms_service_manager s) 0 = Some sv" "h \<in> set (sv_io_group sv)"
    using demo_hub_store(1) [OF m] by blast
  have "env_getEventBase (demo_hub_env 7 demo_threads
      [demo_service ''iot_hub_server'' ''tcp_server'', demo_service ''web'' ''http_server''] (\<lambda>_. Inr ())) = id"
    by (simp add: demo_hub_env_def)
  with hub_services_on_numbered_threads [OF m sv, of "\<lambda>_. TcpServer"] m sv show ?thesis by (metis id_apply)
qed

text \<open>
  C1. On a serving hub, what is sent to a live connection is written to it: whatever the
  connections of the hub's servers have done since it started, \<open>SendIOBuf\<close> accepts a buffer for a
  live connection from any thread, and the buffer is written to that connection once its thread
  has handled what was queued before, unless the connection ends first. (Fewer than $2^{32}$ connections
  opened on each thread.)
\<close>

theorem hub_delivers:
  fixes s :: "('h, 'e, 'p, 'th) main_state" and t :: "('h, 'e, 'p, 'a) conn_system"
  assumes run: "IotHubServer_main flags number env main_eb events = Inr (s, e)" "serving e"
    and own: "own_event_bases (env_getEventBase env) (env_make_pool env)"
    and len: "length (thread_datas (n_threads (cs_net t))) \<le> 2 ^ 32"
    and svc: "\<forall>p. svc p \<in> {TcpServer, TcpClient}"
    and r: "run (sys_step home) (hub_system s svc) tr t" and cnt: "\<forall>e. opened_count e (net_events tr) < 2 ^ 32"
    and live: "live t p"
  shows "let c = conn_of t p; l = lane_of caller (home p) in
     \<exists>n. ServiceManager_SendIOBuf_conn (cs_net t) caller c b = Inr (n, True) \<and>
       (\<forall>tr' t'. run (sys_step home) (t\<lparr>cs_net := n\<rparr>) tr' t' \<and> live t' p \<and>
          (\<forall>e. opened_count e (net_events (tr @ tr')) < 2 ^ 32) \<and>
          length (n_queue (cs_net t) (home p, l)) < length (handled (id_hi c) l (net_events tr')) \<longrightarrow>
          Wrote l c p b \<in> set (net_events tr'))"
proof -
  obtain opts where tg: "sm_thread_groups (ms_service_manager s) =
       Some (new_ThreadGroupListManager (env_make_pool env) (env_getEventBase env) opts)"
    by (rule hub_threads [OF run])
  have "svc p \<noteq> TcpClientGroup" for p using spec [OF svc, of p] by auto
  then have "system_run (env_make_pool env) (env_getEventBase env) opts svc home tr t"
    using own len cnt r by (simp add: system_run_def hub_system_init [OF tg])
  then show ?thesis using live by (rule delivered)
qed

theorem hub_delivers_witness:
  "\<exists>s e n. \<exists>t :: (nat \<times> nat, nat \<times> nat, string, unit) conn_system. demo_run 7 = Inr (s, e) \<and> serving e \<and>
     run (sys_step demo_home) (hub_system s (\<lambda>_. TcpServer)) demo_events t \<and> live t ''a'' \<and>
     ServiceManager_SendIOBuf_conn (cs_net t) (Some (0, 1)) (conn_of t ''a'') [42] = Inr (n, True)"
proof -
  obtain s e where m: "demo_run 7 = Inr (s, e)" "serving e" using demo_hub_serves [of 7] by blast
  have hub: "hub_system s (\<lambda>_. TcpServer) = demo_sys"
    by (simp add: hub_system_def demo_hub_store(2) [OF m] demo_sys_def system_init_def net_init_def)
  note r = demo_live_run [folded hub]
  have "own_event_bases (env_getEventBase (demo_hub_env 7 demo_threads sv st)) (env_make_pool (demo_hub_env 7 demo_threads sv st))"
    for sv st using demo_pool_own by (simp add: demo_hub_env_def)
  from hub_delivers [OF m this _ _ r _ demo_live_simps(1), of "Some (0, 1)" "[42]"]
  have "\<exists>n. ServiceManager_SendIOBuf_conn (cs_net demo_live) (Some (0, 1)) (conn_of demo_live ''a'') [42] = Inr (n, True)"
    using demo_live_system_run by (auto simp: Let_def system_run_def)
  with m r demo_live_simps(1) show ?thesis by blast
qed

end
