(* ===== verification/Fiber_Calls.thy ===== *)
theory Fiber_Calls
  imports Http_Client Transition_Systems
begin

text \<open>
  The synchronous HTTP functions of one thread, interleaved: each call suspends its fiber, so
  other fibers begin calls, transports report and waits end in any order. The phases of
  \<open>HttpClientSyncFetch\<close> (\<open>net/server/http_client\<close>) up to the wait and after it and the closure
  it hands to the client are operations of their own, and an inductive step relation
  interleaves them over the one \<open>FiberDataManager\<close> of the thread.
\<close>

section \<open>The phases of a call\<close>

text \<open>What a call uses of libraries: the arguments of the operations of \<open>Http_Client\<close>.\<close>

record 'e http_env =
  he_getNumberOfValues :: "string \<Rightarrow> headers \<Rightarrow> nat"
  he_URL :: "string \<Rightarrow> url"
  he_getHostByName :: "string \<Rightarrow> string"
  he_split :: "char \<Rightarrow> string \<Rightarrow> string list"
  he_this_evb :: 'e
  he_evb :: "'e option"

text \<open>The variables of the suspended function.\<close>

record ('e, 'm, 'c) sync_frame =
  sf_obj :: nat
  sf_client :: "('e, 'm) http_client"
  sf_reply :: "'m reply_data"
  sf_chain_back :: 'c

text \<open>Up to the wait; no frame if the table of fibers is full.\<close>

definition sync_start ::
  "'e http_env \<Rightarrow> 'f fiber_mgr \<Rightarrow> stats \<Rightarrow> 'c \<Rightarrow> http_method \<Rightarrow> string \<Rightarrow> string \<Rightarrow> string
   \<Rightarrow> ('f fiber_mgr \<times> stats \<times> ('e, 'm, 'c) sync_frame option) res" where
  "sync_start env m st chain meth url headers post_data =
     rbind (AllocFiberData m) (\<lambda>(m1, fiber_data).
       case fiber_data of
         None \<Rightarrow> Inr (m1, st, None)
       | Some obj \<Rightarrow>
           let c = Fetch (he_URL env) (he_getHostByName env) (he_split env)
                     (AddRef (CreateHttpClient (he_this_evb env) (he_evb env) (Some sync_callback) 0))
                     meth url headers post_data
           in Inr (sync_posts obj (hc_calls c) m1, IncreaseStats st f_http,
                Some \<lparr>sf_obj = obj, sf_client = c, sf_reply = sync_reply (hc_calls c), sf_chain_back = chain\<rparr>))"

text \<open>
  A report of the transport. If it makes the client call back, the closure locks its weak
  pointers: both find their objects exactly as long as the call has not returned.
\<close>

definition sync_event ::
  "'e http_env \<Rightarrow> bool \<Rightarrow> 'f fiber_mgr \<Rightarrow> ('e, 'm, 'c) sync_frame \<Rightarrow> 'm client_event
   \<Rightarrow> ('f fiber_mgr \<times> ('e, 'm, 'c) sync_frame) res" where
  "sync_event env locked m f ev =
     rbind (client_event (he_getNumberOfValues env) (sf_client f) ev) (\<lambda>c.
       let calls = drop (length (hc_calls (sf_client f))) (hc_calls c)
       in if locked
          then Inr (sync_posts (sf_obj f) calls m,
                 f\<lparr>sf_client := c, sf_reply := fold (\<lambda>r _. snd (Reply_Move r)) calls (sf_reply f)\<rparr>)
          else Inr (m, f\<lparr>sf_client := c\<rparr>))"

text \<open>
  From the wait, unless the request was invalid, to the return: the manager, the frame and the
  call chain of the thread.
\<close>

definition sync_finish ::
  "bool \<Rightarrow> 'f fiber_mgr \<Rightarrow> ('e, 'm, 'c) sync_frame \<Rightarrow> 'f fiber_mgr \<times> ('e, 'm, 'c) sync_frame \<times> 'c" where
  "sync_finish waits m f =
     (let m1 = (if waits then Wait_fiber m (sf_obj f) else m)
      in (fst (DeleteFiberData_ptr m1 (sf_obj f)), f\<lparr>sf_client := ReleaseRef (sf_client f)\<rparr>, sf_chain_back f))"

section \<open>The calls of a thread\<close>

text \<open>
  The calls in the order they began, each with the events its transport has reported and
  those of them that came before it returned.
\<close>

record ('e, 'm, 'c) sync_call =
  sc_frame :: "('e, 'm, 'c) sync_frame"
  sc_waiting :: bool
  sc_usable :: bool
  sc_events :: "'m client_event list"
  sc_seen :: "'m client_event list"

record ('f, 'e, 'm, 'c) fiber_thread =
  ft_mgr :: "'f fiber_mgr"
  ft_stats :: stats
  ft_chain :: 'c
  ft_calls :: "('e, 'm, 'c) sync_call list"

definition resume_call :: "bool \<Rightarrow> ('f, 'e, 'm, 'c) fiber_thread \<Rightarrow> nat \<Rightarrow> ('f, 'e, 'm, 'c) fiber_thread" where
  "resume_call waits s i =
     (let call = ft_calls s ! i; (m, f, chain) = sync_finish waits (ft_mgr s) (sc_frame call)
      in s\<lparr>ft_mgr := m, ft_chain := chain,
           ft_calls := (ft_calls s)[i := call\<lparr>sc_frame := f, sc_waiting := False, sc_seen := sc_events call\<rparr>]\<rparr>)"

text \<open>A call with an unusable address does not wait.\<close>

definition begin_call ::
  "'e http_env \<Rightarrow> ('f, 'e, 'm, 'c) fiber_thread \<Rightarrow> http_method \<Rightarrow> string \<Rightarrow> string \<Rightarrow> string
   \<Rightarrow> ('f, 'e, 'm, 'c) fiber_thread res" where
  "begin_call env s meth url headers post_data =
     rbind (sync_start env (ft_mgr s) (ft_stats s) (ft_chain s) meth url headers post_data) (\<lambda>(m, st, f).
       let s1 = s\<lparr>ft_mgr := m, ft_stats := st\<rparr>
       in case f of
            None \<Rightarrow> Inr s1
          | Some f \<Rightarrow>
              let s2 = s1\<lparr>ft_calls := ft_calls s @ [\<lparr>sc_frame = f, sc_waiting = True,
                           sc_usable = usable (he_URL env) (he_getHostByName env) url, sc_events = [], sc_seen = []\<rparr>]\<rparr>
              in Inr (if rd_result (sf_reply f) \<noteq> ReplyINVALID then s2 else resume_call False s2 (length (ft_calls s))))"

definition report_event ::
  "'e http_env \<Rightarrow> ('f, 'e, 'm, 'c) fiber_thread \<Rightarrow> nat \<Rightarrow> 'm client_event \<Rightarrow> ('f, 'e, 'm, 'c) fiber_thread res" where
  "report_event env s i ev =
     (let call = ft_calls s ! i
      in rbind (sync_event env (sc_waiting call) (ft_mgr s) (sc_frame call) ev) (\<lambda>(m, f).
           Inr (s\<lparr>ft_mgr := m,
                  ft_calls := (ft_calls s)[i := call\<lparr>sc_frame := f, sc_events := sc_events call @ [ev]\<rparr>]\<rparr>)))"

text \<open>The reports that proxygen may make after the given ones.\<close>

definition session_next :: "'m client_event list \<Rightarrow> 'm client_event \<Rightarrow> bool" where
  "session_next evs ev \<longleftrightarrow> open_session evs \<and> (open_session (evs @ [ev]) \<or> complete_session (evs @ [ev]))"

datatype ('m, 'c) fiber_label = Began 'c | Refused | Reported nat "'m client_event" | Resumed nat | Switched 'c

text \<open>
  Beside the calls, a fiber that runs may set the call chain of the thread. A wait may end at
  any time: posted or timed out.
\<close>

inductive fiber_step ::
  "'e http_env \<Rightarrow> ('f, 'e, 'm, 'c) fiber_thread \<Rightarrow> ('m, 'c) fiber_label \<Rightarrow> ('f, 'e, 'm, 'c) fiber_thread \<Rightarrow> bool"
  for env :: "'e http_env" where
  began: "begin_call env s meth url headers post_data = Inr s' \<Longrightarrow>
     fiber_step env s (if length (fm_datas (ft_mgr s)) < FIBER_MAX_QUEUE_SIZE then Began (ft_chain s) else Refused) s'"
| reported: "i < length (ft_calls s) \<Longrightarrow> sc_usable (ft_calls s ! i) \<Longrightarrow> session_next (sc_events (ft_calls s ! i)) ev \<Longrightarrow>
     report_event env s i ev = Inr s' \<Longrightarrow> fiber_step env s (Reported i ev) s'"
| resumed: "i < length (ft_calls s) \<Longrightarrow> sc_waiting (ft_calls s ! i) \<Longrightarrow> fiber_step env s (Resumed i) (resume_call True s i)"
| switched: "fiber_step env s (Switched c) (s\<lparr>ft_chain := c\<rparr>)"

definition fiber_thread_init :: "u64 \<Rightarrow> 'f \<Rightarrow> u32 \<Rightarrow> stats \<Rightarrow> 'c \<Rightarrow> ('f, 'e, 'm, 'c) fiber_thread" where
  "fiber_thread_init q evb thread_id st chain =
     \<lparr>ft_mgr = fst (FiberDataManager_Initialize (new_FiberDataManager q) evb thread_id), ft_stats = st,
      ft_chain = chain, ft_calls = []\<rparr>"

section \<open>One event of a session\<close>

lemma complete_not_open: "complete_session evs \<Longrightarrow> \<not> open_session evs"
  by (auto simp: complete_session_def open_session_def middle_def)

lemma session_nil [simp]: "\<not> complete_session []" "open_session []"
  by (simp_all add: complete_session_def open_session_def)

lemma open_session_snocE:
  assumes "open_session (evs @ [ev])"
  obtains "evs = []" "ev = EConnected" | "evs \<noteq> []" "middle ev"
  using assms by (cases evs) (auto simp: open_session_def)

lemma session_event:
  assumes "in_session evs n c" "0 < n" "session_next evs ev"
  obtains c' where "client_event g c ev = Inr c'" "hc_cb c' = hc_cb c"
    "complete_session (evs @ [ev]) \<Longrightarrow> released (n - 1) (session_reply (evs @ [ev])) c'"
    "\<not> complete_session (evs @ [ev]) \<Longrightarrow> in_session (evs @ [ev]) n c'"
proof (cases "complete_session (evs @ [ev])")
  case True
  from session_end [OF assms(1,2) _ this, of g] assms(3) obtain c' where
    "client_run g c [ev] = Inr c'" "released (n - 1) (session_reply (evs @ [ev])) c'" "hc_cb c' = hc_cb c"
    by (auto simp: session_next_def)
  then show ?thesis using True that by (auto simp: rbind_eq_Inr_iff)
next
  case False
  then have "open_session (evs @ [ev])" using assms(3) by (simp add: session_next_def)
  then show ?thesis
  proof (cases rule: open_session_snocE)
    case 1
    from in_session_connected [of n c g] assms(1) 1 obtain c' where
      "client_event g c EConnected = Inr c'" "in_session [EConnected] n c'" "hc_cb c' = hc_cb c" by blast
    then show ?thesis using 1 False that by simp
  next
    case 2
    from in_session_middle [OF assms(1) 2(2), of g] False that show ?thesis by metis
  qed
qed

section \<open>The table of a thread\<close>

text \<open>The key of the fiber with the given number of predecessors.\<close>

definition fkey :: "nat \<Rightarrow> u64" where
  "fkey i = ucast (word_of_nat (Suc i) :: u32)"

lemma fkey_eq_iff:
  assumes "Suc i < 2 ^ 32" "Suc j < 2 ^ 32"
  shows "fkey i = fkey j \<longleftrightarrow> i = j"
proof -
  have "unat (word_of_nat (Suc i) :: u32) = Suc i" "unat (word_of_nat (Suc j) :: u32) = Suc j"
    using assms by (simp_all add: unat_of_nat take_bit_nat_eq_self del: of_nat_Suc)
  then show ?thesis unfolding fkey_def by (metis Suc_inject ucast_u32_inj)
qed

definition waiting_calls :: "('e, 'm, 'c) sync_call list \<Rightarrow> nat list" where
  "waiting_calls calls = filter (\<lambda>i. sc_waiting (calls ! i)) [0..<length calls]"

definition call_table :: "('e, 'm, 'c) sync_call list \<Rightarrow> (u64 \<times> nat) list" where
  "call_table calls = rev (map (\<lambda>i. (fkey i, i)) (waiting_calls calls))"

lemma waiting_calls_less: "i \<in> set (waiting_calls calls) \<longleftrightarrow> i < length calls \<and> sc_waiting (calls ! i)"
  by (auto simp: waiting_calls_def)

lemma waiting_calls_snoc:
  "waiting_calls (calls @ [c]) = waiting_calls calls @ (if sc_waiting c then [length calls] else [])"
  by (auto simp: waiting_calls_def nth_append intro!: filter_cong)

lemma length_waiting_calls: "length (waiting_calls calls) = length (filter sc_waiting calls)"
  by (induction calls rule: rev_induct) (auto simp: waiting_calls_snoc waiting_calls_def [of "[]"])

lemma waiting_calls_same:
  assumes "sc_waiting c = sc_waiting (calls ! i)"
  shows "waiting_calls (calls[i := c]) = waiting_calls calls"
proof -
  have "sc_waiting (calls[i := c] ! j) = sc_waiting (calls ! j)" for j
    using assms by (cases "i < length calls"; cases "i = j") (simp_all add: list_update_beyond)
  then show ?thesis by (simp add: waiting_calls_def)
qed

lemma waiting_calls_ended:
  assumes "\<not> sc_waiting c" "i < length calls"
  shows "waiting_calls (calls[i := c]) = filter (\<lambda>j. j \<noteq> i) (waiting_calls calls)"
  using assms by (auto simp: waiting_calls_def nth_list_update intro!: filter_cong)

lemma call_table_ended:
  assumes "\<not> sc_waiting c" "i < length calls" "length calls < 2 ^ 32"
  shows "call_table (calls[i := c]) = filter (\<lambda>(k, _). k \<noteq> fkey i) (call_table calls)"
proof -
  have "fkey j \<noteq> fkey i \<longleftrightarrow> j \<noteq> i" if "j \<in> set (waiting_calls calls)" for j
    using that assms(2,3) fkey_eq_iff [of j i] by (auto simp: waiting_calls_less)
  then show ?thesis
    by (simp add: call_table_def waiting_calls_ended [OF assms(1,2)] rev_filter [symmetric] filter_map comp_def cong: filter_cong)
qed

lemma call_table_look:
  assumes "length calls < 2 ^ 32"
  shows "map_of (call_table calls) k = Some i \<longleftrightarrow> i < length calls \<and> sc_waiting (calls ! i) \<and> k = fkey i"
proof -
  have "distinct (map fst (call_table calls))"
    using assms by (auto simp: call_table_def rev_map [symmetric] distinct_map waiting_calls_def inj_on_def fkey_eq_iff comp_def)
  then show ?thesis by (auto simp: call_table_def waiting_calls_less)
qed

lemma call_table_new: "length calls < 2 ^ 32 - 1 \<Longrightarrow> map_of (call_table calls) (fkey (length calls)) = None"
  by (auto simp: call_table_def map_of_eq_None_iff waiting_calls_less fkey_eq_iff)

section \<open>The manager follows the calls\<close>

text \<open>
  As long as the 32-bit counter has not wrapped, the object of the i-th call is the i-th
  object, and its number is \<open>i + 1\<close>.
\<close>

definition mgr_ok :: "'f fiber_mgr \<Rightarrow> ('e, 'm, 'c) sync_call list \<Rightarrow> bool" where
  "mgr_ok m calls \<longleftrightarrow>
     fm_inited m \<and> fm_next_obj m = length calls \<and> fm_current_fiber_id m = word_of_nat (length calls) \<and>
     fm_datas m = call_table calls \<and> length (fm_datas m) \<le> FIBER_MAX_QUEUE_SIZE \<and>
     (\<forall>i < length calls. fiber_id (fm_store m i) = pack_id (ucast (fm_thread_id m)) (word_of_nat (Suc i)))"

lemma mgr_ok_init: "mgr_ok (fst (FiberDataManager_Initialize (new_FiberDataManager q) e t)) []"
  by (simp add: mgr_ok_def FiberDataManager_Initialize_def new_FiberDataManager_def call_table_def waiting_calls_def)

text \<open>Posting and waiting only touch the state of one object.\<close>

definition same_table :: "'f fiber_mgr \<Rightarrow> 'f fiber_mgr \<Rightarrow> bool" where
  "same_table m m' \<longleftrightarrow>
     fm_inited m' = fm_inited m \<and> fm_next_obj m' = fm_next_obj m \<and> fm_thread_id m' = fm_thread_id m \<and>
     fm_current_fiber_id m' = fm_current_fiber_id m \<and> fm_datas m' = fm_datas m \<and>
     (\<forall>i. fiber_id (fm_store m' i) = fiber_id (fm_store m i))"

lemma same_table_ops:
  "same_table m m" "same_table m (Post_fiber m obj rc)" "same_table m (Wait_fiber m obj)"
  by (auto simp: same_table_def Post_fiber_def FiberDataInfo_Post_def Wait_fiber_def FiberDataInfo_Wait_def)

lemma same_table_trans: "same_table m m1 \<Longrightarrow> same_table m1 m2 \<Longrightarrow> same_table m m2"
  by (simp add: same_table_def)

lemma same_table_posts: "same_table m (sync_posts obj calls m)"
  unfolding sync_posts_def
  by (induction calls arbitrary: m) (auto intro: same_table_ops same_table_trans)

lemma mgr_ok_same:
  assumes "mgr_ok m calls" "same_table m m'" "length calls' = length calls" "waiting_calls calls' = waiting_calls calls"
  shows "mgr_ok m' calls'"
  using assms unfolding mgr_ok_def same_table_def call_table_def by metis

lemma mgr_ok_full:
  assumes "mgr_ok m calls" "\<not> length (fm_datas m) < FIBER_MAX_QUEUE_SIZE"
  shows "AllocFiberData m = Inr (m, None)"
  using assms by (simp add: mgr_ok_def AllocFiberData_def)

lemma mgr_ok_alloc:
  assumes "mgr_ok m calls" "length (fm_datas m) < FIBER_MAX_QUEUE_SIZE" "Suc (length calls) < 2 ^ 32" "sc_waiting c"
  obtains m' where "AllocFiberData m = Inr (m', Some (length calls))" "mgr_ok m' (calls @ [c])"
    "fm_store m' = (fm_store m)(length calls := \<lparr>fiber_id = pack_id (ucast (fm_thread_id m)) (word_of_nat (Suc (length calls))),
       baton_posted = False, fiber_state = kIdle\<rparr>)"
proof -
  let ?n = "length calls"
  have "unat (word_of_nat (Suc ?n) :: u32) = Suc ?n"
    using assms(3) by (simp add: unat_of_nat take_bit_nat_eq_self del: of_nat_Suc)
  then have nz: "(word_of_nat (Suc ?n) :: u32) \<noteq> 0" by (metis unat_0 nat.distinct(1))
  obtain m' obj where al: "AllocFiberData m = Inr (m', Some obj)"
    using assms(1,2) by (simp add: mgr_ok_def AllocFiberData_def Let_def)
  note a = AllocFiberData_some [OF al]
  have nf: "next_fiber m = word_of_nat (Suc ?n)"
    using assms(1) nz by (simp add: next_fiber_def mgr_ok_def add.commute)
  have keep: "fm_inited m' = fm_inited m" "fm_current_fiber_id m' = next_fiber m"
    using al by (auto simp: AllocFiberData_def Let_def next_fiber_def split: if_splits)
  have "map_of (fm_datas m) (fkey ?n) = None"
    using assms(1,3) call_table_new [of calls] by (simp add: mgr_ok_def)
  then have "fm_datas m' = call_table (calls @ [c])"
    using assms(1,4) a(1,5) by (simp add: nf fkey_def mgr_ok_def call_table_def waiting_calls_snoc del: of_nat_Suc)
  moreover from this have "length (fm_datas m') \<le> FIBER_MAX_QUEUE_SIZE"
    using assms(1,2,4) by (simp add: mgr_ok_def call_table_def waiting_calls_snoc)
  ultimately have "mgr_ok m' (calls @ [c])"
    using assms(1,2) a(1-4) keep
    unfolding mgr_ok_def nf length_append_singleton
    by (auto simp: less_Suc_eq simp del: of_nat_Suc)
  moreover have "obj = ?n" using a(1) assms(1) by (simp add: mgr_ok_def)
  ultimately show ?thesis using that [of m'] al a(4) by (simp add: nf del: of_nat_Suc)
qed

lemma DeleteFiberData_datas:
  "fm_datas (fst (DeleteFiberData m fid)) = filter (\<lambda>(k, _). k \<noteq> fid AND 0xffffffff) (fm_datas m)"
proof (cases "map_of (fm_datas m) (fid AND 0xffffffff)")
  case None
  then have "filter (\<lambda>(k, _). k \<noteq> fid AND 0xffffffff) (fm_datas m) = fm_datas m"
    by (force simp: map_of_eq_None_iff filter_id_conv)
  with None show ?thesis by (simp add: DeleteFiberData_def)
qed (simp add: DeleteFiberData_def)

lemma DeleteFiberData_rest:
  "fm_inited (fst (DeleteFiberData m fid)) = fm_inited m" "fm_next_obj (fst (DeleteFiberData m fid)) = fm_next_obj m"
  "fm_thread_id (fst (DeleteFiberData m fid)) = fm_thread_id m" "fm_store (fst (DeleteFiberData m fid)) = fm_store m"
  "fm_current_fiber_id (fst (DeleteFiberData m fid)) = fm_current_fiber_id m"
  by (auto simp: DeleteFiberData_def split: option.splits)

lemma mgr_ok_delete:
  assumes "mgr_ok m calls" "i < length calls" "length calls < 2 ^ 32" "\<not> sc_waiting c"
  shows "mgr_ok (fst (DeleteFiberData_ptr m i)) (calls[i := c])"
proof -
  have "fiber_id (fm_store m i) AND 0xffffffff = fkey i"
    using assms(1,2) by (simp add: mgr_ok_def and_mask32_eq fkey_def)
  then have "fm_datas (fst (DeleteFiberData_ptr m i)) = call_table (calls[i := c])"
    using assms(1) call_table_ended [OF assms(4,2,3)] by (simp add: DeleteFiberData_ptr_def DeleteFiberData_datas mgr_ok_def)
  moreover have "length (fm_datas (fst (DeleteFiberData_ptr m i))) \<le> FIBER_MAX_QUEUE_SIZE"
    using assms(1) le_trans [OF length_filter_le] unfolding mgr_ok_def DeleteFiberData_ptr_def DeleteFiberData_datas by blast
  ultimately show ?thesis using assms(1) by (simp add: mgr_ok_def DeleteFiberData_ptr_def DeleteFiberData_rest)
qed

section \<open>The invariant of a thread\<close>

text \<open>What the caller has in its hands when the given events have been reported.\<close>

definition seen_reply :: "'m client_event list \<Rightarrow> 'm reply_data" where
  "seen_reply evs = (if complete_session evs then session_reply evs else new_HttpClientReplyData)"

definition invalid_reply :: "'m reply_data" where
  "invalid_reply = \<lparr>rd_result = ReplyINVALID, rd_headers = None, rd_body = None\<rparr>"

definition usable_ok :: "fiber_data \<Rightarrow> ('e, 'm, 'c) sync_call \<Rightarrow> bool" where
  "usable_ok d call \<longleftrightarrow>
     (let c = sf_client (sc_frame call); evs = sc_events call
      in (open_session evs \<or> complete_session evs) \<and>
         (complete_session evs \<longrightarrow> released (if sc_waiting call then 1 else 0) (session_reply evs) c) \<and>
         (\<not> complete_session evs \<longrightarrow> in_session evs (if sc_waiting call then 2 else 1) c) \<and>
         sf_reply (sc_frame call) = seen_reply (if sc_waiting call then evs else sc_seen call) \<and>
         (sc_waiting call \<longrightarrow> baton_posted d = complete_session evs \<and>
            fiber_state d = (if complete_session evs then kPosted else kIdle)))"

definition call_ok :: "fiber_data \<Rightarrow> nat \<Rightarrow> ('e, 'm, 'c) sync_call \<Rightarrow> bool" where
  "call_ok d i call \<longleftrightarrow>
     sf_obj (sc_frame call) = i \<and> hc_cb (sf_client (sc_frame call)) = Some sync_callback \<and>
     (if sc_usable call then usable_ok d call
      else \<not> sc_waiting call \<and> sc_events call = [] \<and> sf_reply (sc_frame call) = invalid_reply \<and>
           \<not> hc_alive (sf_client (sc_frame call)))"

definition thread_inv :: "('f, 'e, 'm, 'c) fiber_thread \<Rightarrow> bool" where
  "thread_inv s \<longleftrightarrow>
     mgr_ok (ft_mgr s) (ft_calls s) \<and>
     (\<forall>i < length (ft_calls s). call_ok (fm_store (ft_mgr s) i) i (ft_calls s ! i))"

lemma thread_inv_init: "thread_inv (fiber_thread_init q evb t st chain)"
  by (simp add: thread_inv_def fiber_thread_init_def mgr_ok_init)

lemma session_reply_not_invalid [simp]: "rd_result (session_reply evs) \<noteq> ReplyINVALID"
  by (simp add: session_reply_def)

lemma seen_reply_not_invalid [simp]: "rd_result (seen_reply evs) \<noteq> ReplyINVALID"
  by (simp add: seen_reply_def new_HttpClientReplyData_def)

lemma thread_inv_mgr: "thread_inv s \<Longrightarrow> mgr_ok (ft_mgr s) (ft_calls s)"
  by (simp add: thread_inv_def)

text \<open>The call chains that the calls have saved.\<close>

definition saved_chains :: "('f, 'e, 'm, 'c) fiber_thread \<Rightarrow> 'c list" where
  "saved_chains s = map (\<lambda>call. sf_chain_back (sc_frame call)) (ft_calls s)"

lemma thread_inv_update:
  assumes "thread_inv s" "i < length (ft_calls s)" "mgr_ok m ((ft_calls s)[i := call])"
    and "call_ok (fm_store m i) i call" "\<And>j. j \<noteq> i \<Longrightarrow> fm_store m j = fm_store (ft_mgr s) j"
    and "ft_mgr s' = m" "ft_calls s' = (ft_calls s)[i := call]"
  shows "thread_inv s'"
  using assms by (auto simp: thread_inv_def nth_list_update)

lemma resume_call_inv:
  assumes inv: "thread_inv s" and i: "i < length (ft_calls s)" and w: "sc_waiting (ft_calls s ! i)"
    and n: "length (ft_calls s) < 2 ^ 32"
  shows "thread_inv (resume_call True s i)"
proof -
  let ?call = "ft_calls s ! i"
  let ?f = "sc_frame ?call"
  have ok: "call_ok (fm_store (ft_mgr s) i) i ?call" using inv i by (simp add: thread_inv_def)
  with w have u: "sc_usable ?call" "usable_ok (fm_store (ft_mgr s) i) ?call" "sf_obj ?f = i"
    by (auto simp: call_ok_def split: if_splits)
  have r: "sf_reply ?f = seen_reply (sc_events ?call)" using u(2) w by (simp add: usable_ok_def Let_def)
  define f where "f = ?f\<lparr>sf_client := ReleaseRef (sf_client ?f)\<rparr>"
  define call where "call = ?call\<lparr>sc_frame := f, sc_waiting := False, sc_seen := sc_events ?call\<rparr>"
  define m where "m = fst (DeleteFiberData_ptr (Wait_fiber (ft_mgr s) i) i)"
  have fin: "sync_finish True (ft_mgr s) ?f = (m, f, sf_chain_back ?f)" using u(3) r by (simp add: sync_finish_def m_def f_def)
  have "usable_ok d call" for d
  proof (cases "complete_session (sc_events ?call)")
    case True
    with u(2) w show ?thesis by (auto simp: usable_ok_def call_def f_def released_def ReleaseRef_parts Let_def)
  next
    case False
    with u(2) w have "in_session (sc_events ?call) 1 (ReleaseRef (sf_client ?f))"
      using in_session_release [of "sc_events ?call" 2 "sf_client ?f"] by (simp add: usable_ok_def Let_def)
    with False u(2) w show ?thesis by (simp add: usable_ok_def call_def f_def Let_def)
  qed
  moreover have "0 < hc_ref_count (sf_client ?f)"
    using u(2) w by (auto simp: usable_ok_def released_def in_session_def Let_def split: if_splits)
  ultimately have c: "call_ok d i call" for d
    using ok u(1) by (simp add: call_ok_def call_def f_def ReleaseRef_parts)
  have "mgr_ok (Wait_fiber (ft_mgr s) i) (ft_calls s)"
    using inv mgr_ok_same [OF _ same_table_ops(3)] by (auto simp: thread_inv_def)
  then have mk: "mgr_ok m ((ft_calls s)[i := call])"
    unfolding m_def by (rule mgr_ok_delete [OF _ i n]) (simp add: call_def)
  have st: "fm_store m j = fm_store (ft_mgr s) j" if "j \<noteq> i" for j
    using that by (simp add: m_def DeleteFiberData_ptr_def DeleteFiberData_rest Wait_fiber_def)
  show ?thesis
    by (rule thread_inv_update [OF inv i mk c st]) (simp_all add: resume_call_def fin call_def Let_def)
qed

lemma sync_posts_single:
  "sync_posts obj [] m = m"
  "rd_result r \<noteq> ReplyINVALID \<Longrightarrow> sync_posts obj [r] m = Post_fiber m obj True"
  "rd_result r = ReplyINVALID \<Longrightarrow> sync_posts obj [r] m = m"
  by (simp_all add: sync_posts_def)

lemma in_session_calls: "in_session evs n c \<Longrightarrow> hc_calls c = []"
  by (simp add: in_session_def)

lemma released_calls: "released n r c \<Longrightarrow> hc_cb c = Some f \<Longrightarrow> hc_calls c = [r]"
  by (simp add: released_def)

lemma report_event_inv:
  assumes inv: "thread_inv s" and i: "i < length (ft_calls s)" and u: "sc_usable (ft_calls s ! i)"
    and nx: "session_next (sc_events (ft_calls s ! i)) ev"
  obtains s' where "report_event env s i ev = Inr s'" "thread_inv s'" "length (ft_calls s') = length (ft_calls s)"
proof -
  let ?call = "ft_calls s ! i"
  let ?f = "sc_frame ?call" and ?evs = "sc_events ?call" and ?n = "if sc_waiting ?call then 2 else 1 :: int"
  have ok: "call_ok (fm_store (ft_mgr s) i) i ?call" using inv i by (simp add: thread_inv_def)
  then have uo: "usable_ok (fm_store (ft_mgr s) i) ?call" and obj: "sf_obj ?f = i"
    and cb: "hc_cb (sf_client ?f) = Some sync_callback" using u by (auto simp: call_ok_def)
  have nc: "\<not> complete_session ?evs" using nx complete_not_open by (auto simp: session_next_def)
  then have ins: "in_session ?evs ?n (sf_client ?f)" and r: "sf_reply ?f = seen_reply (if sc_waiting ?call then ?evs else sc_seen ?call)"
    and d: "sc_waiting ?call \<Longrightarrow> \<not> baton_posted (fm_store (ft_mgr s) i) \<and> fiber_state (fm_store (ft_mgr s) i) = kIdle"
    using uo by (auto simp: usable_ok_def Let_def)
  have pos: "0 < ?n" by simp
  obtain c' where c': "client_event (he_getNumberOfValues env) (sf_client ?f) ev = Inr c'" "hc_cb c' = hc_cb (sf_client ?f)"
    "complete_session (?evs @ [ev]) \<Longrightarrow> released (?n - 1) (session_reply (?evs @ [ev])) c'"
    "\<not> complete_session (?evs @ [ev]) \<Longrightarrow> in_session (?evs @ [ev]) ?n c'"
    using session_event [OF ins pos nx, of "he_getNumberOfValues env"] by metis
  have cb': "hc_cb c' = Some sync_callback" using c'(2) cb by simp
  have calls: "hc_calls (sf_client ?f) = []" "hc_calls c' = (if complete_session (?evs @ [ev]) then [session_reply (?evs @ [ev])] else [])"
    using in_session_calls [OF ins] in_session_calls [OF c'(4)] released_calls [OF c'(3) cb'] by simp_all
  define m where "m = (if sc_waiting ?call \<and> complete_session (?evs @ [ev]) then Post_fiber (ft_mgr s) i True else ft_mgr s)"
  define f where "f = ?f\<lparr>sf_client := c', sf_reply := seen_reply (if sc_waiting ?call then ?evs @ [ev] else sc_seen ?call)\<rparr>"
  define call where "call = ?call\<lparr>sc_frame := f, sc_events := ?evs @ [ev]\<rparr>"
  have ev: "sync_event env (sc_waiting ?call) (ft_mgr s) ?f ev = Inr (m, f)"
    using c'(1) nc r obj calls by (auto simp: sync_event_def m_def f_def sync_posts_single seen_reply_def Let_def)
  have op: "open_session (?evs @ [ev]) \<or> complete_session (?evs @ [ev])" using nx by (simp add: session_next_def)
  have "usable_ok (fm_store m i) call"
    using op c'(3,4) d
    by (auto simp: usable_ok_def call_def f_def m_def Post_fiber_def FiberDataInfo_Post_def Let_def)
  then have ok': "call_ok (fm_store m i) i call" using ok u c'(2) by (simp add: call_ok_def call_def f_def)
  have "same_table (ft_mgr s) m" by (simp add: m_def same_table_ops)
  then have mk: "mgr_ok m ((ft_calls s)[i := call])"
    using inv mgr_ok_same [of "ft_mgr s" "ft_calls s" m "(ft_calls s)[i := call]"]
    by (simp add: thread_inv_def call_def waiting_calls_same)
  have st: "fm_store m j = fm_store (ft_mgr s) j" if "j \<noteq> i" for j
    using that by (simp add: m_def Post_fiber_def)
  define s' where "s' = s\<lparr>ft_mgr := m, ft_calls := (ft_calls s)[i := call]\<rparr>"
  show ?thesis
  proof (rule that [of s'])
    show "report_event env s i ev = Inr s'" by (simp add: report_event_def ev s'_def call_def Let_def)
    show "thread_inv s'" by (rule thread_inv_update [OF inv i mk ok' st]) (simp_all add: s'_def)
  qed (simp add: s'_def)
qed

definition new_call :: "'c \<Rightarrow> ('e, 'm, 'c) sync_call \<Rightarrow> bool" where
  "new_call chain call \<longleftrightarrow>
     sf_chain_back (sc_frame call) = chain \<and> sc_events call = [] \<and> (sc_usable call \<longrightarrow> sc_waiting call)"

lemma thread_inv_snoc:
  assumes "thread_inv s" "mgr_ok m (ft_calls s @ [call])" "call_ok (fm_store m (length (ft_calls s))) (length (ft_calls s)) call"
    and "\<And>j. j \<noteq> length (ft_calls s) \<Longrightarrow> fm_store m j = fm_store (ft_mgr s) j"
    and "ft_mgr s' = m" "ft_calls s' = ft_calls s @ [call]"
  shows "thread_inv s'"
  using assms by (auto simp: thread_inv_def less_Suc_eq nth_append)

lemma begin_call_inv:
  fixes s :: "('f, 'e, 'm, 'c) fiber_thread" and env :: "'e http_env"
  assumes inv: "thread_inv s" and n: "Suc (length (ft_calls s)) < 2 ^ 32"
  obtains s' where "begin_call env s meth url headers post = Inr s'" "thread_inv s'"
    "if length (fm_datas (ft_mgr s)) < FIBER_MAX_QUEUE_SIZE
     then \<exists>call. ft_calls s' = ft_calls s @ [call] \<and> new_call (ft_chain s) call \<and>
            sc_usable call = usable (he_URL env) (he_getHostByName env) url else s' = s"
proof (cases "length (fm_datas (ft_mgr s)) < FIBER_MAX_QUEUE_SIZE")
  case False
  have "begin_call env s meth url headers post = Inr s"
    using mgr_ok_full [OF thread_inv_mgr [OF inv] False] by (simp add: begin_call_def sync_start_def)
  then show ?thesis using that [of s] inv False by simp
next
  case room: True
  let ?n = "length (ft_calls s)" and ?u = "usable (he_URL env) (he_getHostByName env) url"
  define c :: "('e, 'm) http_client" where "c = Fetch (he_URL env) (he_getHostByName env) (he_split env)
    (AddRef (CreateHttpClient (he_this_evb env) (he_evb env) (Some sync_callback) 0)) meth url headers post"
  define f where "f = \<lparr>sf_obj = ?n, sf_client = c, sf_reply = sync_reply (hc_calls c), sf_chain_back = ft_chain s\<rparr>"
  define call where "call = \<lparr>sc_frame = f, sc_waiting = True, sc_usable = ?u, sc_events = [], sc_seen = []\<rparr>"
  obtain m where al: "AllocFiberData (ft_mgr s) = Inr (m, Some ?n)" and mk: "mgr_ok m (ft_calls s @ [call])"
    and st: "fm_store m = (fm_store (ft_mgr s))(?n := \<lparr>fiber_id = pack_id (ucast (fm_thread_id (ft_mgr s))) (word_of_nat (Suc ?n)),
       baton_posted = False, fiber_state = kIdle\<rparr>)"
    by (rule mgr_ok_alloc [OF thread_inv_mgr [OF inv] room n, of call]) (simp add: call_def)
  define m1 where "m1 = sync_posts ?n (hc_calls c) m"
  define s2 where "s2 = s\<lparr>ft_mgr := m1, ft_stats := IncreaseStats (ft_stats s) f_http, ft_calls := ft_calls s @ [call]\<rparr>"
  have bg: "begin_call env s meth url headers post = Inr (if rd_result (sf_reply f) \<noteq> ReplyINVALID then s2 else resume_call False s2 ?n)"
    by (simp add: begin_call_def sync_start_def al c_def [symmetric] m1_def [symmetric] f_def call_def s2_def Let_def)
  show ?thesis
  proof (cases ?u)
    case u: True
    have F: "in_session [] 2 c" "hc_cb c = Some sync_callback" unfolding c_def by (rule Fetch_usable [OF u])+
    have calls: "hc_calls c = []" using F(1) by (simp add: in_session_def)
    have "call_ok (fm_store m1 ?n) ?n call"
      using F u calls
      by (simp add: call_ok_def usable_ok_def call_def f_def m1_def sync_posts_single st seen_reply_def Let_def)
    moreover have "fm_store m1 j = fm_store (ft_mgr s) j" if "j \<noteq> ?n" for j
      using that calls by (simp add: m1_def sync_posts_single st)
    ultimately have "thread_inv s2"
      using thread_inv_snoc [OF inv, of m1 call s2] mk calls by (simp add: m1_def sync_posts_single s2_def)
    moreover have "new_call (ft_chain s) call" by (simp add: new_call_def call_def f_def)
    moreover have "begin_call env s meth url headers post = Inr s2"
      using bg calls by (simp add: f_def new_HttpClientReplyData_def)
    ultimately show ?thesis using that u room by (simp add: s2_def call_def)
  next
    case bad: False
    have calls: "hc_calls c = [invalid_reply]" "hc_ref_count c = 1" "hc_cb c = Some sync_callback"
      by (simp_all add: c_def Fetch_not_usable [OF bad] call_cb_parts AddRef_def CreateHttpClient_def
          new_HttpClientReplyData_def invalid_reply_def)
    have m1: "m1 = m" using calls by (simp add: m1_def sync_posts_single invalid_reply_def)
    define f' where "f' = f\<lparr>sf_client := ReleaseRef c\<rparr>"
    define call' where "call' = call\<lparr>sc_frame := f', sc_waiting := False, sc_seen := []\<rparr>"
    define m' where "m' = fst (DeleteFiberData_ptr m ?n)"
    have inv_reply: "rd_result (sf_reply f) = ReplyINVALID" using calls by (simp add: f_def invalid_reply_def)
    have fin: "sync_finish False m f = (m', f', ft_chain s)"
      using inv_reply by (simp add: sync_finish_def m'_def f'_def f_def)
    define s' where "s' = resume_call False s2 ?n"
    have s': "ft_mgr s' = m'" "ft_calls s' = ft_calls s @ [call']"
      by (simp_all add: s'_def resume_call_def s2_def m1 call_def fin call'_def Let_def nth_append)
    have "mgr_ok m' ((ft_calls s @ [call])[?n := call'])"
      unfolding m'_def by (rule mgr_ok_delete [OF mk]) (use n in \<open>simp_all add: call'_def\<close>)
    then have mk': "mgr_ok m' (ft_calls s @ [call'])" by simp
    have ok: "call_ok d ?n call'" for d
      using bad calls by (simp add: call_ok_def call'_def call_def f'_def f_def ReleaseRef_parts)
    have "fm_store m' j = fm_store (ft_mgr s) j" if "j \<noteq> ?n" for j
      using that by (simp add: m'_def DeleteFiberData_ptr_def DeleteFiberData_rest st)
    from thread_inv_snoc [OF inv mk' ok this s'] have "thread_inv s'" by blast
    moreover have "new_call (ft_chain s) call'" using bad by (simp add: new_call_def call'_def call_def f'_def f_def)
    moreover have "begin_call env s meth url headers post = Inr s'" using bg inv_reply by (simp add: s'_def)
    ultimately show ?thesis using that [of s'] room s'(2) by (simp add: call'_def call_def)
  qed
qed

section \<open>The phases make up the function\<close>

fun sync_events ::
  "'e http_env \<Rightarrow> 'f fiber_mgr \<Rightarrow> ('e, 'm, 'c) sync_frame \<Rightarrow> 'm client_event list
   \<Rightarrow> ('f fiber_mgr \<times> ('e, 'm, 'c) sync_frame) res" where
  "sync_events env m f [] = Inr (m, f)"
| "sync_events env m f (ev # evs) = rbind (sync_event env True m f ev) (\<lambda>(m, f). sync_events env m f evs)"

lemma client_event_calls:
  assumes "client_event g c ev = Inr c'"
  obtains new where "hc_calls c' = hc_calls c @ new"
proof -
  have R: "hc_calls (ReleaseRef x) = hc_calls x" for x :: "('a, 'b) http_client" by (simp add: ReleaseRef_def Let_def)
  have "\<exists>new. hc_calls c' = hc_calls c @ new"
    using assms
    by (auto simp: client_event_def OnConnectError_def OnHeadersComplete_def OnError_def OnBodyComplete_def R call_cb_parts
        Let_def split: if_splits option.splits client_event.splits)
  then show ?thesis using that by blast
qed

lemma sync_events_run:
  "case client_run (he_getNumberOfValues env) (sf_client f) evs of
     Inl e \<Rightarrow> sync_events env m f evs = Inl e
   | Inr c \<Rightarrow> \<exists>new. hc_calls c = hc_calls (sf_client f) @ new \<and>
       sync_events env m f evs = Inr (sync_posts (sf_obj f) new m,
         f\<lparr>sf_client := c, sf_reply := fold (\<lambda>r _. snd (Reply_Move r)) new (sf_reply f)\<rparr>)"
proof (induction evs arbitrary: m f)
  case Nil
  then show ?case by (auto simp: sync_posts_def)
next
  case (Cons ev evs)
  show ?case
  proof (cases "client_event (he_getNumberOfValues env) (sf_client f) ev")
    case (Inl e)
    then show ?thesis by (simp add: sync_event_def)
  next
    case (Inr c1)
    obtain n1 where n1: "hc_calls c1 = hc_calls (sf_client f) @ n1" by (rule client_event_calls [OF Inr])
    define m1 where "m1 = sync_posts (sf_obj f) n1 m"
    define f1 where "f1 = f\<lparr>sf_client := c1, sf_reply := fold (\<lambda>r _. snd (Reply_Move r)) n1 (sf_reply f)\<rparr>"
    have e: "sync_event env True m f ev = Inr (m1, f1)" by (simp add: sync_event_def Inr n1 m1_def f1_def)
    show ?thesis
      using Cons.IH [where m = m1 and f = f1] n1
      by (auto simp: Inr e f1_def m1_def sync_posts_def split: sum.splits)
  qed
qed

lemma HttpClientSyncFetch_phases:
  fixes during :: "'m client_event list" and te :: 'e
  assumes "env = \<lparr>he_getNumberOfValues = g, he_URL = URL, he_getHostByName = G, he_split = split, he_this_evb = te, he_evb = evb\<rparr>"
  shows "HttpClientSyncFetch_fiber g URL G split te evb (Some m) st chain meth url headers post during =
    rbind (sync_start env m st chain meth url headers post) (\<lambda>(m1, st1, f).
      case f of
        None \<Rightarrow> Inr (Some m1, st1, new_HttpClientReplyData, None, chain)
      | Some f \<Rightarrow>
          let waits = rd_result (sf_reply f) \<noteq> ReplyINVALID
          in rbind (if waits then sync_events env m1 f during else Inr (m1, f)) (\<lambda>(m2, f2).
               let (m3, f3, chain') = sync_finish waits m2 f2
               in Inr (Some m3, st1, sf_reply f3, Some (sf_client f3), chain')))"
proof (cases "AllocFiberData m")
  case (Inl e)
  then show ?thesis by (simp add: HttpClientSyncFetch_fiber_def sync_start_def)
next
  case (Inr r)
  obtain m1 fd where r: "r = (m1, fd)" by fastforce
  show ?thesis
  proof (cases fd)
    case None
    with Inr r show ?thesis by (simp add: HttpClientSyncFetch_fiber_def sync_start_def)
  next
    case (Some obj)
    define c :: "('e, 'm) http_client" where "c = Fetch URL G split (AddRef (CreateHttpClient te evb (Some sync_callback) 0)) meth url headers post"
    define f where "f = \<lparr>sf_obj = obj, sf_client = c, sf_reply = sync_reply (hc_calls c), sf_chain_back = chain\<rparr>"
    have start: "sync_start env m st chain meth url headers post = Inr (sync_posts obj (hc_calls c) m1, IncreaseStats st f_http, Some f)"
      by (simp add: sync_start_def assms Inr r Some c_def f_def Let_def)
    have env: "he_getNumberOfValues env = g" by (simp add: assms)
    show ?thesis
      using sync_events_run [where env = env and f = f and evs = during and m = "sync_posts obj (hc_calls c) m1"] env
      by (auto simp: HttpClientSyncFetch_fiber_def start Inr r Some c_def [symmetric] f_def sync_finish_def
          sync_reply_def Let_def split: sum.splits)
  qed
qed

end
