(* ===== verification/Fiber_Runs.thy ===== *)
theory Fiber_Runs
  imports Fiber_Calls
begin

text \<open>
  The runs of a thread whose fibers make synchronous HTTP calls (\<open>Fiber_Calls\<close>): its state
  follows the trace of what happened, the calls do not disturb each other, and the table of
  fibers holds exactly those that wait.
\<close>

section \<open>Runs\<close>

text \<open>What a trace says of one call, and the call chains at the beginnings of the calls.\<close>

definition reported_to :: "nat \<Rightarrow> ('m, 'c) fiber_label list \<Rightarrow> 'm client_event list" where
  "reported_to i tr = List.map_filter (\<lambda>l. case l of Reported j ev \<Rightarrow> if j = i then Some ev else None | _ \<Rightarrow> None) tr"

definition before_return :: "nat \<Rightarrow> ('m, 'c) fiber_label list \<Rightarrow> ('m, 'c) fiber_label list" where
  "before_return i tr = takeWhile (\<lambda>l. l \<noteq> Resumed i) tr"

definition began_chains :: "('m, 'c) fiber_label list \<Rightarrow> 'c list" where
  "began_chains tr = List.map_filter (\<lambda>l. case l of Began c \<Rightarrow> Some c | _ \<Rightarrow> None) tr"

lemma reported_to_snoc [simp]:
  "reported_to i [] = []"
  "reported_to i (tr @ [l]) = reported_to i tr @ (case l of Reported j ev \<Rightarrow> if j = i then [ev] else [] | _ \<Rightarrow> [])"
  by (auto simp: reported_to_def List.map_filter_def split: fiber_label.splits)

lemma began_chains_snoc [simp]:
  "began_chains [] = []"
  "began_chains (tr @ [l]) = began_chains tr @ (case l of Began c \<Rightarrow> [c] | _ \<Rightarrow> [])"
  by (auto simp: began_chains_def List.map_filter_def split: fiber_label.splits)

lemma before_return_returned: "Resumed i \<in> set tr \<Longrightarrow> before_return i (tr @ [l]) = before_return i tr"
  by (auto simp: before_return_def takeWhile_append1)

lemma before_return_waiting: "Resumed i \<notin> set tr \<Longrightarrow> before_return i tr = tr"
  by (auto simp: before_return_def takeWhile_eq_all_conv)

definition follows_trace :: "('m, 'c) fiber_label list \<Rightarrow> nat \<Rightarrow> ('e, 'm, 'c) sync_call \<Rightarrow> bool" where
  "follows_trace tr i call \<longleftrightarrow>
     sc_events call = reported_to i tr \<and>
     (sc_usable call \<longrightarrow> sc_waiting call = (Resumed i \<notin> set tr) \<and>
        (\<not> sc_waiting call \<longrightarrow> sc_seen call = reported_to i (before_return i tr)))"

definition trace_inv :: "('m, 'c) fiber_label list \<Rightarrow> ('f, 'e, 'm, 'c) fiber_thread \<Rightarrow> bool" where
  "trace_inv tr s \<longleftrightarrow>
     (\<forall>i. if i < length (ft_calls s) then follows_trace tr i (ft_calls s ! i)
          else reported_to i tr = [] \<and> Resumed i \<notin> set tr)"

lemma fiber_step_cases [consumes 3, case_names began refused reported resumed switched]:
  assumes "fiber_step env s l s'" "thread_inv s" "Suc (length (ft_calls s)) < 2 ^ 32"
  obtains call where "l = Began (ft_chain s)" "ft_calls s' = ft_calls s @ [call]" "new_call (ft_chain s) call" "thread_inv s'"
  | "l = Refused" "s' = s" "\<not> length (fm_datas (ft_mgr s)) < FIBER_MAX_QUEUE_SIZE"
  | i ev call where "l = Reported i ev" "i < length (ft_calls s)" "sc_usable (ft_calls s ! i)"
      "ft_calls s' = (ft_calls s)[i := call]" "sc_events call = sc_events (ft_calls s ! i) @ [ev]"
      "sc_usable call = sc_usable (ft_calls s ! i)" "sc_waiting call = sc_waiting (ft_calls s ! i)" "sc_seen call = sc_seen (ft_calls s ! i)"
      "sf_chain_back (sc_frame call) = sf_chain_back (sc_frame (ft_calls s ! i))" "thread_inv s'"
  | i call where "l = Resumed i" "i < length (ft_calls s)" "sc_waiting (ft_calls s ! i)"
      "ft_calls s' = (ft_calls s)[i := call]" "sc_events call = sc_events (ft_calls s ! i)"
      "sc_usable call = sc_usable (ft_calls s ! i)" "\<not> sc_waiting call" "sc_seen call = sc_events (ft_calls s ! i)"
      "sf_chain_back (sc_frame call) = sf_chain_back (sc_frame (ft_calls s ! i))"
      "ft_chain s' = sf_chain_back (sc_frame (ft_calls s ! i))" "thread_inv s'"
  | c where "l = Switched c" "s' = s\<lparr>ft_chain := c\<rparr>" "thread_inv s'"
  using assms(1)
proof (cases rule: fiber_step.cases)
  case (began meth url headers post_data)
  obtain s1 where b: "begin_call env s meth url headers post_data = Inr s1" "thread_inv s1"
    "if length (fm_datas (ft_mgr s)) < FIBER_MAX_QUEUE_SIZE
     then \<exists>call. ft_calls s1 = ft_calls s @ [call] \<and> new_call (ft_chain s) call \<and>
            sc_usable call = usable (he_URL env) (he_getHostByName env) url else s1 = s"
    by (rule begin_call_inv [OF assms(2,3), of env meth url headers post_data])
  then have "s' = s1" using began(2) by simp
  then show ?thesis using that(1,2) began(1) b by (metis (full_types))
next
  case (reported i ev)
  obtain s1 where r: "report_event env s i ev = Inr s1" "thread_inv s1"
    by (rule report_event_inv [OF assms(2) reported(2-4), of env])
  have s1: "s' = s1" using r(1) reported(5) by simp
  from reported(5) obtain m f where e: "sync_event env (sc_waiting (ft_calls s ! i)) (ft_mgr s) (sc_frame (ft_calls s ! i)) ev = Inr (m, f)"
    "s' = s\<lparr>ft_mgr := m, ft_calls := (ft_calls s)[i := (ft_calls s ! i)\<lparr>sc_frame := f, sc_events := sc_events (ft_calls s ! i) @ [ev]\<rparr>]\<rparr>"
    by (auto simp: report_event_def rbind_eq_Inr_iff Let_def)
  have "sf_chain_back f = sf_chain_back (sc_frame (ft_calls s ! i))"
    using e(1) by (auto simp: sync_event_def rbind_eq_Inr_iff Let_def split: if_splits)
  then show ?thesis using that(3) [OF reported(1-3)] e(2) r(2) s1 by simp
next
  case (resumed i)
  have "thread_inv s'" using resume_call_inv [OF assms(2) resumed(3,4)] assms(3) resumed(2) by simp
  then show ?thesis
    using that(4) [OF resumed(1,3,4)] resumed(2) by (simp add: resume_call_def sync_finish_def Let_def)
next
  case (switched c)
  moreover have "thread_inv s'" using assms(2) switched(2) by (simp add: thread_inv_def)
  ultimately show ?thesis using that(5) by blast
qed

lemma follows_other:
  "follows_trace tr i call \<Longrightarrow> (\<And>ev. l \<noteq> Reported i ev) \<Longrightarrow> l \<noteq> Resumed i \<Longrightarrow> follows_trace (tr @ [l]) i call"
  by (cases "Resumed i \<in> set tr") (auto simp: follows_trace_def before_return_returned split: fiber_label.splits)

lemma follows_reported:
  assumes "follows_trace tr i c" "sc_events call = sc_events c @ [ev]" "sc_usable call = sc_usable c"
    "sc_waiting call = sc_waiting c" "sc_seen call = sc_seen c"
  shows "follows_trace (tr @ [Reported i ev]) i call"
  using assms by (cases "Resumed i \<in> set tr") (auto simp: follows_trace_def before_return_returned)

lemma follows_resumed:
  assumes "follows_trace tr i c" "sc_waiting c" "sc_usable call" "sc_usable c" "sc_events call = sc_events c"
    "\<not> sc_waiting call" "sc_seen call = sc_events c"
  shows "follows_trace (tr @ [Resumed i]) i call"
proof -
  have "Resumed i \<notin> set tr" using assms(1,2,4) by (simp add: follows_trace_def)
  then have "before_return i (tr @ [Resumed i]) = tr" unfolding before_return_def by (subst takeWhile_append2) auto
  then show ?thesis using assms by (simp add: follows_trace_def)
qed

lemma waiting_usable:
  assumes "thread_inv s" "i < length (ft_calls s)" "sc_waiting (ft_calls s ! i)"
  shows "sc_usable (ft_calls s ! i)"
  using assms by (auto simp: thread_inv_def call_ok_def split: if_splits)

lemma saved_chains_update:
  assumes "i < length (ft_calls s)" "sf_chain_back (sc_frame call) = sf_chain_back (sc_frame (ft_calls s ! i))"
  shows "map (\<lambda>c. sf_chain_back (sc_frame c)) ((ft_calls s)[i := call]) = saved_chains s"
  using assms by (simp add: saved_chains_def list_eq_iff_nth_eq nth_list_update)

lemma trace_inv_step:
  assumes inv: "trace_inv tr s" "thread_inv s" and n: "Suc (length (ft_calls s)) < 2 ^ 32" and st: "fiber_step env s l s'"
  shows "trace_inv (tr @ [l]) s'"
proof -
  have T: "follows_trace tr i (ft_calls s ! i)" if "i < length (ft_calls s)" for i
    using inv(1) that by (auto simp: trace_inv_def)
  have N: "reported_to i tr = []" "Resumed i \<notin> set tr" if "\<not> i < length (ft_calls s)" for i
    using inv(1) that by (auto simp: trace_inv_def split: if_splits)
  have other: "trace_inv (tr @ [l]) s'"
    if "ft_calls s' = ft_calls s" "\<And>i ev. l \<noteq> Reported i ev" "\<And>i. l \<noteq> Resumed i"
  proof -
    have "follows_trace (tr @ [l]) i (ft_calls s ! i)" if "i < length (ft_calls s)" for i
      by (rule follows_other [OF T [OF that]]) fact+
    moreover have "reported_to i (tr @ [l]) = []" if "\<not> i < length (ft_calls s)" for i
      using N(1) [OF that] \<open>\<And>i ev. l \<noteq> Reported i ev\<close> by (auto split: fiber_label.splits)
    ultimately show ?thesis
      using N(2) \<open>\<And>i. l \<noteq> Resumed i\<close> unfolding trace_inv_def \<open>ft_calls s' = ft_calls s\<close> by auto
  qed
  from st inv(2) n show ?thesis
  proof (cases rule: fiber_step_cases)
    case (began call)
    have "follows_trace (tr @ [l]) (length (ft_calls s)) call"
      using began(1,3) N [of "length (ft_calls s)"] by (auto simp: follows_trace_def new_call_def)
    moreover have "follows_trace (tr @ [l]) j (ft_calls s ! j)" if "j < length (ft_calls s)" for j
      using follows_other [OF T [OF that]] began(1) by simp
    ultimately show ?thesis
      using N unfolding trace_inv_def began(1,2) by (auto simp: nth_append less_Suc_eq)
  next
    case (reported i ev call)
    have "follows_trace (tr @ [l]) i call"
      unfolding reported(1) by (rule follows_reported [OF T [OF reported(2)] reported(5-8)])
    moreover have "follows_trace (tr @ [l]) j (ft_calls s ! j)" if "j \<noteq> i" "j < length (ft_calls s)" for j
      using follows_other [OF T [OF that(2)]] that(1) reported(1) by simp
    ultimately show ?thesis
      using N reported(2) unfolding trace_inv_def reported(1,4) by (auto simp: nth_list_update)
  next
    case (resumed i call)
    have u: "sc_usable (ft_calls s ! i)" by (rule waiting_usable [OF inv(2) resumed(2,3)])
    have "follows_trace (tr @ [l]) i call"
      unfolding resumed(1) using follows_resumed [OF T [OF resumed(2)] resumed(3) _ u] resumed(5-8) u by simp
    moreover have "follows_trace (tr @ [l]) j (ft_calls s ! j)" if "j \<noteq> i" "j < length (ft_calls s)" for j
      using follows_other [OF T [OF that(2)]] that(1) resumed(1) by simp
    ultimately show ?thesis
      using N resumed(2) unfolding trace_inv_def resumed(1,4) by (auto simp: nth_list_update)
  qed (use other in auto)
qed

text \<open>With fewer than $2^{32}-1$ calls begun, the state of a thread follows its trace.\<close>

lemma fiber_run_inv:
  assumes "run (fiber_step env) (fiber_thread_init q evb t st chain) tr s" "length (began_chains tr) < 2 ^ 32 - 1"
  shows "thread_inv s \<and> saved_chains s = began_chains tr \<and> trace_inv tr s"
  using assms
proof (induction rule: run.induct)
  case run_nil
  then show ?case
    using thread_inv_init by (simp add: saved_chains_def trace_inv_def) (simp add: fiber_thread_init_def)
next
  case (run_snoc tr s l s')
  have "length (began_chains tr) < 2 ^ 32 - 1" using run_snoc.prems by simp
  with run_snoc.IH have IH: "thread_inv s" "saved_chains s = began_chains tr" "trace_inv tr s" by auto
  have "length (ft_calls s) = length (began_chains tr)" using IH(2) by (metis saved_chains_def length_map)
  then have n: "Suc (length (ft_calls s)) < 2 ^ 32" using \<open>length (began_chains tr) < 2 ^ 32 - 1\<close> by linarith
  have "thread_inv s' \<and> saved_chains s' = began_chains (tr @ [l])"
    using run_snoc.hyps(2) IH(1) n
  proof (cases rule: fiber_step_cases)
    case (reported i ev call)
    then show ?thesis using IH(2) saved_chains_update [OF reported(2,9)] by (simp add: saved_chains_def)
  next
    case (resumed i call)
    then show ?thesis using IH(2) saved_chains_update [OF resumed(2,9)] by (simp add: saved_chains_def)
  qed (use IH(1,2) in \<open>auto simp: saved_chains_def new_call_def\<close>)
  with trace_inv_step [OF IH(3,1) n run_snoc.hyps(2)] show ?case by simp
qed

lemma call_after_run:
  assumes "run (fiber_step env) (fiber_thread_init q evb t st chain) tr s" "length (began_chains tr) < 2 ^ 32 - 1"
    and "i < length (ft_calls s)"
  shows "call_ok (fm_store (ft_mgr s) i) i (ft_calls s ! i)" "follows_trace tr i (ft_calls s ! i)"
    "sf_chain_back (sc_frame (ft_calls s ! i)) = began_chains tr ! i"
proof -
  note inv = fiber_run_inv [OF assms(1,2)]
  then show "call_ok (fm_store (ft_mgr s) i) i (ft_calls s ! i)" "follows_trace tr i (ft_calls s ! i)"
    using assms(3) by (auto simp: thread_inv_def trace_inv_def)
  have "saved_chains s ! i = sf_chain_back (sc_frame (ft_calls s ! i))"
    using assms(3) by (simp add: saved_chains_def)
  then show "sf_chain_back (sc_frame (ft_calls s ! i)) = began_chains tr ! i" using inv by simp
qed

section \<open>What can always happen next\<close>

lemma begin_step:
  assumes "run (fiber_step env) (fiber_thread_init q evb t st chain) tr s" "length (began_chains tr) < 2 ^ 32 - 1"
    and "usable (he_URL env) (he_getHostByName env) url" "length (ft_calls s) < FIBER_MAX_QUEUE_SIZE"
  obtains s' call where "fiber_step env s (Began (ft_chain s)) s'" "ft_calls s' = ft_calls s @ [call]" "sc_usable call"
proof -
  from fiber_run_inv [OF assms(1,2)] have inv: "thread_inv s" and sc: "saved_chains s = began_chains tr" by auto
  have "length (ft_calls s) = length (began_chains tr)" using sc by (metis saved_chains_def length_map)
  then have n: "Suc (length (ft_calls s)) < 2 ^ 32" using assms(2) by linarith
  have room: "length (fm_datas (ft_mgr s)) < FIBER_MAX_QUEUE_SIZE"
    using thread_inv_mgr [OF inv] le_less_trans [OF length_filter_le assms(4), of sc_waiting]
    by (simp add: mgr_ok_def call_table_def length_waiting_calls)
  obtain s' where s': "begin_call env s GET url [] [] = Inr s'"
    "if length (fm_datas (ft_mgr s)) < FIBER_MAX_QUEUE_SIZE
     then \<exists>call. ft_calls s' = ft_calls s @ [call] \<and> new_call (ft_chain s) call \<and>
            sc_usable call = usable (he_URL env) (he_getHostByName env) url else s' = s"
    by (rule begin_call_inv [OF inv n, of env GET url "[]" "[]"])
  then show ?thesis using fiber_step.began [OF s'(1)] room assms(3) that by auto
qed

lemma report_step:
  assumes "run (fiber_step env) (fiber_thread_init q evb t st chain) tr s" "length (began_chains tr) < 2 ^ 32 - 1"
    and "i < length (ft_calls s)" "sc_usable (ft_calls s ! i)" "session_next (reported_to i tr) ev"
  obtains s' where "fiber_step env s (Reported i ev) s'" "map sc_usable (ft_calls s') = map sc_usable (ft_calls s)"
proof -
  have e: "sc_events (ft_calls s ! i) = reported_to i tr" using call_after_run(2) [OF assms(1-3)] by (simp add: follows_trace_def)
  obtain s' where s': "report_event env s i ev = Inr s'"
    using report_event_inv [OF _ assms(3,4), of ev env] fiber_run_inv [OF assms(1,2)] e assms(5) by metis
  moreover from this have "map sc_usable (ft_calls s') = map sc_usable (ft_calls s)"
    using assms(3) by (auto simp: report_event_def rbind_eq_Inr_iff Let_def list_eq_iff_nth_eq nth_list_update split: if_splits)
  ultimately show ?thesis using that fiber_step.reported [OF assms(3,4)] assms(5) e by metis
qed

lemma resume_step:
  assumes "run (fiber_step env) (fiber_thread_init q evb t st chain) tr s" "length (began_chains tr) < 2 ^ 32 - 1"
    and "i < length (ft_calls s)" "sc_usable (ft_calls s ! i)" "Resumed i \<notin> set tr"
  obtains s' where "fiber_step env s (Resumed i) s'" "map sc_usable (ft_calls s') = map sc_usable (ft_calls s)"
proof -
  have "sc_waiting (ft_calls s ! i)" using call_after_run(2) [OF assms(1-3)] assms(4,5) by (simp add: follows_trace_def)
  note st = fiber_step.resumed [OF assms(3) this, of env]
  have "map sc_usable (ft_calls (resume_call True s i)) = map sc_usable (ft_calls s)"
    using assms(3) by (auto simp: resume_call_def Let_def list_eq_iff_nth_eq nth_list_update split: prod.splits if_splits)
  then show ?thesis using that st by blast
qed

text \<open>Two calls, the second of which cannot connect.\<close>

definition demo_env :: "unit http_env" where
  "demo_env = \<lparr>he_getNumberOfValues = \<lambda>_ _. 0, he_URL = demo_url, he_getHostByName = id, he_split = split_at,
     he_this_evb = (), he_evb = None\<rparr>"

definition demo_thread :: "(string, unit, string, string) fiber_thread" where
  "demo_thread = fiber_thread_init 8 ''evb'' 3 (new_Stats [] 7) ''a''"

text \<open>Both are there, the second one knows of its failure, then the first wait times out and the second ends.\<close>

definition demo_trace :: "string \<Rightarrow> (string, string) fiber_label list" where
  "demo_trace c = [Began ''a'', Began c, Reported 1 EConnectError, Resumed 0, Resumed 1]"

lemma demo_trace_bound: "length (began_chains (take n (demo_trace c))) < 2 ^ 32 - 1"
proof -
  have "length (began_chains tr) \<le> length tr" for tr :: "(string, string) fiber_label list"
    by (induction tr rule: rev_induct) (auto split: fiber_label.splits)
  then have "length (began_chains (take n (demo_trace c))) \<le> 5"
    by (rule le_trans) (simp add: demo_trace_def)
  then show ?thesis by simp
qed

lemma demo_next:
  assumes "run (fiber_step demo_env) demo_thread (take n (demo_trace c)) s" "fiber_step demo_env s (demo_trace c ! n) s'" "n < 5"
  shows "run (fiber_step demo_env) demo_thread (take (Suc n) (demo_trace c)) s'"
proof -
  have "n < length (demo_trace c)" using assms(3) by (simp add: demo_trace_def)
  then show ?thesis
    using run_snoc [where step = "fiber_step demo_env", OF assms(1,2)] by (simp add: take_Suc_conv_app_nth)
qed

lemma demo_begun:
  "\<exists>s c. run (fiber_step demo_env) demo_thread (take 2 (demo_trace c)) s \<and> map sc_usable (ft_calls s) = [True, True]"
proof -
  have u: "usable (he_URL demo_env) (he_getHostByName demo_env) ''h''" by (simp add: usable_def demo_env_def demo_url_def)
  have z: "ft_calls demo_thread = []" "ft_chain demo_thread = ''a''" by (simp_all add: demo_thread_def fiber_thread_init_def)
  have r0: "run (fiber_step demo_env) demo_thread (take 0 (demo_trace c)) demo_thread" for c by (simp add: run_nil)
  obtain s1 c1 where s1: "fiber_step demo_env demo_thread (Began ''a'') s1" "ft_calls s1 = [c1]" "sc_usable c1"
    using begin_step [OF r0 [unfolded demo_thread_def] demo_trace_bound u] z
    by (auto simp: FIBER_MAX_QUEUE_SIZE_def demo_thread_def)
  have r1: "run (fiber_step demo_env) demo_thread (take 1 (demo_trace c)) s1" for c
    using demo_next [OF r0, of c s1] s1(1) by (simp add: demo_trace_def)
  obtain s2 c2 where s2: "fiber_step demo_env s1 (Began (ft_chain s1)) s2" "ft_calls s2 = [c1, c2]" "sc_usable c2"
    using begin_step [OF r1 [unfolded demo_thread_def] demo_trace_bound u] s1(2) by (auto simp: FIBER_MAX_QUEUE_SIZE_def)
  have "run (fiber_step demo_env) demo_thread (take 2 (demo_trace (ft_chain s1))) s2"
    using demo_next [OF r1, of "ft_chain s1" s2] s2(1) by (simp add: demo_trace_def numeral_2_eq_2)
  then show ?thesis using s1(3) s2(2,3) by (intro exI [of _ s2] exI [of _ "ft_chain s1"]) simp
qed

lemma usable_nth: "map sc_usable xs = [True, True] \<Longrightarrow> length xs = 2 \<and> sc_usable (xs ! 0) \<and> sc_usable (xs ! 1)"
  by (auto simp: map_eq_Cons_conv)

lemma demo_calls:
  obtains s c where "run (fiber_step demo_env) demo_thread (demo_trace c) s" "map sc_usable (ft_calls s) = [True, True]"
proof -
  obtain s2 c where s2: "run (fiber_step demo_env) demo_thread (take 2 (demo_trace c)) s2" "map sc_usable (ft_calls s2) = [True, True]"
    using demo_begun by auto
  have nx: "session_next (reported_to 1 (take 2 (demo_trace c))) EConnectError"
    by (simp add: session_next_def reported_to_def List.map_filter_def complete_session_def demo_trace_def)
  obtain s3 where "fiber_step demo_env s2 (Reported 1 EConnectError) s3" and u3: "map sc_usable (ft_calls s3) = [True, True]"
    using report_step [OF s2(1) [unfolded demo_thread_def] demo_trace_bound _ _ nx] usable_nth [OF s2(2)] s2(2) by auto
  then have s3: "run (fiber_step demo_env) demo_thread (take 3 (demo_trace c)) s3"
    using demo_next [OF s2(1), of s3] by (simp add: demo_trace_def)
  obtain s4 where "fiber_step demo_env s3 (Resumed 0) s4" and u4: "map sc_usable (ft_calls s4) = [True, True]"
    using resume_step [OF s3 [unfolded demo_thread_def] demo_trace_bound, of 0] usable_nth [OF u3] u3 by (auto simp: demo_trace_def)
  then have s4: "run (fiber_step demo_env) demo_thread (take 4 (demo_trace c)) s4"
    using demo_next [OF s3, of s4] by (simp add: demo_trace_def)
  obtain s5 where "fiber_step demo_env s4 (Resumed 1) s5" and u5: "map sc_usable (ft_calls s5) = [True, True]"
    using resume_step [OF s4 [unfolded demo_thread_def] demo_trace_bound, of 1] usable_nth [OF u4] u4 by (auto simp: demo_trace_def)
  then have "run (fiber_step demo_env) demo_thread (take 5 (demo_trace c)) s5"
    using demo_next [OF s4, of s5] by (simp add: demo_trace_def)
  then show ?thesis using that [of c s5] u5 by (simp add: demo_trace_def)
qed

section \<open>Properties\<close>

text \<open>
  C14. Synchronous calls of the fibers of one thread do not disturb each other, however their
  beginnings, the reports of their transports and the ends of their waits interleave: a call
  returns the invalid reply at once if its address is unusable; otherwise it returns with its
  wait, with the reply of its own session if that was over by then and the empty reply if not
  (for a session that failed after its headers, \<open>HTTP_ERROR\<close> with the headers, as
  \<open>error_reply_carries_headers\<close> shows);
  and its return restores the call chain with which it began. (Fewer than $2^{32}-1$ calls begun
  on the thread.)
\<close>

theorem sync_calls_isolated:
  assumes "run (fiber_step env) (fiber_thread_init q evb t st chain) tr s" "length (began_chains tr) < 2 ^ 32 - 1"
    and "i < length (ft_calls s)"
  shows "let call = ft_calls s ! i; reply = sf_reply (sc_frame call)
     in (\<not> sc_usable call \<longrightarrow> \<not> sc_waiting call \<and> reply = invalid_reply) \<and>
        (sc_usable call \<longrightarrow> sc_waiting call = (Resumed i \<notin> set tr) \<and>
           (Resumed i \<in> set tr \<longrightarrow> reply = seen_reply (reported_to i (before_return i tr)))) \<and>
        ft_chain (resume_call True s i) = began_chains tr ! i"
proof -
  note c = call_after_run [OF assms]
  have "ft_chain (resume_call True s i) = began_chains tr ! i"
    using c(3) by (simp add: resume_call_def sync_finish_def Let_def)
  with c(1,2) show ?thesis by (auto simp: call_ok_def usable_ok_def follows_trace_def Let_def)
qed

theorem sync_calls_isolated_witness:
  "\<exists>s c. run (fiber_step demo_env) demo_thread (demo_trace c) s \<and>
     rd_result (sf_reply (sc_frame (ft_calls s ! 0))) = ReplyNONE \<and>
     rd_result (sf_reply (sc_frame (ft_calls s ! 1))) = ReplyCONNECT_ERROR"
proof -
  obtain s c where s: "run (fiber_step demo_env) demo_thread (demo_trace c) s" "map sc_usable (ft_calls s) = [True, True]"
    by (rule demo_calls)
  note u = usable_nth [OF s(2)]
  have b: "length (began_chains (demo_trace c)) < 2 ^ 32 - 1" using demo_trace_bound [of 5 c] by (simp add: demo_trace_def)
  note I = sync_calls_isolated [OF s(1) [unfolded demo_thread_def] b]
  have "reported_to 0 (before_return 0 (demo_trace c)) = []" "reported_to 1 (before_return 1 (demo_trace c)) = [EConnectError]"
    by (simp_all add: demo_trace_def before_return_def reported_to_def List.map_filter_def)
  then have "sf_reply (sc_frame (ft_calls s ! 0)) = new_HttpClientReplyData" "sf_reply (sc_frame (ft_calls s ! 1)) = session_reply [EConnectError]"
    using I [of 0] I [of 1] u by (auto simp: demo_trace_def seen_reply_def complete_session_def Let_def)
  with s(1) show ?thesis by (intro exI [of _ s] exI [of _ c]) (simp add: new_HttpClientReplyData_def session_reply_def)
qed

text \<open>
  C15. No report of a transport uses a deleted client or a returned call, and no client is
  leaked: in every reachable state the client of a call is alive exactly while the call waits
  or its session is not over, and every report that proxygen may make next is handled.
\<close>

theorem sync_clients_live:
  assumes "run (fiber_step env) (fiber_thread_init q evb t st chain) tr s" "length (began_chains tr) < 2 ^ 32 - 1"
    and "i < length (ft_calls s)" "sc_usable (ft_calls s ! i)"
  shows "hc_alive (sf_client (sc_frame (ft_calls s ! i))) =
       (sc_waiting (ft_calls s ! i) \<or> \<not> complete_session (reported_to i tr)) \<and>
     (session_next (reported_to i tr) ev \<longrightarrow> (\<exists>s'. report_event env s i ev = Inr s')) \<and>
     (sc_waiting (ft_calls s ! i) \<longrightarrow>
        baton_posted (fm_store (ft_mgr s) i) = complete_session (reported_to i tr))"
proof -
  note c = call_after_run [OF assms(1-3)]
  have e: "sc_events (ft_calls s ! i) = reported_to i tr" using c(2) by (simp add: follows_trace_def)
  have u: "usable_ok (fm_store (ft_mgr s) i) (ft_calls s ! i)" using c(1) assms(4) by (simp add: call_ok_def)
  have "\<exists>s'. report_event env s i ev = Inr s'" if "session_next (reported_to i tr) ev"
    using report_event_inv [OF _ assms(3,4), of ev env] fiber_run_inv [OF assms(1,2)] that e by metis
  then show ?thesis using u by (auto simp: usable_ok_def released_def in_session_def e Let_def split: if_splits)
qed

theorem sync_clients_live_witness:
  "\<exists>s c. run (fiber_step demo_env) demo_thread (demo_trace c) s \<and>
     hc_alive (sf_client (sc_frame (ft_calls s ! 0))) \<and> \<not> hc_alive (sf_client (sc_frame (ft_calls s ! 1)))"
proof -
  obtain s c where s: "run (fiber_step demo_env) demo_thread (demo_trace c) s" "map sc_usable (ft_calls s) = [True, True]"
    by (rule demo_calls)
  note u = usable_nth [OF s(2)]
  have b: "length (began_chains (demo_trace c)) < 2 ^ 32 - 1" using demo_trace_bound [of 5 c] by (simp add: demo_trace_def)
  note L = sync_clients_live [OF s(1) [unfolded demo_thread_def] b]
  have "reported_to 0 (demo_trace c) = []" "reported_to 1 (demo_trace c) = [EConnectError]" "Resumed 1 \<in> set (demo_trace c)"
    by (simp_all add: demo_trace_def reported_to_def List.map_filter_def)
  moreover from this have "\<not> sc_waiting (ft_calls s ! 1)"
    using call_after_run(2) [OF s(1) [unfolded demo_thread_def] b, of 1] u by (simp add: follows_trace_def)
  ultimately have "hc_alive (sf_client (sc_frame (ft_calls s ! 0)))" "\<not> hc_alive (sf_client (sc_frame (ft_calls s ! 1)))"
    using L [of 0] L [of 1] u by (auto simp: complete_session_def)
  with s(1) show ?thesis by blast
qed

text \<open>
  C16. The table of fibers of a thread holds exactly the calls that wait, each under its own
  number, so a call can begin unless 4096 others wait.
\<close>

theorem fiber_table_is_waiting_calls:
  assumes "run (fiber_step env) (fiber_thread_init q evb t st chain) tr s" "length (began_chains tr) < 2 ^ 32 - 1"
  shows "(FindFiberData (ft_mgr s) fid = Some i \<longleftrightarrow>
        i < length (ft_calls s) \<and> sc_waiting (ft_calls s ! i) \<and> id_lo fid = word_of_nat (Suc i)) \<and>
     GetFiberQueueSize (ft_mgr s) = length (filter sc_waiting (ft_calls s)) \<and>
     (\<exists>s'. begin_call env s meth url headers post = Inr s' \<and>
        length (ft_calls s') = length (ft_calls s) + (if length (filter sc_waiting (ft_calls s)) < 4096 then 1 else 0))"
proof -
  from fiber_run_inv [OF assms] have inv: "thread_inv s" and sc: "saved_chains s = began_chains tr" by auto
  note m = thread_inv_mgr [OF inv]
  have "length (ft_calls s) = length (began_chains tr)" using sc by (metis saved_chains_def length_map)
  then have n: "length (ft_calls s) < 2 ^ 32" "Suc (length (ft_calls s)) < 2 ^ 32" using assms(2) by linarith+
  have key: "(ucast (id_lo fid) :: u64) = fkey i \<longleftrightarrow> id_lo fid = word_of_nat (Suc i)" by (simp add: fkey_def del: of_nat_Suc)
  have look: "FindFiberData (ft_mgr s) fid = Some i \<longleftrightarrow>
      i < length (ft_calls s) \<and> sc_waiting (ft_calls s ! i) \<and> id_lo fid = word_of_nat (Suc i)"
    using m call_table_look [OF n(1), of "ucast (id_lo fid)" i] by (simp add: FindFiberData_eq mgr_ok_def key del: of_nat_Suc)
  have sz: "length (fm_datas (ft_mgr s)) = length (filter sc_waiting (ft_calls s))"
    using m by (simp add: mgr_ok_def call_table_def length_waiting_calls)
  obtain s' where s': "begin_call env s meth url headers post = Inr s'"
    "if length (fm_datas (ft_mgr s)) < FIBER_MAX_QUEUE_SIZE
     then \<exists>call. ft_calls s' = ft_calls s @ [call] \<and> new_call (ft_chain s) call \<and>
            sc_usable call = usable (he_URL env) (he_getHostByName env) url else s' = s"
    by (rule begin_call_inv [OF inv n(2), of env meth url headers post])
  have "length (ft_calls s') = length (ft_calls s) + (if length (filter sc_waiting (ft_calls s)) < 4096 then 1 else 0)"
    using s'(2) unfolding sz FIBER_MAX_QUEUE_SIZE_def by (auto split: if_splits)
  then show ?thesis using look sz s'(1) by (simp add: GetFiberQueueSize_def del: of_nat_Suc)
qed

theorem fiber_table_is_waiting_calls_witness:
  "\<exists>s c. run (fiber_step demo_env) demo_thread [Began ''a'', Began c] s \<and>
     FindFiberData (ft_mgr s) (pack_id 3 2) = Some 1 \<and> FindFiberData (ft_mgr s) (pack_id 3 7) = None"
proof -
  obtain s c where s: "run (fiber_step demo_env) demo_thread (take 2 (demo_trace c)) s" "map sc_usable (ft_calls s) = [True, True]"
    using demo_begun by auto
  note u = usable_nth [OF s(2)]
  note F = fiber_table_is_waiting_calls [OF s(1) [unfolded demo_thread_def] demo_trace_bound, THEN conjunct1]
  have "sc_waiting (ft_calls s ! 1)"
    using call_after_run(2) [OF s(1) [unfolded demo_thread_def] demo_trace_bound, of 1] u
    by (simp add: follows_trace_def demo_trace_def)
  then have "FindFiberData (ft_mgr s) (pack_id 3 2) = Some 1" using F [of "pack_id 3 2" 1] u by simp
  moreover have "FindFiberData (ft_mgr s) (pack_id 3 7) \<noteq> Some i" for i
    using F [of "pack_id 3 7" i] u by (auto simp: less_2_cases_iff)
  then have "FindFiberData (ft_mgr s) (pack_id 3 7) = None" by (cases "FindFiberData (ft_mgr s) (pack_id 3 7)") auto
  ultimately show ?thesis using s(1) by (intro exI [of _ s] exI [of _ c]) (simp add: demo_trace_def)
qed

end
