(* ===== verification/Pool_Runs.thy ===== *)
theory Pool_Runs
  imports Router_Conns Conn_Routing
begin

text \<open>
  The threads of an \<open>IOThreadPoolConnManager\<close> (\<open>net/io_thread_pool_manager\<close>) at work together:
  connections open and close and servers register on their own threads, buffers are
  dispatched from any thread, and the closures that this posts, among them the hops of a
  search for a server, run in any interleaving. A run is compared with what its own
  labels say: the connections that are open, the servers that are registered.
\<close>

section \<open>The system\<close>

record ('e, 'p) pool_sys =
  ps_pool :: "('e, 'p) io_pool"
  ps_queue :: "'e \<times> lane \<Rightarrow> 'e post list"

fun post_evb :: "'e post \<Rightarrow> 'e" where
  "post_evb (PostConn e i low data) = e"
| "post_evb (PostServer e i name number data) = e"
| "post_evb (PostBroadCast e i data) = e"

fun post_idx :: "'e post \<Rightarrow> nat" where
  "post_idx (PostConn e i low data) = i"
| "post_idx (PostServer e i name number data) = i"
| "post_idx (PostBroadCast e i data) = i"

text \<open>\<open>runInEventBaseThread\<close>, called on the thread of \<open>caller\<close>, if that is an event base.\<close>

definition post_to :: "('e, 'p) pool_sys \<Rightarrow> 'e option \<Rightarrow> 'e post \<Rightarrow> ('e, 'p) pool_sys" where
  "post_to s caller po =
     (let q = (post_evb po, lane_of caller (post_evb po))
      in s\<lparr>ps_queue := (ps_queue s)(q := ps_queue s q @ [po])\<rparr>)"

text \<open>One turn of an event loop; a hop of a search may post the next one.\<close>

definition run_turn ::
  "('e, 'p) pool_sys \<Rightarrow> 'e \<Rightarrow> lane \<Rightarrow> ('e post \<times> ('p \<times> iobuf) list \<times> ('e, 'p) pool_sys) option" where
  "run_turn s e l =
     (case ps_queue s (e, l) of
        [] \<Rightarrow> None
      | po # q \<Rightarrow>
          let (w, nxt) = run_post (ps_pool s) po; s1 = s\<lparr>ps_queue := (ps_queue s)((e, l) := q)\<rparr>
          in Some (po, w, case nxt of None \<Rightarrow> s1 | Some po' \<Rightarrow> post_to s1 (Some e) po'))"

text \<open>The pipeline an id stands for.\<close>

definition pool_look :: "('e, 'p) io_pool \<Rightarrow> u64 \<Rightarrow> 'p option" where
  "pool_look pool c =
     (if unat (id_hi c) < length (pool_mgrs pool)
      then IOT_FindPipeline (pool_mgrs pool ! unat (id_hi c)) (id_lo c) else None)"

datatype ('e, 'p) pool_label =
    PoolOpened 'p u64 | PoolRegistered 'p string u32 | PoolClosed u64 'p
  | ToConn u64 iobuf | ToServer string u32 iobuf | ToAll iobuf | Ran "'e post" "('p \<times> iobuf) list"

text \<open>
  A pipeline opens once at a time and on a thread of the pool; what is registered or closed is
  open. The handlers of the connections see to this.
\<close>

inductive pool_step ::
  "('p \<Rightarrow> string) \<Rightarrow> ('p \<Rightarrow> 'e) \<Rightarrow> ('e, 'p) pool_sys \<Rightarrow> ('e, 'p) pool_label \<Rightarrow> ('e, 'p) pool_sys \<Rightarrow> bool"
  for sn :: "'p \<Rightarrow> string" and evb_of :: "'p \<Rightarrow> 'e" where
  opened: "p \<notin> ran (pool_look (ps_pool s)) \<Longrightarrow> evb_of p \<in> io_event_base ` set (pool_mgrs (ps_pool s)) \<Longrightarrow>
     Pool_OnNewConnection sn evb_of (ps_pool s) p = Some (pool, c) \<Longrightarrow>
     pool_step sn evb_of s (PoolOpened p c) (s\<lparr>ps_pool := pool\<rparr>)"
| registered: "p \<in> ran (pool_look (ps_pool s)) \<Longrightarrow>
     pool_step sn evb_of s (PoolRegistered p name number)
       (s\<lparr>ps_pool := Pool_OnServerRegister evb_of (ps_pool s) p name number\<rparr>)"
| closed: "pool_look (ps_pool s) c = Some p \<Longrightarrow> Pool_OnConnectionClosed sn (ps_pool s) c p = Inr (pool, b) \<Longrightarrow>
     pool_step sn evb_of s (PoolClosed c p) (s\<lparr>ps_pool := pool\<rparr>)"
| to_conn: "Pool_DispatchIOBufByConnID (ps_pool s) c d = Inr po \<Longrightarrow>
     pool_step sn evb_of s (ToConn c d) (post_to s caller po)"
| to_server: "Pool_DispatchIOBufByServer (ps_pool s) name number d = Inr po \<Longrightarrow>
     pool_step sn evb_of s (ToServer name number d) (post_to s caller po)"
| to_all: "pool_step sn evb_of s (ToAll d) (fold (\<lambda>po s. post_to s caller po) (Pool_BroadCast (ps_pool s) d) s)"
| ran: "run_turn s e l = Some (po, w, s') \<Longrightarrow> pool_step sn evb_of s (Ran po w) s'"

definition pool_sys_init :: "'e list \<Rightarrow> ('e \<Rightarrow> 'e fiber_mgr) \<Rightarrow> ('e, 'p) pool_sys" where
  "pool_sys_init evbs fibers = \<lparr>ps_pool = fst (new_IOThreadPoolConnManager evbs fibers), ps_queue = (\<lambda>_. [])\<rparr>"

section \<open>What the labels of a run say\<close>

definition open_conns :: "('e, 'p) pool_label list \<Rightarrow> u64 \<Rightarrow> 'p option" where
  "open_conns tr =
     fold (\<lambda>l m. case l of PoolOpened p c \<Rightarrow> m(c \<mapsto> p) | PoolClosed c p \<Rightarrow> m(c := None) | _ \<Rightarrow> m) tr Map.empty"

definition registrations :: "('e, 'p) pool_label list \<Rightarrow> ('p \<times> string \<times> u32) set" where
  "registrations tr =
     fold (\<lambda>l R. case l of PoolRegistered p n k \<Rightarrow> insert (p, n, k) R
                 | PoolClosed c p \<Rightarrow> {r \<in> R. fst r \<noteq> p} | _ \<Rightarrow> R) tr {}"

lemma open_conns_simps [simp]:
  "open_conns [] = Map.empty"
  "open_conns (tr @ [l]) =
     (case l of PoolOpened p c \<Rightarrow> (open_conns tr)(c \<mapsto> p) | PoolClosed c p \<Rightarrow> (open_conns tr)(c := None)
      | _ \<Rightarrow> open_conns tr)"
  by (simp add: open_conns_def) (cases l; simp add: open_conns_def)

lemma registrations_simps [simp]:
  "registrations [] = {}"
  "registrations (tr @ [l]) =
     (case l of PoolRegistered p n k \<Rightarrow> insert (p, n, k) (registrations tr)
      | PoolClosed c p \<Rightarrow> {r \<in> registrations tr. fst r \<noteq> p} | _ \<Rightarrow> registrations tr)"
  by (simp add: registrations_def) (cases l; simp add: registrations_def)

section \<open>The operations on the pool\<close>

abbreviation evbs_of :: "('e, 'p) io_pool \<Rightarrow> 'e list" where
  "evbs_of pool \<equiv> map io_event_base (pool_mgrs pool)"

text \<open>An id is the pair of its halves.\<close>

lemma pack_index:
  assumes "i < length (pool_mgrs pool)" "length (pool_mgrs pool) \<le> 2 ^ 32"
  shows "unat (id_hi (pack_id (word_of_nat i) k)) = i" "id_lo (pack_id (word_of_nat i) k) = k"
    "c = pack_id (word_of_nat i) k \<longleftrightarrow> unat (id_hi c) = i \<and> id_lo c = k"
proof -
  have u: "unat (word_of_nat i :: u64) = i" using assms by (simp add: unsigned_of_nat take_bit_nat_eq_self)
  then have h: "id_hi (pack_id (word_of_nat i) k) = word_of_nat i" using assms by simp
  show "unat (id_hi (pack_id (word_of_nat i) k)) = i" "id_lo (pack_id (word_of_nat i) k) = k" using u h by simp_all
  show "c = pack_id (word_of_nat i) k \<longleftrightarrow> unat (id_hi c) = i \<and> id_lo c = k"
    using u h pack_id_unpack [of c] by (metis id_lo_pack_id unsigned_word_eqI)
qed

lemma pool_look_at:
  "pool_look pool c = Some p \<longleftrightarrow>
     unat (id_hi c) < length (pool_mgrs pool) \<and> io_pipelines (pool_mgrs pool ! unat (id_hi c)) (id_lo c) = Some p"
  by (simp add: pool_look_def IOT_FindPipeline_def)

lemma pool_look_upd:
  assumes "i < length (pool_mgrs pool)" "length (pool_mgrs pool) \<le> 2 ^ 32"
    and "io_pipelines m = (io_pipelines (pool_mgrs pool ! i))(k := x)"
  shows "pool_look (pool\<lparr>pool_mgrs := (pool_mgrs pool)[i := m]\<rparr>) = (pool_look pool)(pack_id (word_of_nat i) k := x)"
  using assms(1,3) pack_index(3) [OF assms(1,2)]
  by (fastforce simp: pool_look_def IOT_FindPipeline_def nth_list_update)

text \<open>What an operation on the manager of one thread leaves alone.\<close>

lemma pool_update:
  assumes "i < length (pool_mgrs pool)" "io_event_base m = io_event_base (pool_mgrs pool ! i)"
  shows "evbs_of (pool\<lparr>pool_mgrs := (pool_mgrs pool)[i := m]\<rparr>) = evbs_of pool"
    "j < length (pool_mgrs pool) \<Longrightarrow> (pool_mgrs pool)[i := m] ! j = (if j = i then m else pool_mgrs pool ! j)"
  using assms by (simp_all add: list_eq_iff_nth_eq nth_list_update)

lemma pool_open_result:
  assumes "Pool_OnNewConnection sn evb_of pool p = Some (pool', c)"
    and "evb_of p \<in> io_event_base ` set (pool_mgrs pool)" "length (pool_mgrs pool) \<le> 2 ^ 32"
  obtains i m k where "i < length (pool_mgrs pool)" "evbs_of pool ! i = evb_of p"
    "IOT_OnNewConnection sn (pool_mgrs pool ! i) p = Some (m, k)" "c = pack_id (word_of_nat i) k"
    "pool' = pool\<lparr>pool_mgrs := (pool_mgrs pool)[i := m]\<rparr>" "pool_look pool c = None"
    "pool_look pool' = (pool_look pool)(c \<mapsto> p)"
proof -
  obtain i where f: "pool_find_evb (pool_mgrs pool) (evb_of p) 0 = Some i"
    using assms(2) pool_find_evb_none [of "pool_mgrs pool" "evb_of p" 0] by (meson not_None_eq)
  note i = pool_find_evb_0 [OF f]
  obtain m k where op: "IOT_OnNewConnection sn (pool_mgrs pool ! i) p = Some (m, k)"
    and r: "pool' = pool\<lparr>pool_mgrs := (pool_mgrs pool)[i := m]\<rparr>" "c = pack_id (word_of_nat i) k"
    using assms(1) f by (auto simp: Pool_OnNewConnection_def split: option.splits)
  have il: "i < length (pool_mgrs pool)" using i by simp
  note x = pack_index(1,2) [OF il assms(3), of k]
  note o' = IOT_OnNewConnection_result [OF op]
  show ?thesis
  proof (rule that [OF il _ op r(2,1)])
    show "evbs_of pool ! i = evb_of p" using i by simp
    show "pool_look pool c = None" using o'(1) x(1,2) r(2) by (simp add: pool_look_def IOT_FindPipeline_def)
    show "pool_look pool' = (pool_look pool)(c \<mapsto> p)" using pool_look_upd [OF il assms(3) o'(2)] r by simp
  qed
qed

lemma pool_register_result:
  assumes "evb_of p \<in> io_event_base ` set (pool_mgrs pool)" "length (pool_mgrs pool) \<le> 2 ^ 32"
  obtains i where "i < length (pool_mgrs pool)" "evbs_of pool ! i = evb_of p"
    "Pool_OnServerRegister evb_of pool p n k =
       pool\<lparr>pool_mgrs := (pool_mgrs pool)[i := IOT_OnServerRegister (pool_mgrs pool ! i) p n k]\<rparr>"
    "pool_look (Pool_OnServerRegister evb_of pool p n k) = pool_look pool"
proof -
  obtain i where f: "pool_find_evb (pool_mgrs pool) (evb_of p) 0 = Some i"
    using assms(1) pool_find_evb_none [of "pool_mgrs pool" "evb_of p" 0] by (meson not_None_eq)
  note i = pool_find_evb_0 [OF f]
  let ?m = "IOT_OnServerRegister (pool_mgrs pool ! i) p n k"
  have r: "Pool_OnServerRegister evb_of pool p n k = pool\<lparr>pool_mgrs := (pool_mgrs pool)[i := ?m]\<rparr>"
    using f by (simp add: Pool_OnServerRegister_def)
  have "io_pipelines ((pool_mgrs pool)[i := ?m] ! j) = io_pipelines (pool_mgrs pool ! j)" for j
    using i by (cases "j = i") (simp_all add: IOT_OnServerRegister_frame)
  then have "pool_look (pool\<lparr>pool_mgrs := (pool_mgrs pool)[i := ?m]\<rparr>) = pool_look pool"
    by (simp add: fun_eq_iff pool_look_def IOT_FindPipeline_def)
  then show ?thesis using that [of i] i r by simp
qed

lemma pool_close_result:
  assumes "Pool_OnConnectionClosed sn pool c p = Inr (pool', b)" "length (pool_mgrs pool) \<le> 2 ^ 32"
  obtains m where "unat (id_hi c) < length (pool_mgrs pool)"
    "IOT_OnConnectionClosed sn (pool_mgrs pool ! unat (id_hi c)) (id_lo c) p = (m, b)"
    "pool' = pool\<lparr>pool_mgrs := (pool_mgrs pool)[unat (id_hi c) := m]\<rparr>"
    "pool_look pool' = (pool_look pool)(c := None)"
proof -
  let ?i = "unat (id_hi c)"
  obtain m where i: "?i < length (pool_mgrs pool)"
    and m: "IOT_OnConnectionClosed sn (pool_mgrs pool ! ?i) (id_lo c) p = (m, b)"
    "pool' = pool\<lparr>pool_mgrs := (pool_mgrs pool)[?i := m]\<rparr>"
    using assms(1) by (auto simp: Pool_OnConnectionClosed_def vec_at_def split: if_splits prod.splits)
  have "c = pack_id (word_of_nat ?i) (id_lo c)" using pack_index(3) [OF i assms(2)] by blast
  then show ?thesis
    using that [OF i m] pool_look_upd [OF i assms(2) IOT_OnConnectionClosed_result(1) [OF m(1)]] m(2) by simp
qed

section \<open>Runs keep to their labels\<close>

definition servers_ok :: "('p \<Rightarrow> 'e) \<Rightarrow> ('p \<times> string \<times> u32) set \<Rightarrow> ('e, 'p) io_pool \<Rightarrow> bool" where
  "servers_ok evb_of R pool \<longleftrightarrow>
     (\<forall>i < length (pool_mgrs pool). \<forall>v. v \<in> set (io_server_conns (pool_mgrs pool ! i)) \<longleftrightarrow>
        (\<exists>p. sc_pipeline v = Some p \<and> (p, sc_server_name v, sc_server_number v) \<in> R \<and>
           evb_of p = io_event_base (pool_mgrs pool ! i)))"

definition conns_ok :: "('p \<Rightarrow> 'e) \<Rightarrow> (u64 \<rightharpoonup> 'p) \<Rightarrow> ('e, 'p) io_pool \<Rightarrow> bool" where
  "conns_ok evb_of opn pool \<longleftrightarrow>
     pool_look pool = opn \<and> (\<forall>c c' p. opn c = Some p \<longrightarrow> opn c' = Some p \<longrightarrow> c = c') \<and>
     (\<forall>c p. opn c = Some p \<longrightarrow> io_event_base (pool_mgrs pool ! unat (id_hi c)) = evb_of p)"

definition posts_ok :: "'e list \<Rightarrow> ('e \<times> lane \<Rightarrow> 'e post list) \<Rightarrow> bool" where
  "posts_ok evbs q \<longleftrightarrow>
     (\<forall>e l. \<forall>po \<in> set (q (e, l)). post_evb po = e \<and> post_idx po < length evbs \<and> evbs ! post_idx po = e)"

definition pool_inv ::
  "('p \<Rightarrow> 'e) \<Rightarrow> 'e list \<Rightarrow> ('e, 'p) pool_label list \<Rightarrow> ('e, 'p) pool_sys \<Rightarrow> bool" where
  "pool_inv evb_of evbs tr s \<longleftrightarrow>
     evbs_of (ps_pool s) = evbs \<and> conns_ok evb_of (open_conns tr) (ps_pool s) \<and>
     servers_ok evb_of (registrations tr) (ps_pool s) \<and> fst ` registrations tr \<subseteq> ran (open_conns tr) \<and>
     posts_ok evbs (ps_queue s)"

lemma evbs_nth: "evbs_of pool = evbs \<Longrightarrow> i < length evbs \<Longrightarrow> io_event_base (pool_mgrs pool ! i) = evbs ! i"
  by auto

lemma evbs_same:
  assumes "evbs_of pool' = evbs_of pool" "i < length (pool_mgrs pool)"
  shows "io_event_base (pool_mgrs pool' ! i) = io_event_base (pool_mgrs pool ! i)"
proof -
  have "i < length (pool_mgrs pool')" using assms by (metis length_map)
  then show ?thesis using assms by (metis nth_map)
qed

lemma servers_ok_frame:
  assumes "servers_ok evb_of R pool" "evbs_of pool' = evbs_of pool"
    and "\<And>j. j < length (pool_mgrs pool) \<Longrightarrow>
      io_server_conns (pool_mgrs pool' ! j) = io_server_conns (pool_mgrs pool ! j)"
  shows "servers_ok evb_of R pool'"
proof -
  have "length (pool_mgrs pool') = length (pool_mgrs pool)" using assms(2) by (metis length_map)
  then show ?thesis using assms(1) unfolding servers_ok_def
    by (simp add: assms(3) evbs_same [OF assms(2)])
qed

lemma conns_ok_base:
  assumes "conns_ok evb_of opn pool" "evbs_of pool' = evbs_of pool" "opn c = Some p"
  shows "io_event_base (pool_mgrs pool' ! unat (id_hi c)) = evb_of p"
proof -
  have "pool_look pool c = Some p" using assms(1,3) unfolding conns_ok_def by metis
  then have "unat (id_hi c) < length (pool_mgrs pool)" by (simp add: pool_look_at)
  then show ?thesis using assms(1,3) evbs_same [OF assms(2)] by (simp add: conns_ok_def)
qed

lemma conns_ok_open:
  assumes ok: "conns_ok evb_of opn pool" and ev: "evbs_of pool' = evbs_of pool"
    and look: "pool_look pool' = (pool_look pool)(c \<mapsto> p)" and p: "p \<notin> ran opn"
    and c: "io_event_base (pool_mgrs pool' ! unat (id_hi c)) = evb_of p"
  shows "conns_ok evb_of (opn(c \<mapsto> p)) pool'"
proof -
  have "pool_look pool' = opn(c \<mapsto> p)" using ok look by (simp add: conns_ok_def)
  moreover have "x = y" if "(opn(c \<mapsto> p)) x = Some q" "(opn(c \<mapsto> p)) y = Some q" for x y q
    using that ok p by (auto simp: conns_ok_def ran_def split: if_splits)
  moreover have "io_event_base (pool_mgrs pool' ! unat (id_hi x)) = evb_of q" if "(opn(c \<mapsto> p)) x = Some q" for x q
    using that c conns_ok_base [OF ok ev, of x q] by (auto split: if_splits)
  ultimately show ?thesis unfolding conns_ok_def by blast
qed

lemma conns_ok_close:
  assumes ok: "conns_ok evb_of opn pool" and ev: "evbs_of pool' = evbs_of pool"
    and look: "pool_look pool' = (pool_look pool)(c := None)"
  shows "conns_ok evb_of (opn(c := None)) pool'"
proof -
  have "pool_look pool' = opn(c := None)" using ok look by (simp add: conns_ok_def)
  moreover have "x = y" if "(opn(c := None)) x = Some q" "(opn(c := None)) y = Some q" for x y q
    using that ok by (auto simp: conns_ok_def split: if_splits)
  moreover have "io_event_base (pool_mgrs pool' ! unat (id_hi x)) = evb_of q" if "(opn(c := None)) x = Some q" for x q
    using that conns_ok_base [OF ok ev, of x q] by (auto split: if_splits)
  ultimately show ?thesis unfolding conns_ok_def by blast
qed

lemma pool_inv_opened:
  assumes inv: "pool_inv evb_of evbs tr s" and n: "length evbs \<le> 2 ^ 32"
    and p: "p \<notin> ran (pool_look (ps_pool s))" "evb_of p \<in> io_event_base ` set (pool_mgrs (ps_pool s))"
    and op: "Pool_OnNewConnection sn evb_of (ps_pool s) p = Some (pool, c)"
  shows "pool_inv evb_of evbs (tr @ [PoolOpened p c]) (s\<lparr>ps_pool := pool\<rparr>)"
proof -
  let ?pool = "ps_pool s"
  have l: "length (pool_mgrs ?pool) \<le> 2 ^ 32" using inv n by (auto simp: pool_inv_def)
  obtain i m k where i: "i < length (pool_mgrs ?pool)" "evbs_of ?pool ! i = evb_of p"
    and m: "IOT_OnNewConnection sn (pool_mgrs ?pool ! i) p = Some (m, k)"
    and c: "c = pack_id (word_of_nat i) k" and pool: "pool = ?pool\<lparr>pool_mgrs := (pool_mgrs ?pool)[i := m]\<rparr>"
    and look: "pool_look ?pool c = None" "pool_look pool = (pool_look ?pool)(c \<mapsto> p)"
    by (rule pool_open_result [OF op p(2) l])
  note o' = IOT_OnNewConnection_result [OF m]
  note u = pool_update [OF i(1) o'(5), folded pool]
  have hi: "unat (id_hi c) = i" using pack_index(1) [OF i(1) l] c by simp
  have ok: "conns_ok evb_of (open_conns tr) ?pool" "open_conns tr = pool_look ?pool"
    using inv by (simp_all add: pool_inv_def conns_ok_def)
  have "io_event_base (pool_mgrs pool ! unat (id_hi c)) = evb_of p"
    using evbs_same [OF u(1) i(1)] i by (simp add: hi)
  then have "conns_ok evb_of ((open_conns tr)(c \<mapsto> p)) pool"
    using conns_ok_open [OF ok(1) u(1) look(2)] p(1) ok(2) by simp
  moreover have "servers_ok evb_of (registrations tr) pool"
    by (rule servers_ok_frame [OF _ u(1)]) (use inv o'(4) i(1) in \<open>simp_all add: pool_inv_def pool nth_list_update\<close>)
  moreover have "ran (open_conns tr) \<subseteq> ran ((open_conns tr)(c \<mapsto> p))"
    using look(1) ok(2) by (simp add: ran_map_upd subset_insertI)
  ultimately show ?thesis using inv u(1) by (auto simp: pool_inv_def)
qed

lemma pool_inv_registered:
  assumes inv: "pool_inv evb_of evbs tr s" and n: "length evbs \<le> 2 ^ 32" and d: "distinct evbs"
    and p: "p \<in> ran (pool_look (ps_pool s))"
  shows "pool_inv evb_of evbs (tr @ [PoolRegistered p name number])
    (s\<lparr>ps_pool := Pool_OnServerRegister evb_of (ps_pool s) p name number\<rparr>)"
proof -
  let ?pool = "ps_pool s" and ?pool' = "Pool_OnServerRegister evb_of (ps_pool s) p name number"
    and ?R = "registrations tr"
  have l: "length (pool_mgrs ?pool) \<le> 2 ^ 32" and d': "distinct (evbs_of ?pool)"
    using inv n d by (auto simp: pool_inv_def)
  have ok: "conns_ok evb_of (open_conns tr) ?pool" "open_conns tr = pool_look ?pool"
    and sv: "servers_ok evb_of ?R ?pool"
    using inv by (simp_all add: pool_inv_def conns_ok_def)
  obtain c where c: "pool_look ?pool c = Some p" using p by (auto simp: ran_def)
  then have b: "evb_of p \<in> io_event_base ` set (pool_mgrs ?pool)"
    using conns_ok_base [OF ok(1) refl, of c p] ok(2) by (metis image_eqI nth_mem pool_look_at)
  obtain i where i: "i < length (pool_mgrs ?pool)" "evbs_of ?pool ! i = evb_of p"
    and eq: "?pool' = ?pool\<lparr>pool_mgrs := (pool_mgrs ?pool)[i := IOT_OnServerRegister (pool_mgrs ?pool ! i) p name number]\<rparr>"
    and look: "pool_look ?pool' = pool_look ?pool"
    by (rule pool_register_result [where evb_of = evb_of and p = p and n = name and k = number, OF b l])
  have ev: "evbs_of ?pool' = evbs_of ?pool"
    unfolding eq by (rule pool_update [OF i(1)]) (simp add: IOT_OnServerRegister_def)
  have "conns_ok evb_of (open_conns tr) ?pool'"
    unfolding conns_ok_def using look ok(2) conns_ok_base [OF ok(1) ev] ok(1) by (simp add: conns_ok_def)
  moreover have "servers_ok evb_of (insert (p, name, number) ?R) ?pool'"
    unfolding servers_ok_def
  proof (intro allI impI)
    fix j v assume "j < length (pool_mgrs ?pool')"
    then have j: "j < length (pool_mgrs ?pool)" using ev by (metis length_map)
    have base: "io_event_base (pool_mgrs ?pool' ! j) = io_event_base (pool_mgrs ?pool ! j)"
      by (rule evbs_same [OF ev j])
    have here: "io_event_base (pool_mgrs ?pool ! j) = evb_of p \<longleftrightarrow> j = i"
      using i j d' nth_eq_iff_index_eq [OF d', of j i] by simp
    let ?new = "\<lparr>sc_server_name = name, sc_server_number = number, sc_pipeline = Some p\<rparr>"
    have "set (io_server_conns (pool_mgrs ?pool' ! j)) =
        (if j = i then insert ?new (set (io_server_conns (pool_mgrs ?pool ! j))) else set (io_server_conns (pool_mgrs ?pool ! j)))"
      using j by (simp add: eq nth_list_update IOT_OnServerRegister_def)
    moreover have "v = ?new \<longleftrightarrow> sc_pipeline v = Some p \<and> sc_server_name v = name \<and> sc_server_number v = number"
      by (cases v) auto
    moreover have "v \<in> set (io_server_conns (pool_mgrs ?pool ! j)) \<longleftrightarrow>
        (\<exists>p. sc_pipeline v = Some p \<and> (p, sc_server_name v, sc_server_number v) \<in> ?R \<and>
           evb_of p = io_event_base (pool_mgrs ?pool ! j))"
      using sv j by (simp add: servers_ok_def)
    ultimately show "v \<in> set (io_server_conns (pool_mgrs ?pool' ! j)) \<longleftrightarrow>
        (\<exists>q. sc_pipeline v = Some q \<and> (q, sc_server_name v, sc_server_number v) \<in> insert (p, name, number) ?R \<and>
           evb_of q = io_event_base (pool_mgrs ?pool' ! j))"
      unfolding base using here by (auto split: if_splits)
  qed
  ultimately show ?thesis using inv ev ok(2) p by (auto simp: pool_inv_def)
qed

lemma pool_inv_closed:
  assumes inv: "pool_inv evb_of evbs tr s" and n: "length evbs \<le> 2 ^ 32" and d: "distinct evbs"
    and p: "pool_look (ps_pool s) c = Some p" and cl: "Pool_OnConnectionClosed sn (ps_pool s) c p = Inr (pool, b)"
  shows "pool_inv evb_of evbs (tr @ [PoolClosed c p]) (s\<lparr>ps_pool := pool\<rparr>)"
proof -
  let ?pool = "ps_pool s" and ?i = "unat (id_hi c)" and ?R = "registrations tr"
  have l: "length (pool_mgrs ?pool) \<le> 2 ^ 32" and d': "distinct (evbs_of ?pool)"
    using inv n d by (auto simp: pool_inv_def)
  have ok: "conns_ok evb_of (open_conns tr) ?pool" "open_conns tr = pool_look ?pool"
    and sv: "servers_ok evb_of ?R ?pool" and op: "fst ` ?R \<subseteq> ran (open_conns tr)"
    using inv by (simp_all add: pool_inv_def conns_ok_def)
  obtain m where i: "?i < length (pool_mgrs ?pool)"
    and m: "IOT_OnConnectionClosed sn (pool_mgrs ?pool ! ?i) (id_lo c) p = (m, b)"
    and eq: "pool = ?pool\<lparr>pool_mgrs := (pool_mgrs ?pool)[?i := m]\<rparr>"
    and look: "pool_look pool = (pool_look ?pool)(c := None)"
    by (rule pool_close_result [OF cl l])
  note o' = IOT_OnConnectionClosed_result [OF m]
  have ev: "evbs_of pool = evbs_of ?pool" unfolding eq by (rule pool_update [OF i o'(5)])
  have pb: "io_event_base (pool_mgrs ?pool ! ?i) = evb_of p" using conns_ok_base [OF ok(1) refl, of c p] p ok(2) by simp
  have "servers_ok evb_of {r \<in> ?R. fst r \<noteq> p} pool"
    unfolding servers_ok_def
  proof (intro allI impI)
    fix j v assume "j < length (pool_mgrs pool)"
    then have j: "j < length (pool_mgrs ?pool)" using ev by (metis length_map)
    have base: "io_event_base (pool_mgrs pool ! j) = io_event_base (pool_mgrs ?pool ! j)"
      by (rule evbs_same [OF ev j])
    have here: "io_event_base (pool_mgrs ?pool ! j) = evb_of p \<longleftrightarrow> j = ?i"
      using i j d' pb nth_eq_iff_index_eq [OF d', of j ?i] by simp
    let ?old = "v \<in> set (io_server_conns (pool_mgrs ?pool ! j))"
    have new: "v \<in> set (io_server_conns (pool_mgrs pool ! j)) \<longleftrightarrow> ?old \<and> (j = ?i \<longrightarrow> sc_pipeline v \<noteq> Some p)"
      using j i o'(3) by (simp add: eq nth_list_update)
    have old: "?old \<longleftrightarrow> (\<exists>q. sc_pipeline v = Some q \<and> (q, sc_server_name v, sc_server_number v) \<in> ?R \<and>
           evb_of q = io_event_base (pool_mgrs ?pool ! j))"
      using sv j unfolding servers_ok_def by blast
    show "v \<in> set (io_server_conns (pool_mgrs pool ! j)) \<longleftrightarrow>
        (\<exists>q. sc_pipeline v = Some q \<and> (q, sc_server_name v, sc_server_number v) \<in> {r \<in> ?R. fst r \<noteq> p} \<and>
           evb_of q = io_event_base (pool_mgrs pool ! j))"
      unfolding new old base using here by fastforce
  qed
  moreover have "fst ` {r \<in> ?R. fst r \<noteq> p} \<subseteq> ran ((open_conns tr)(c := None))"
  proof
    fix q assume "q \<in> fst ` {r \<in> ?R. fst r \<noteq> p}"
    then obtain c' where "open_conns tr c' = Some q" "q \<noteq> p" using op by (auto simp: ran_def)
    then show "q \<in> ran ((open_conns tr)(c := None))" using p ok(2) by (intro ranI [of _ c']) auto
  qed
  ultimately show ?thesis
    using inv ev conns_ok_close [OF ok(1) ev look] by (simp add: pool_inv_def)
qed

text \<open>Posted closures run on the thread they are about.\<close>

lemma post_to_pool [simp]: "ps_pool (post_to s caller po) = ps_pool s"
  by (simp add: post_to_def Let_def)

lemma post_to_queue:
  "ps_queue (post_to s caller po) x =
     (if x = (post_evb po, lane_of caller (post_evb po)) then ps_queue s x @ [po] else ps_queue s x)"
  by (auto simp: post_to_def Let_def)

lemma post_to_ok:
  assumes "posts_ok evbs (ps_queue s)" "post_idx po < length evbs" "evbs ! post_idx po = post_evb po"
  shows "posts_ok evbs (ps_queue (post_to s caller po))"
  using assms by (auto simp: posts_ok_def post_to_queue)

lemma fold_post_ok:
  assumes "posts_ok evbs (ps_queue s)" "\<forall>po \<in> set pos. post_idx po < length evbs \<and> evbs ! post_idx po = post_evb po"
  shows "posts_ok evbs (ps_queue (fold (\<lambda>po s. post_to s caller po) pos s)) \<and>
    ps_pool (fold (\<lambda>po s. post_to s caller po) pos s) = ps_pool s"
  using assms by (induction pos arbitrary: s) (auto simp: post_to_ok)

lemma run_post_next:
  assumes "run_post pool po = (w, Some po')"
  obtains e i name number d where "po = PostServer e i name number d" "Suc i < length (pool_mgrs pool)"
    "po' = PostServer (io_event_base (pool_mgrs pool ! Suc i)) (Suc i) name number d" "w = []"
proof (cases po)
  case (PostServer e i name number d)
  then show ?thesis
    using assms that server_scan_miss [of "io_server_conns (pool_mgrs pool ! i)" name number d]
    by (auto simp: Pool_DispatchIOBufByIdx_def IOT_DispatchIOBufByServer_def Let_def split: if_splits prod.splits bool.splits)
qed (use assms in auto)

lemma run_turn_cases:
  assumes "run_turn s e l = Some (po, w, s')"
  obtains q nxt where "ps_queue s (e, l) = po # q" "run_post (ps_pool s) po = (w, nxt)" "ps_pool s' = ps_pool s"
    "s' = (case nxt of None \<Rightarrow> s\<lparr>ps_queue := (ps_queue s)((e, l) := q)\<rparr>
           | Some po' \<Rightarrow> post_to (s\<lparr>ps_queue := (ps_queue s)((e, l) := q)\<rparr>) (Some e) po')"
  using assms that by (auto simp: run_turn_def Let_def split: list.splits prod.splits option.splits)

lemma posts_ok_subset: "posts_ok evbs q \<Longrightarrow> (\<And>x. set (q' x) \<subseteq> set (q x)) \<Longrightarrow> posts_ok evbs q'"
  unfolding posts_ok_def by (meson subsetD)

lemma run_turn_ok:
  assumes "run_turn s e l = Some (po, w, s')" "posts_ok (evbs_of (ps_pool s)) (ps_queue s)"
  shows "posts_ok (evbs_of (ps_pool s)) (ps_queue s')"
proof -
  obtain q nxt where q: "ps_queue s (e, l) = po # q" and r: "run_post (ps_pool s) po = (w, nxt)"
    and s': "s' = (case nxt of None \<Rightarrow> s\<lparr>ps_queue := (ps_queue s)((e, l) := q)\<rparr>
           | Some po' \<Rightarrow> post_to (s\<lparr>ps_queue := (ps_queue s)((e, l) := q)\<rparr>) (Some e) po')"
    by (rule run_turn_cases [OF assms(1)])
  have ok: "posts_ok (evbs_of (ps_pool s)) (ps_queue (s\<lparr>ps_queue := (ps_queue s)((e, l) := q)\<rparr>))"
    by (simp, rule posts_ok_subset [OF assms(2)]) (use q in auto)
  show ?thesis
  proof (cases nxt)
    case (Some po')
    obtain i where "Suc i < length (pool_mgrs (ps_pool s))" "post_idx po' = Suc i"
      "post_evb po' = io_event_base (pool_mgrs (ps_pool s) ! Suc i)"
      by (rule run_post_next [OF r [unfolded Some]]) simp
    then show ?thesis unfolding s' Some option.case by (intro post_to_ok [OF ok]) simp_all
  qed (use s' ok in simp)
qed

lemma posts_wanted:
  "Pool_DispatchIOBufByConnID pool c d = Inr po \<Longrightarrow> post_idx po < length (pool_mgrs pool) \<and> evbs_of pool ! post_idx po = post_evb po"
  "Pool_DispatchIOBufByServer pool n k d = Inr po \<Longrightarrow> post_idx po < length (pool_mgrs pool) \<and> evbs_of pool ! post_idx po = post_evb po"
  "po \<in> set (Pool_BroadCast pool d) \<Longrightarrow> post_idx po < length (pool_mgrs pool) \<and> evbs_of pool ! post_idx po = post_evb po"
  by (auto simp: Pool_DispatchIOBufByConnID_def Pool_DispatchIOBufByServer_def Pool_BroadCast_def
      rbind_eq_Inr_iff vec_at_Inr_iff in_set_enumerate_eq)

lemma pool_inv_posts:
  assumes "pool_inv evb_of evbs tr s" "ps_pool s' = ps_pool s" "posts_ok evbs (ps_queue s')"
    "open_conns (tr @ [l]) = open_conns tr" "registrations (tr @ [l]) = registrations tr"
  shows "pool_inv evb_of evbs (tr @ [l]) s'"
  unfolding pool_inv_def assms(2,4,5) using assms(1,3) by (simp add: pool_inv_def)

lemma pool_inv_step:
  assumes inv: "pool_inv evb_of evbs tr s" and n: "length evbs \<le> 2 ^ 32" and d: "distinct evbs"
    and step: "pool_step sn evb_of s l s'"
  shows "pool_inv evb_of evbs (tr @ [l]) s'"
proof -
  have ev: "evbs_of (ps_pool s) = evbs" and len: "length (pool_mgrs (ps_pool s)) = length evbs"
    and q: "posts_ok evbs (ps_queue s)" using inv by (auto simp: pool_inv_def)
  note w = posts_wanted [where pool = "ps_pool s", unfolded ev len]
  from step show ?thesis
  proof cases
    case (opened p pool c)
    then show ?thesis using pool_inv_opened [OF inv n] by simp
  next
    case (registered p name number)
    then show ?thesis using pool_inv_registered [OF inv n d] by simp
  next
    case (closed c p pool b)
    then show ?thesis using pool_inv_closed [OF inv n d] by simp
  next
    case (to_conn c dd po caller)
    then show ?thesis using w(1) q by (intro pool_inv_posts [OF inv]) (simp_all add: post_to_ok)
  next
    case (to_server name number dd po caller)
    then show ?thesis using w(2) q by (intro pool_inv_posts [OF inv]) (simp_all add: post_to_ok)
  next
    case (to_all dd caller)
    then show ?thesis using w(3) fold_post_ok [OF q] by (intro pool_inv_posts [OF inv]) simp_all
  next
    case (ran e l po w)
    then show ?thesis
      using run_turn_ok [OF ran(2)] q run_turn_cases [OF ran(2)]
      by (intro pool_inv_posts [OF inv]) (auto simp: ev)
  qed
qed

lemma pool_inv_init:
  assumes "length evbs \<le> 2 ^ 32"
  shows "pool_inv evb_of evbs [] (pool_sys_init evbs fibers)"
  by (auto simp: pool_inv_def pool_sys_init_def new_IOThreadPoolConnManager_def new_IOThreadConnManager_def conns_ok_def
      servers_ok_def posts_ok_def pool_look_def IOT_FindPipeline_def fun_eq_iff nth_enumerate_eq
      intro!: nth_equalityI)

lemma pool_run_inv:
  assumes "run (pool_step sn evb_of) (pool_sys_init evbs fibers) tr s" "length evbs \<le> 2 ^ 32" "distinct evbs"
  shows "pool_inv evb_of evbs tr s"
  using assms(1)
proof (induction rule: run.induct)
  case run_nil
  show ?case by (rule pool_inv_init [OF assms(2)])
next
  case (run_snoc tr s l s')
  then show ?case using pool_inv_step [OF run_snoc.IH assms(2,3)] by blast
qed

section \<open>Counting searches\<close>

text \<open>A sum over the closures that are queued.\<close>

definition qsum :: "('e post \<Rightarrow> nat) \<Rightarrow> 'e list \<Rightarrow> ('e \<times> lane \<Rightarrow> 'e post list) \<Rightarrow> nat" where
  "qsum f evbs q = (\<Sum>x \<in> set evbs \<times> {OtherThread, OwnThread}. sum_list (map f (q x)))"

lemma lane_cases: "l \<in> {OtherThread, OwnThread}"
  by (cases l) simp_all

lemma qsum_upd:
  assumes "e \<in> set evbs"
  shows "qsum f evbs (q((e, l) := ps)) + sum_list (map f (q (e, l))) = qsum f evbs q + sum_list (map f ps)"
proof -
  let ?X = "set evbs \<times> {OtherThread, OwnThread}"
  have x: "finite ?X" "(e, l) \<in> ?X" using assms lane_cases [of l] by auto
  have "(\<Sum>x \<in> ?X - {(e, l)}. sum_list (map f ((q((e, l) := ps)) x))) = (\<Sum>x \<in> ?X - {(e, l)}. sum_list (map f (q x)))"
    by (rule sum.cong) auto
  then show ?thesis unfolding qsum_def sum.remove [OF x] by simp
qed

lemma qsum_zero:
  assumes "qsum f evbs q = 0" "e \<in> set evbs" "po \<in> set (q (e, l))"
  shows "f po = 0"
proof -
  have "(e, l) \<in> set evbs \<times> {OtherThread, OwnThread}" using assms(2) lane_cases [of l] by simp
  then have "sum_list (map f (q (e, l))) = 0" using assms(1) unfolding qsum_def by (simp only: sum_eq_0_iff finite_SigmaI finite_set finite.intros)
  then show ?thesis using assms(3) by (simp add: sum_list_eq_0_iff)
qed

lemma qsum_post_to:
  assumes "post_evb po \<in> set evbs"
  shows "qsum f evbs (ps_queue (post_to s caller po)) = qsum f evbs (ps_queue s) + f po"
  using qsum_upd [OF assms, of f "ps_queue s" "lane_of caller (post_evb po)"
      "ps_queue s (post_evb po, lane_of caller (post_evb po)) @ [po]"]
  by (simp add: post_to_def Let_def)

lemma qsum_fold_post:
  "\<forall>po \<in> set pos. post_evb po \<in> set evbs \<Longrightarrow>
   qsum f evbs (ps_queue (fold (\<lambda>po s. post_to s caller po) pos s)) = qsum f evbs (ps_queue s) + sum_list (map f pos)"
  by (induction pos arbitrary: s) (simp_all add: qsum_post_to)

lemma qsum_run_turn:
  assumes "run_turn s e l = Some (po, w, s')" "e \<in> set (evbs_of (ps_pool s))"
  shows "qsum f (evbs_of (ps_pool s)) (ps_queue s') + f po =
    qsum f (evbs_of (ps_pool s)) (ps_queue s) + (case snd (run_post (ps_pool s) po) of None \<Rightarrow> 0 | Some po' \<Rightarrow> f po')"
proof -
  let ?evbs = "evbs_of (ps_pool s)"
  obtain q nxt where q: "ps_queue s (e, l) = po # q" and r: "run_post (ps_pool s) po = (w, nxt)"
    and s': "s' = (case nxt of None \<Rightarrow> s\<lparr>ps_queue := (ps_queue s)((e, l) := q)\<rparr>
           | Some po' \<Rightarrow> post_to (s\<lparr>ps_queue := (ps_queue s)((e, l) := q)\<rparr>) (Some e) po')"
    by (rule run_turn_cases [OF assms(1)])
  have pop: "qsum f ?evbs ((ps_queue s)((e, l) := q)) + f po = qsum f ?evbs (ps_queue s)"
    using qsum_upd [OF assms(2), of f "ps_queue s" l q] q by simp
  show ?thesis
  proof (cases nxt)
    case None
    then show ?thesis using pop s' r by simp
  next
    case (Some po')
    obtain i where "Suc i < length (pool_mgrs (ps_pool s))" "post_evb po' = io_event_base (pool_mgrs (ps_pool s) ! Suc i)"
      by (rule run_post_next [OF r [unfolded Some]]) simp
    then have "post_evb po' \<in> set ?evbs" by simp
    then show ?thesis using pop s' r Some by (simp add: qsum_post_to)
  qed
qed

fun searches :: "string \<Rightarrow> u32 \<Rightarrow> iobuf \<Rightarrow> 'e post \<Rightarrow> bool" where
  "searches name number d (PostServer e i n k d') \<longleftrightarrow> n = name \<and> k = number \<and> d' = d"
| "searches name number d _ \<longleftrightarrow> False"

text \<open>The searches under way, and the hops they can still make.\<close>

definition searching :: "string \<Rightarrow> u32 \<Rightarrow> iobuf \<Rightarrow> ('e, 'p) pool_sys \<Rightarrow> nat" where
  "searching name number d s =
     qsum (\<lambda>po. if searches name number d po then 1 else 0) (evbs_of (ps_pool s)) (ps_queue s)"

definition hops_left :: "string \<Rightarrow> u32 \<Rightarrow> iobuf \<Rightarrow> ('e, 'p) pool_sys \<Rightarrow> nat" where
  "hops_left name number d s =
     qsum (\<lambda>po. if searches name number d po then length (pool_mgrs (ps_pool s)) - post_idx po else 0)
       (evbs_of (ps_pool s)) (ps_queue s)"

text \<open>What the labels say of them: those begun, their hops, those that wrote and those that gave up.\<close>

fun begun_of :: "string \<Rightarrow> u32 \<Rightarrow> iobuf \<Rightarrow> ('e, 'p) pool_label \<Rightarrow> bool" where
  "begun_of name number d (ToServer n k d') \<longleftrightarrow> n = name \<and> k = number \<and> d' = d"
| "begun_of name number d _ \<longleftrightarrow> False"

fun hop_of :: "string \<Rightarrow> u32 \<Rightarrow> iobuf \<Rightarrow> ('e, 'p) pool_label \<Rightarrow> bool" where
  "hop_of name number d (Ran po w) \<longleftrightarrow> searches name number d po"
| "hop_of name number d _ \<longleftrightarrow> False"

fun found_of :: "string \<Rightarrow> u32 \<Rightarrow> iobuf \<Rightarrow> ('e, 'p) pool_label \<Rightarrow> bool" where
  "found_of name number d (Ran po w) \<longleftrightarrow> searches name number d po \<and> (\<exists>p. w = [(p, d)])"
| "found_of name number d _ \<longleftrightarrow> False"

fun gave_up_of :: "nat \<Rightarrow> string \<Rightarrow> u32 \<Rightarrow> iobuf \<Rightarrow> ('e, 'p) pool_label \<Rightarrow> bool" where
  "gave_up_of N name number d (Ran po w) \<longleftrightarrow> searches name number d po \<and> w = [] \<and> Suc (post_idx po) = N"
| "gave_up_of N name number d _ \<longleftrightarrow> False"

definition count :: "('l \<Rightarrow> bool) \<Rightarrow> 'l list \<Rightarrow> nat" where
  "count P tr = length (filter P tr)"

lemma count_simps [simp]:
  "count P [] = 0" "count P (tr @ [l]) = count P tr + (if P l then 1 else 0)"
  by (simp_all add: count_def)

lemma server_scan_found:
  "server_scan cs n k d = ([], False) \<and> (\<forall>v \<in> set cs. \<not> (ServerConnInfo_Equals v n k \<and> sc_pipeline v \<noteq> None)) \<or>
   (\<exists>v \<in> set cs. ServerConnInfo_Equals v n k \<and> sc_pipeline v \<noteq> None \<and>
      server_scan cs n k d = ([(the (sc_pipeline v), d)], True))"
  by (induction cs) (auto split: option.splits)

text \<open>One hop of a search.\<close>

lemma hop_cases:
  assumes "run_post pool (PostServer e i n k d) = (w, nxt)" "i < length (pool_mgrs pool)"
  obtains (found) v where "v \<in> set (io_server_conns (pool_mgrs pool ! i))" "ServerConnInfo_Equals v n k"
      "sc_pipeline v \<noteq> None" "w = [(the (sc_pipeline v), d)]" "nxt = None"
  | (on) "w = []" "Suc i < length (pool_mgrs pool)"
      "nxt = Some (PostServer (io_event_base (pool_mgrs pool ! Suc i)) (Suc i) n k d)"
      "\<forall>v \<in> set (io_server_conns (pool_mgrs pool ! i)). \<not> (ServerConnInfo_Equals v n k \<and> sc_pipeline v \<noteq> None)"
  | (gave_up) "w = []" "Suc i = length (pool_mgrs pool)" "nxt = None"
      "\<forall>v \<in> set (io_server_conns (pool_mgrs pool ! i)). \<not> (ServerConnInfo_Equals v n k \<and> sc_pipeline v \<noteq> None)"
proof -
  consider (a) v where "v \<in> set (io_server_conns (pool_mgrs pool ! i))" "ServerConnInfo_Equals v n k" "sc_pipeline v \<noteq> None"
      "server_scan (io_server_conns (pool_mgrs pool ! i)) n k d = ([(the (sc_pipeline v), d)], True)"
    | (b) "server_scan (io_server_conns (pool_mgrs pool ! i)) n k d = ([], False)"
      "\<forall>v \<in> set (io_server_conns (pool_mgrs pool ! i)). \<not> (ServerConnInfo_Equals v n k \<and> sc_pipeline v \<noteq> None)"
    using server_scan_found [of "io_server_conns (pool_mgrs pool ! i)" n k d] by blast
  then show ?thesis
  proof cases
    case (a v)
    then show ?thesis using assms by (intro found [of v]) (simp_all add: Pool_DispatchIOBufByIdx_def IOT_DispatchIOBufByServer_def)
  next
    case b
    show ?thesis
    proof (cases "Suc i < length (pool_mgrs pool)")
      case True
      then show ?thesis using assms b by (intro on) (simp_all add: Pool_DispatchIOBufByIdx_def IOT_DispatchIOBufByServer_def)
    next
      case False
      then show ?thesis using assms b by (intro gave_up) (simp_all add: Pool_DispatchIOBufByIdx_def IOT_DispatchIOBufByServer_def)
    qed
  qed
qed

lemma search_posted:
  assumes "searches name number d po" "post_evb po = e" "post_idx po = i"
  shows "po = PostServer e i name number d"
  using assms by (cases po) auto

text \<open>How one step changes what is under way.\<close>

lemma search_step:
  assumes inv: "pool_inv evb_of evbs tr s" and n: "length evbs \<le> 2 ^ 32" and d: "distinct evbs"
    and step: "pool_step sn evb_of s l s'"
  defines "b \<equiv> \<lambda>P. if P then 1 else (0 :: nat)" and "N \<equiv> length evbs"
  shows "b (found_of name number dat l) + b (gave_up_of N name number dat l) + searching name number dat s' =
      b (begun_of name number dat l) + searching name number dat s"
    and "b (hop_of name number dat l) + hops_left name number dat s' \<le>
      N * b (begun_of name number dat l) + hops_left name number dat s"
proof -
  let ?f = "\<lambda>po :: 'b post. if searches name number dat po then 1 else (0 :: nat)"
    and ?g = "\<lambda>po :: 'b post. if searches name number dat po then N - post_idx po else 0"
  have ev: "evbs_of (ps_pool s) = evbs" "length (pool_mgrs (ps_pool s)) = N" and q: "posts_ok evbs (ps_queue s)"
    using inv by (auto simp: pool_inv_def N_def)
  have ev': "evbs_of (ps_pool s') = evbs" "length (pool_mgrs (ps_pool s')) = N"
    using pool_inv_step [OF inv n d step] by (auto simp: pool_inv_def N_def)
  have S: "searching name number dat s = qsum ?f evbs (ps_queue s)" "hops_left name number dat s = qsum ?g evbs (ps_queue s)"
    "searching name number dat s' = qsum ?f evbs (ps_queue s')" "hops_left name number dat s' = qsum ?g evbs (ps_queue s')"
    unfolding searching_def hops_left_def ev ev' by (rule refl)+
  have wanted: "post_evb po \<in> set evbs" if "post_idx po < N \<and> evbs ! post_idx po = post_evb po" for po
    using that by (metis N_def nth_mem)
  note w = posts_wanted [where pool = "ps_pool s", unfolded ev, THEN wanted]
  have "b (found_of name number dat l) + b (gave_up_of N name number dat l) + searching name number dat s' =
      b (begun_of name number dat l) + searching name number dat s \<and>
      b (hop_of name number dat l) + hops_left name number dat s' \<le>
      N * b (begun_of name number dat l) + hops_left name number dat s"
    using step
  proof cases
    case (to_conn c dd po caller)
    then have "\<not> searches name number dat po"
      by (auto simp: Pool_DispatchIOBufByConnID_def rbind_eq_Inr_iff)
    then show ?thesis unfolding S using to_conn qsum_post_to [OF w(1) [OF to_conn(3)], where s = s] by (simp add: b_def)
  next
    case (to_server nm nr dd po caller)
    then obtain e0 where "po = PostServer e0 0 nm nr dd"
      by (auto simp: Pool_DispatchIOBufByServer_def rbind_eq_Inr_iff)
    then have "searches name number dat po = begun_of name number dat l" "post_idx po = 0"
      using to_server(1) by simp_all
    then show ?thesis unfolding S using to_server qsum_post_to [OF w(2) [OF to_server(3)], where s = s] by (simp add: b_def)
  next
    case (to_all dd caller)
    have "\<forall>po \<in> set (Pool_BroadCast (ps_pool s) dd). \<not> searches name number dat po"
      by (auto simp: Pool_BroadCast_def)
    then have zero: "sum_list (map ?f (Pool_BroadCast (ps_pool s) dd)) = 0"
      "sum_list (map ?g (Pool_BroadCast (ps_pool s) dd)) = 0"
      by simp_all
    have Q: "qsum f evbs (ps_queue s') = qsum f evbs (ps_queue s) + sum_list (map f (Pool_BroadCast (ps_pool s) dd))" for f
      unfolding to_all(2) by (rule qsum_fold_post) (use w(3) in blast)
    show ?thesis unfolding S Q zero to_all(1) by (simp add: b_def)
  next
    case (ran e la po ws)
    obtain qq nxt where qe: "ps_queue s (e, la) = po # qq" and r: "run_post (ps_pool s) po = (ws, nxt)"
      by (rule run_turn_cases [OF ran(2)])
    have po: "post_evb po = e" "post_idx po < N" "evbs ! post_idx po = e"
      using q qe unfolding posts_ok_def N_def by (metis list.set_intros(1))+
    then have e: "e \<in> set (evbs_of (ps_pool s))" using wanted [of po] ev by simp
    note turn = qsum_run_turn [OF ran(2) e, unfolded ev r snd_conv]
    show ?thesis
    proof (cases "searches name number dat po")
      case False
      have "nxt = None \<or> (\<exists>po'. nxt = Some po' \<and> \<not> searches name number dat po')"
        using r False by (cases nxt) (auto elim: run_post_next)
      then show ?thesis unfolding S using turn [of ?f] turn [of ?g] ran(1) False by (auto simp: b_def)
    next
      case True
      then have "po = PostServer e (post_idx po) name number dat" using po by (intro search_posted) simp_all
      then obtain i where i: "po = PostServer e i name number dat" "i < N" using po by metis
      from r i ev(2) have "run_post (ps_pool s) (PostServer e i name number dat) = (ws, nxt)"
        "i < length (pool_mgrs (ps_pool s))" by simp_all
      then show ?thesis
      proof (cases rule: hop_cases)
        case (found v)
        then show ?thesis unfolding S using turn [of ?f] turn [of ?g] ran(1) i by (simp add: b_def)
      next
        case on
        then show ?thesis unfolding S using turn [of ?f] turn [of ?g] ran(1) i ev(2) by (simp add: b_def)
      next
        case gave_up
        then show ?thesis unfolding S using turn [of ?f] turn [of ?g] ran(1) i ev(2) by (simp add: b_def)
      qed
    qed
  next
    case (opened p pool c)
    show ?thesis unfolding S unfolding opened(1,2) by (simp add: b_def)
  next
    case (registered p nm nr)
    show ?thesis unfolding S unfolding registered(1,2) by (simp add: b_def)
  next
    case (closed c p pool r)
    show ?thesis unfolding S unfolding closed(1,2) by (simp add: b_def)
  qed
  then show "b (found_of name number dat l) + b (gave_up_of N name number dat l) + searching name number dat s' =
      b (begun_of name number dat l) + searching name number dat s"
    "b (hop_of name number dat l) + hops_left name number dat s' \<le>
      N * b (begun_of name number dat l) + hops_left name number dat s" by blast+
qed

lemma search_run:
  assumes "run (pool_step sn evb_of) (pool_sys_init evbs fibers) tr1 s1" "length evbs \<le> 2 ^ 32" "distinct evbs"
    and "run (pool_step sn evb_of) s1 tr2 s2"
  shows "count (found_of name number d) tr2 + count (gave_up_of (length evbs) name number d) tr2 + searching name number d s2 =
      count (begun_of name number d) tr2 + searching name number d s1 \<and>
    count (hop_of name number d) tr2 + hops_left name number d s2 \<le>
      length evbs * count (begun_of name number d) tr2 + hops_left name number d s1"
  using assms(4)
proof (induction rule: run.induct)
  case run_nil
  show ?case by simp
next
  case (run_snoc tr s l s')
  have "pool_inv evb_of evbs (tr1 @ tr) s"
    by (rule pool_run_inv [OF run_trans [OF run_snoc.hyps(1) assms(1)] assms(2,3)])
  from search_step [OF this assms(2,3) run_snoc.hyps(2), of name number d] run_snoc.IH show ?case
    by (auto split: if_splits)
qed

lemma pool_invD:
  assumes "pool_inv evb_of evbs tr s"
  shows "length (pool_mgrs (ps_pool s)) = length evbs" "posts_ok evbs (ps_queue s)"
    "conns_ok evb_of (open_conns tr) (ps_pool s)" "servers_ok evb_of (registrations tr) (ps_pool s)"
    "fst ` registrations tr \<subseteq> ran (open_conns tr)"
    "i < length evbs \<Longrightarrow> io_event_base (pool_mgrs (ps_pool s) ! i) = evbs ! i"
  using assms by (auto simp: pool_inv_def)

lemma posts_okD:
  assumes "posts_ok evbs q" "po \<in> set (q (e, l))"
  shows "post_evb po = e" "post_idx po < length evbs" "evbs ! post_idx po = e"
  using assms unfolding posts_ok_def by simp_all

lemma registered_is_open:
  assumes "pool_inv evb_of evbs tr s" "(p, name, number) \<in> registrations tr"
  obtains c where "open_conns tr c = Some p" "pool_look (ps_pool s) c = Some p"
    "unat (id_hi c) < length evbs" "evbs ! unat (id_hi c) = evb_of p"
proof -
  have "p \<in> ran (open_conns tr)" using pool_invD(5) [OF assms(1)] assms(2) by force
  then obtain c where c: "open_conns tr c = Some p" by (auto simp: ran_def)
  have ok: "conns_ok evb_of (open_conns tr) (ps_pool s)" by (rule pool_invD(3) [OF assms(1)])
  then have look: "pool_look (ps_pool s) c = Some p" using c unfolding conns_ok_def by metis
  then have hi: "unat (id_hi c) < length evbs" using pool_invD(1) [OF assms(1)] by (simp add: pool_look_at)
  have "io_event_base (pool_mgrs (ps_pool s) ! unat (id_hi c)) = evb_of p" by (rule conns_ok_base [OF ok refl c])
  then show ?thesis using that c look hi pool_invD(6) [OF assms(1) hi] by simp
qed

lemma searching_none:
  assumes "pool_inv evb_of evbs tr s" "searching name number d s = 0"
  shows "po \<in> set (ps_queue s (e, l)) \<Longrightarrow> \<not> searches name number d po" "hops_left name number d s = 0"
proof -
  have none: "\<not> searches name number d po" if "po \<in> set (ps_queue s (e, l))" for po e l
  proof
    assume po: "searches name number d po"
    note po_at = posts_okD [OF pool_invD(2) [OF assms(1)] that]
    have ev: "evbs_of (ps_pool s) = evbs" using assms(1) by (simp add: pool_inv_def)
    have e: "e \<in> set evbs" using po_at nth_mem by metis
    have "(if searches name number d po then 1 else 0) = (0 :: nat)"
      by (rule qsum_zero [OF assms(2) [unfolded searching_def ev] e that])
    then show False using po by simp
  qed
  then show "po \<in> set (ps_queue s (e, l)) \<Longrightarrow> \<not> searches name number d po" by blast
  have "sum_list (map (\<lambda>po. if searches name number d po then length (pool_mgrs (ps_pool s)) - post_idx po else 0)
      (ps_queue s x)) = 0" for x
    using none [of _ "fst x" "snd x"] by (simp add: sum_list_eq_0_iff)
  then show "hops_left name number d s = 0" by (simp add: hops_left_def qsum_def)
qed

text \<open>Searches have not gone past the thread of a pipeline that is registered for them.\<close>

definition before_thread :: "nat \<Rightarrow> string \<Rightarrow> u32 \<Rightarrow> iobuf \<Rightarrow> ('e, 'p) pool_sys \<Rightarrow> bool" where
  "before_thread j name number d s \<longleftrightarrow>
     (\<forall>x. \<forall>po \<in> set (ps_queue s x). searches name number d po \<longrightarrow> post_idx po \<le> j)"

lemma before_thread_post_to:
  "before_thread j name number d s \<Longrightarrow> searches name number d po \<longrightarrow> post_idx po \<le> j \<Longrightarrow>
   before_thread j name number d (post_to s caller po)"
  by (auto simp: before_thread_def post_to_queue)

lemma before_thread_fold:
  "before_thread j name number d s \<Longrightarrow> \<forall>po \<in> set pos. \<not> searches name number d po \<Longrightarrow>
   before_thread j name number d (fold (\<lambda>po s. post_to s caller po) pos s)"
  by (induction pos arbitrary: s) (auto intro: before_thread_post_to)

lemma before_thread_step:
  assumes inv: "pool_inv evb_of evbs tr s" and step: "pool_step sn evb_of s l s'"
    and bt: "before_thread j name number d s"
    and j: "j < length evbs" "evbs ! j = evb_of p" "(p, name, number) \<in> registrations tr"
  shows "before_thread j name number d s' \<and> \<not> gave_up_of (length evbs) name number d l"
  using step
proof cases
  case (to_conn c dd po caller)
  then have "\<not> searches name number d po" by (auto simp: Pool_DispatchIOBufByConnID_def rbind_eq_Inr_iff)
  then show ?thesis using to_conn bt by (simp add: before_thread_post_to)
next
  case (to_server nm nr dd po caller)
  then have "post_idx po = 0" by (auto simp: Pool_DispatchIOBufByServer_def rbind_eq_Inr_iff)
  then show ?thesis using to_server bt by (simp add: before_thread_post_to)
next
  case (to_all dd caller)
  have "\<forall>po \<in> set (Pool_BroadCast (ps_pool s) dd). \<not> searches name number d po" by (auto simp: Pool_BroadCast_def)
  then show ?thesis using to_all bt by (simp add: before_thread_fold)
next
  case (ran e la po w)
  obtain q nxt where qe: "ps_queue s (e, la) = po # q" and r: "run_post (ps_pool s) po = (w, nxt)"
    and s': "s' = (case nxt of None \<Rightarrow> s\<lparr>ps_queue := (ps_queue s)((e, la) := q)\<rparr>
           | Some po' \<Rightarrow> post_to (s\<lparr>ps_queue := (ps_queue s)((e, la) := q)\<rparr>) (Some e) po')"
    by (rule run_turn_cases [OF ran(2)])
  have bt1: "before_thread j name number d (s\<lparr>ps_queue := (ps_queue s)((e, la) := q)\<rparr>)"
    unfolding before_thread_def
  proof
    fix x
    have "set (((ps_queue s)((e, la) := q)) x) \<subseteq> set (ps_queue s x)" using qe by auto
    then show "\<forall>po \<in> set (ps_queue (s\<lparr>ps_queue := (ps_queue s)((e, la) := q)\<rparr>) x).
        searches name number d po \<longrightarrow> post_idx po \<le> j"
      using bt unfolding before_thread_def by (metis pool_sys.select_convs(2) pool_sys.surjective pool_sys.update_convs(2) subsetD)
  qed
  have len: "length (pool_mgrs (ps_pool s)) = length evbs" using inv by (auto simp: pool_inv_def)
  show ?thesis
  proof (cases "searches name number d po")
    case False
    have "nxt = None \<or> (\<exists>po'. nxt = Some po' \<and> \<not> searches name number d po')"
      using r False by (cases nxt) (auto elim: run_post_next)
    then show ?thesis using s' bt1 False ran(1) by (auto simp: before_thread_post_to)
  next
    case True
    have "post_evb po = e" "post_idx po < length evbs"
      using posts_okD [OF pool_invD(2) [OF inv], of po e la] qe by simp_all
    moreover have "post_idx po \<le> j" using bt qe True unfolding before_thread_def by (metis list.set_intros(1))
    ultimately obtain i where i: "po = PostServer e i name number d" "i < length evbs" "i \<le> j"
      using search_posted [OF True] by blast
    have here: "\<exists>v \<in> set (io_server_conns (pool_mgrs (ps_pool s) ! i)). ServerConnInfo_Equals v name number \<and> sc_pipeline v \<noteq> None"
      if "i = j"
    proof (rule bexI)
      let ?v = "\<lparr>sc_server_name = name, sc_server_number = number, sc_pipeline = Some p\<rparr>"
      show "ServerConnInfo_Equals ?v name number \<and> sc_pipeline ?v \<noteq> None" by (simp add: ServerConnInfo_Equals_def)
      have "io_event_base (pool_mgrs (ps_pool s) ! j) = evb_of p" using pool_invD(6) [OF inv j(1)] j(2) by simp
      then show "?v \<in> set (io_server_conns (pool_mgrs (ps_pool s) ! i))"
        using pool_invD(4) [OF inv] j len that by (simp add: servers_ok_def)
    qed
    from r i len have "run_post (ps_pool s) (PostServer e i name number d) = (w, nxt)"
      "i < length (pool_mgrs (ps_pool s))" by simp_all
    then show ?thesis
    proof (cases rule: hop_cases)
      case (found v)
      then show ?thesis using s' bt1 ran(1) by simp
    next
      case on
      then have "i \<noteq> j" using here by blast
      then show ?thesis using s' bt1 ran(1) on i by (simp add: before_thread_post_to len)
    next
      case gave_up
      then have "i \<noteq> j" using here by blast
      then show ?thesis using gave_up(2) i j(1) len by linarith
    qed
  qed
qed (use bt in \<open>simp_all add: before_thread_def\<close>)

lemma registration_kept:
  assumes "(p, name, number) \<in> registrations tr" "\<forall>c. PoolClosed c p \<noteq> l"
  shows "(p, name, number) \<in> registrations (tr @ [l])"
  using assms by (cases l) auto

lemma search_not_given_up:
  assumes r1: "run (pool_step sn evb_of) (pool_sys_init evbs fibers) tr1 s1" and n: "length evbs \<le> 2 ^ 32"
    and d: "distinct evbs" and r2: "run (pool_step sn evb_of) s1 tr2 s2"
    and p: "(p, name, number) \<in> registrations tr1" "\<forall>c. PoolClosed c p \<notin> set tr2"
    and none: "searching name number dat s1 = 0"
  shows "count (gave_up_of (length evbs) name number dat) tr2 = 0"
proof -
  have inv: "pool_inv evb_of evbs tr1 s1" by (rule pool_run_inv [OF r1 n d])
  obtain c where c: "unat (id_hi c) < length evbs" "evbs ! unat (id_hi c) = evb_of p"
    by (rule registered_is_open [OF inv p(1)])
  define j where "j = unat (id_hi c)"
  have j: "j < length evbs" and jp: "evbs ! j = evb_of p" using c by (simp_all add: j_def)
  have "count (gave_up_of (length evbs) name number dat) tr2 = 0 \<and> (p, name, number) \<in> registrations (tr1 @ tr2) \<and>
    before_thread j name number dat s2"
    using r2 p(2)
  proof (induction rule: run.induct)
    case run_nil
    show ?case using p(1) searching_none(1) [OF inv none] by (auto simp: before_thread_def)
  next
    case (run_snoc tr s l s')
    have "pool_inv evb_of evbs (tr1 @ tr) s" by (rule pool_run_inv [OF run_trans [OF run_snoc.hyps(1) r1] n d])
    then show ?case
      using before_thread_step [OF _ run_snoc.hyps(2) _ j jp] run_snoc.IH run_snoc.prems
        registration_kept [of p name number "tr1 @ tr" l] by auto
  qed
  then show ?thesis by blast
qed

section \<open>Who is written to\<close>

lemma thread_conns:
  assumes inv: "pool_inv evb_of evbs tr s" and n: "length evbs \<le> 2 ^ 32" and d: "distinct evbs" and i: "i < length evbs"
  shows "(\<exists>k. io_pipelines (pool_mgrs (ps_pool s) ! i) k = Some p) \<longleftrightarrow> p \<in> ran (open_conns tr) \<and> evb_of p = evbs ! i"
proof
  have ok: "conns_ok evb_of (open_conns tr) (ps_pool s)" and look: "pool_look (ps_pool s) = open_conns tr"
    using pool_invD(3) [OF inv] by (simp_all add: conns_ok_def)
  have il: "i < length (pool_mgrs (ps_pool s))" "length (pool_mgrs (ps_pool s)) \<le> 2 ^ 32"
    using pool_invD(1) [OF inv] i n by simp_all
  {
    assume "\<exists>k. io_pipelines (pool_mgrs (ps_pool s) ! i) k = Some p"
    then obtain k where "io_pipelines (pool_mgrs (ps_pool s) ! i) k = Some p" by blast
    then have "open_conns tr (pack_id (word_of_nat i) k) = Some p"
      unfolding look [symmetric] pool_look_at using pack_index(1,2) [OF il] il by simp
    with conns_ok_base [OF ok refl this] pack_index(1) [OF il] pool_invD(6) [OF inv i]
    show "p \<in> ran (open_conns tr) \<and> evb_of p = evbs ! i" by (auto intro: ranI)
  next
    assume p: "p \<in> ran (open_conns tr) \<and> evb_of p = evbs ! i"
    then obtain c where c: "open_conns tr c = Some p" by (auto simp: ran_def)
    then have "unat (id_hi c) < length evbs" "io_pipelines (pool_mgrs (ps_pool s) ! unat (id_hi c)) (id_lo c) = Some p"
      using pool_invD(1) [OF inv] by (simp_all add: look [symmetric] pool_look_at)
    moreover from this have "evbs ! unat (id_hi c) = evbs ! i"
      using conns_ok_base [OF ok refl c] p pool_invD(6) [OF inv] by simp
    ultimately show "\<exists>k. io_pipelines (pool_mgrs (ps_pool s) ! i) k = Some p"
      using d i by (auto simp: nth_eq_iff_index_eq)
  }
qed

text \<open>What a closure must write, by what the labels before it say.\<close>

definition written_by :: "('p \<Rightarrow> 'e) \<Rightarrow> ('e, 'p) pool_label list \<Rightarrow> 'e post \<Rightarrow> ('p \<times> iobuf) list \<Rightarrow> bool" where
  "written_by evb_of tr po w \<longleftrightarrow>
     (case po of
        PostConn e i k d \<Rightarrow>
          w = (case open_conns tr (pack_id (word_of_nat i) k) of Some p \<Rightarrow> [(p, d)] | None \<Rightarrow> [])
      | PostServer e i name number d \<Rightarrow>
          (if \<exists>p. (p, name, number) \<in> registrations tr \<and> evb_of p = e
           then \<exists>p. w = [(p, d)] \<and> (p, name, number) \<in> registrations tr \<and> evb_of p = e \<and> p \<in> ran (open_conns tr)
           else w = [])
      | PostBroadCast e i d \<Rightarrow>
          distinct (map fst w) \<and> set w = {(p, d) |p. p \<in> ran (open_conns tr) \<and> evb_of p = e})"

lemma broadcast_written:
  assumes inv: "pool_inv evb_of evbs tr s" and n: "length evbs \<le> 2 ^ 32" and d: "distinct evbs"
    and i: "i < length evbs" "evbs ! i = e"
  shows "written_by evb_of tr (PostBroadCast e i dat) (IOT_BroadCast (pool_mgrs (ps_pool s) ! i) dat)"
proof -
  let ?m = "io_pipelines (pool_mgrs (ps_pool s) ! i)"
  have look: "pool_look (ps_pool s) = open_conns tr" and inj: "\<And>c c' p. open_conns tr c = Some p \<Longrightarrow> open_conns tr c' = Some p \<Longrightarrow> c = c'"
    using pool_invD(3) [OF inv] unfolding conns_ok_def by blast+
  have il: "i < length (pool_mgrs (ps_pool s))" "length (pool_mgrs (ps_pool s)) \<le> 2 ^ 32"
    using pool_invD(1) [OF inv] i n by simp_all
  have at: "open_conns tr (pack_id (word_of_nat i) k) = ?m k" for k
    unfolding look [symmetric] pool_look_def IOT_FindPipeline_def using pack_index(1,2) [OF il] il by simp
  have "inj_on (\<lambda>k. the (?m k)) (dom ?m)"
  proof (rule inj_onI)
    fix k k' assume "k \<in> dom ?m" "k' \<in> dom ?m" "the (?m k) = the (?m k')"
    then have "pack_id (word_of_nat i) k = pack_id (word_of_nat i) k'"
      using inj [of "pack_id (word_of_nat i) k" "the (?m k)" "pack_id (word_of_nat i) k'"] by (auto simp: at)
    then show "k = k'" by (metis id_lo_pack_id)
  qed
  then have "distinct (map (\<lambda>k. the (?m k)) (sorted_list_of_set (dom ?m)))" by (simp add: distinct_map)
  moreover have "set (IOT_BroadCast (pool_mgrs (ps_pool s) ! i) dat) = {(p, dat) |p. \<exists>k. ?m k = Some p}"
    by (force simp: IOT_BroadCast_def)
  ultimately show ?thesis
    unfolding written_by_def by (simp add: thread_conns [OF inv n d i(1)] i(2) IOT_BroadCast_def comp_def)
qed

lemma server_written:
  assumes inv: "pool_inv evb_of evbs tr s" and i: "i < length evbs" "evbs ! i = e"
    and r: "run_post (ps_pool s) (PostServer e i name number dat) = (w, nxt)"
  shows "written_by evb_of tr (PostServer e i name number dat) w"
proof -
  have il: "i < length (pool_mgrs (ps_pool s))" using pool_invD(1) [OF inv] i by simp
  have sv: "v \<in> set (io_server_conns (pool_mgrs (ps_pool s) ! i)) \<longleftrightarrow>
      (\<exists>p. sc_pipeline v = Some p \<and> (p, sc_server_name v, sc_server_number v) \<in> registrations tr \<and> evb_of p = e)" for v
    using pool_invD(4) [OF inv] pool_invD(6) [OF inv i(1)] il i(2) unfolding servers_ok_def by simp
  have open': "p \<in> ran (open_conns tr)" if "(p, name, number) \<in> registrations tr" for p
    using pool_invD(5) [OF inv] that by force
  have no: "\<not> (\<exists>p. (p, name, number) \<in> registrations tr \<and> evb_of p = e)"
    if "\<forall>v \<in> set (io_server_conns (pool_mgrs (ps_pool s) ! i)). \<not> (ServerConnInfo_Equals v name number \<and> sc_pipeline v \<noteq> None)"
  proof
    assume "\<exists>p. (p, name, number) \<in> registrations tr \<and> evb_of p = e"
    then obtain p where "(p, name, number) \<in> registrations tr" "evb_of p = e" by blast
    then have "\<lparr>sc_server_name = name, sc_server_number = number, sc_pipeline = Some p\<rparr> \<in>
        set (io_server_conns (pool_mgrs (ps_pool s) ! i))" by (simp add: sv)
    with that show False by (fastforce simp: ServerConnInfo_Equals_def)
  qed
  from r il show ?thesis
  proof (cases rule: hop_cases)
    case (found v)
    then obtain p where p: "sc_pipeline v = Some p" "(p, name, number) \<in> registrations tr" "evb_of p = e"
      by (auto simp: sv ServerConnInfo_Equals_def)
    then have ex: "\<exists>p. (p, name, number) \<in> registrations tr \<and> evb_of p = e" by blast
    show ?thesis unfolding written_by_def post.case if_P [OF ex]
      using p found(4) open' by (intro exI [of _ p]) simp
  next
    case on
    from no [OF on(4)] on(1) show ?thesis by (auto simp: written_by_def)
  next
    case gave_up
    from no [OF gave_up(4)] gave_up(1) show ?thesis by (auto simp: written_by_def)
  qed
qed

lemma turn_written:
  assumes inv: "pool_inv evb_of evbs tr s" and n: "length evbs \<le> 2 ^ 32" and d: "distinct evbs"
    and t: "run_turn s e l = Some (po, w, s')"
  shows "written_by evb_of tr po w"
proof -
  obtain q nxt where qe: "ps_queue s (e, l) = po # q" and r: "run_post (ps_pool s) po = (w, nxt)"
    by (rule run_turn_cases [OF t])
  have po: "post_evb po = e" "post_idx po < length evbs" "evbs ! post_idx po = e"
    using posts_okD [OF pool_invD(2) [OF inv], of po e l] qe by simp_all
  show ?thesis
  proof (cases po)
    case (PostConn e' i k dat)
    have il: "i < length (pool_mgrs (ps_pool s))" "length (pool_mgrs (ps_pool s)) \<le> 2 ^ 32"
      using pool_invD(1) [OF inv] po n PostConn by simp_all
    have look: "pool_look (ps_pool s) = open_conns tr" using pool_invD(3) [OF inv] by (simp add: conns_ok_def)
    have "open_conns tr (pack_id (word_of_nat i) k) = io_pipelines (pool_mgrs (ps_pool s) ! i) k"
      unfolding look [symmetric] pool_look_def IOT_FindPipeline_def using pack_index(1,2) [OF il] il by simp
    then show ?thesis using r PostConn by (auto simp: written_by_def IOT_DispatchIOBufByConnID_def split: option.splits)
  next
    case (PostServer e' i name number dat)
    then show ?thesis using server_written [OF inv, of i e name number dat w nxt] po r by simp
  next
    case (PostBroadCast e' i dat)
    then show ?thesis using broadcast_written [OF inv n d, of i e dat] po r by simp
  qed
qed

section \<open>Fresh ids\<close>

definition opens :: "('e, 'p) pool_label list \<Rightarrow> nat" where
  "opens tr = count (\<lambda>l. \<exists>p c. l = PoolOpened p c) tr"

definition numbers_ok :: "('e, 'p) pool_label list \<Rightarrow> nat \<Rightarrow> ('e, 'p) io_conn_mgr \<Rightarrow> bool" where
  "numbers_ok tr i m \<longleftrightarrow>
     unat (io_current_conn_id m) \<le> opens tr \<and>
     (\<forall>k. io_pipelines m k \<noteq> None \<longrightarrow> unat k \<le> unat (io_current_conn_id m)) \<and>
     (\<forall>p c. PoolOpened p c \<in> set tr \<longrightarrow> unat (id_hi c) = i \<longrightarrow> unat (id_lo c) \<le> unat (io_current_conn_id m))"

lemma IOT_next_number:
  assumes "numbers_ok tr i m" "opens tr < 2 ^ 32 - 1" "IOT_OnNewConnection sn m p = Some (m', k)"
  shows "k = io_current_conn_id m + 1" "unat k = Suc (unat (io_current_conn_id m))" "io_current_conn_id m' = k"
proof -
  let ?c = "io_current_conn_id m"
  have nz: "?c + 1 \<noteq> 0"
  proof
    assume "?c + 1 = 0"
    then have "unat ?c = 2 ^ 32 - 1" by (simp add: u32_succ_eq_0 unsigned_minus_1_eq_mask mask_eq_exp_minus_1)
    then show False using assms(1,2) by (simp add: numbers_ok_def)
  qed
  note u = unat_succ_no_wrap [OF nz]
  have "io_pipelines m (?c + 1) = None" using assms(1) u by (metis add_le_same_cancel1 not_one_le_zero numbers_ok_def)
  then show "k = ?c + 1" "unat k = Suc (unat ?c)" "io_current_conn_id m' = k"
    using assms(3) nz u by (auto simp: IOT_OnNewConnection_def Let_def)
qed

lemma numbers_ok_frame:
  assumes "numbers_ok tr i m" "io_current_conn_id m' = io_current_conn_id m"
    and "dom (io_pipelines m') \<subseteq> dom (io_pipelines m)" "\<forall>p c. l = PoolOpened p c \<longrightarrow> unat (id_hi c) \<noteq> i"
  shows "numbers_ok (tr @ [l]) i m'"
  using assms unfolding numbers_ok_def opens_def by (auto simp: dom_def)

lemma numbers_ok_step:
  assumes inv: "pool_inv evb_of evbs tr s" and n: "length evbs \<le> 2 ^ 32" and d: "distinct evbs"
    and step: "pool_step sn evb_of s l s'" and b: "opens tr < 2 ^ 32 - 1"
    and ok: "\<forall>i < length evbs. numbers_ok tr i (pool_mgrs (ps_pool s) ! i)"
  shows "\<forall>i < length evbs. numbers_ok (tr @ [l]) i (pool_mgrs (ps_pool s') ! i)"
proof (intro allI impI)
  fix j assume j: "j < length evbs"
  note okj = ok [rule_format, OF j]
  have l: "length (pool_mgrs (ps_pool s)) \<le> 2 ^ 32" and jl: "j < length (pool_mgrs (ps_pool s))"
    using pool_invD(1) [OF inv] n j by simp_all
  have same: "numbers_ok (tr @ [l]) j (pool_mgrs (ps_pool s') ! j)"
    if "ps_pool s' = ps_pool s" "\<forall>p c. l \<noteq> PoolOpened p c"
    using numbers_ok_frame [OF okj refl] that by simp
  from step show "numbers_ok (tr @ [l]) j (pool_mgrs (ps_pool s') ! j)"
  proof cases
    case (opened p pool c)
    obtain i m k where i: "i < length (pool_mgrs (ps_pool s))" "IOT_OnNewConnection sn (pool_mgrs (ps_pool s) ! i) p = Some (m, k)"
      "c = pack_id (word_of_nat i) k" "pool = (ps_pool s)\<lparr>pool_mgrs := (pool_mgrs (ps_pool s))[i := m]\<rparr>"
      by (rule pool_open_result [OF opened(5,4) l])
    have c: "unat (id_hi c) = i" "id_lo c = k" using pack_index(1,2) [OF i(1) l] i(3) by simp_all
    show ?thesis
    proof (cases "j = i")
      case False
      then show ?thesis unfolding opened(1,2) using i c numbers_ok_frame [OF okj refl] by simp
    next
      case True
      note num = IOT_next_number [OF okj b i(2) [folded True]]
      note pip = IOT_OnNewConnection_result(2) [OF i(2)]
      show ?thesis
        unfolding opened(1,2) using okj num pip c i(1,4) True
        by (auto simp: numbers_ok_def opens_def le_Suc_eq)
    qed
  next
    case (registered p nm nr)
    obtain c where "open_conns tr c = Some p" using registered(3) pool_invD(3) [OF inv] by (auto simp: ran_def conns_ok_def)
    then have "evb_of p \<in> io_event_base ` set (pool_mgrs (ps_pool s))"
      using conns_ok_base [OF pool_invD(3) [OF inv] refl, of c p] pool_invD(3) [OF inv]
      by (metis conns_ok_def image_eqI nth_mem pool_look_at)
    then obtain i where i: "i < length (pool_mgrs (ps_pool s))" "Pool_OnServerRegister evb_of (ps_pool s) p nm nr =
       (ps_pool s)\<lparr>pool_mgrs := (pool_mgrs (ps_pool s))[i := IOT_OnServerRegister (pool_mgrs (ps_pool s) ! i) p nm nr]\<rparr>"
      by (rule pool_register_result [where evb_of = evb_of and p = p and n = nm and k = nr, OF _ l])
    show ?thesis unfolding registered(1,2)
      by (rule numbers_ok_frame [OF okj]) (use i jl in \<open>simp_all add: nth_list_update IOT_OnServerRegister_def\<close>)
  next
    case (closed c p pool r)
    obtain m where m: "unat (id_hi c) < length (pool_mgrs (ps_pool s))"
      "IOT_OnConnectionClosed sn (pool_mgrs (ps_pool s) ! unat (id_hi c)) (id_lo c) p = (m, r)"
      "pool = (ps_pool s)\<lparr>pool_mgrs := (pool_mgrs (ps_pool s))[unat (id_hi c) := m]\<rparr>"
      by (rule pool_close_result [OF closed(4) l])
    have "io_current_conn_id m = io_current_conn_id (pool_mgrs (ps_pool s) ! unat (id_hi c))"
      using m(2) by (auto simp: IOT_OnConnectionClosed_def Let_def split: option.splits if_splits)
    then show ?thesis unfolding closed(1,2) using m jl IOT_OnConnectionClosed_result(1) [OF m(2)]
      by (intro numbers_ok_frame [OF okj]) (auto simp: nth_list_update)
  next
    case (to_all dd caller)
    show ?thesis
      by (rule same) (use to_all fold_post_ok [OF pool_invD(2) [OF inv], of "Pool_BroadCast (ps_pool s) dd"]
          posts_wanted(3) [where pool = "ps_pool s" and d = dd] inv pool_invD(1) [OF inv] in \<open>auto simp: pool_inv_def\<close>)
  next
    case (ran e la po w)
    then show ?thesis using run_turn_cases [OF ran(2)] same by blast
  qed (use same in simp_all)
qed

lemma numbers_ok_run:
  assumes "run (pool_step sn evb_of) (pool_sys_init evbs fibers) tr s" "length evbs \<le> 2 ^ 32" "distinct evbs"
    and "opens tr < 2 ^ 32 - 1"
  shows "\<forall>i < length evbs. numbers_ok tr i (pool_mgrs (ps_pool s) ! i)"
  using assms(1,4)
proof (induction rule: run.induct)
  case run_nil
  show ?case
    by (auto simp: numbers_ok_def pool_sys_init_def new_IOThreadPoolConnManager_def new_IOThreadConnManager_def
        opens_def nth_enumerate_eq)
next
  case (run_snoc tr s l s')
  then have "opens tr < 2 ^ 32 - 1" by (simp add: opens_def split: if_splits)
  with numbers_ok_step [OF pool_run_inv [OF run_snoc.hyps(1) assms(2,3)] assms(2,3) run_snoc.hyps(2)] run_snoc.IH
  show ?case by blast
qed

lemma opened_fresh:
  assumes r: "run (pool_step sn evb_of) (pool_sys_init evbs fibers) tr s" and n: "length evbs \<le> 2 ^ 32"
    and d: "distinct evbs" and b: "opens tr < 2 ^ 32 - 1" and step: "pool_step sn evb_of s (PoolOpened p c) s'"
  shows "PoolOpened q c \<notin> set tr"
proof
  assume q: "PoolOpened q c \<in> set tr"
  have inv: "pool_inv evb_of evbs tr s" by (rule pool_run_inv [OF r n d])
  have l: "length (pool_mgrs (ps_pool s)) \<le> 2 ^ 32" using pool_invD(1) [OF inv] n by simp
  from step obtain pool where o': "evb_of p \<in> io_event_base ` set (pool_mgrs (ps_pool s))"
    "Pool_OnNewConnection sn evb_of (ps_pool s) p = Some (pool, c)"
    by cases auto
  obtain i m k where i: "i < length (pool_mgrs (ps_pool s))"
    "IOT_OnNewConnection sn (pool_mgrs (ps_pool s) ! i) p = Some (m, k)" "c = pack_id (word_of_nat i) k"
    by (rule pool_open_result [OF o'(2,1) l])
  have ok: "numbers_ok tr i (pool_mgrs (ps_pool s) ! i)"
    using numbers_ok_run [OF r n d b] i(1) pool_invD(1) [OF inv] by simp
  have "unat (id_hi c) = i" "id_lo c = k" using pack_index(1,2) [OF i(1) l] i(3) by simp_all
  then have "unat k \<le> unat (io_current_conn_id (pool_mgrs (ps_pool s) ! i))" using ok q by (auto simp: numbers_ok_def)
  then show False using IOT_next_number(2) [OF ok b i(2)] by simp
qed

section \<open>Properties\<close>

text \<open>An example: a server on the second of two threads, found by a search that starts on the first.\<close>

abbreviation demo_step :: "(nat, nat) pool_sys \<Rightarrow> (nat, nat) pool_label \<Rightarrow> (nat, nat) pool_sys \<Rightarrow> bool" where
  "demo_step \<equiv> pool_step (\<lambda>_. ''s'') (\<lambda>p. p mod 2)"

abbreviation demo_pool :: "(nat, nat) pool_sys" where
  "demo_pool \<equiv> pool_sys_init [0, 1] (\<lambda>_. new_FiberDataManager 1)"

definition demo_begin :: "(nat, nat) pool_label list" where
  "demo_begin = [PoolOpened 1 (pack_id 1 1), PoolRegistered 1 ''x'' 7]"

definition demo_search :: "(nat, nat) pool_label list" where
  "demo_search = [ToServer ''x'' 7 [9], Ran (PostServer 0 0 ''x'' 7 [9]) [], Ran (PostServer 1 1 ''x'' 7 [9]) [(1, [9])]]"

lemma demo_runs:
  obtains s1 s2 where "run demo_step demo_pool demo_begin s1" "run demo_step s1 demo_search s2"
    "ps_queue s1 = (\<lambda>_. [])" "run demo_step s1 (take 2 demo_search) (s2\<lparr>ps_queue := (\<lambda>_. [])((1, OtherThread) := [PostServer 1 1 ''x'' 7 [9]])\<rparr>)"
    "ps_queue s2 = (\<lambda>_. [])"
proof -
  let ?m0 = "new_IOThreadConnManager 0 0 :: (nat, nat) io_conn_mgr" and ?m1 = "new_IOThreadConnManager 1 1 :: (nat, nat) io_conn_mgr"
  define m where "m = ?m1\<lparr>io_current_conn_id := 1, io_pipelines := [1 \<mapsto> 1], io_service_pipelines := [''s'' \<mapsto> {1}]\<rparr>"
  define m' where "m' = IOT_OnServerRegister m 1 ''x'' 7"
  define a where "a = (\<lparr>ps_pool = \<lparr>pool_mgrs = [?m0, m], pool_current_thread_id = 0\<rparr>, ps_queue = (\<lambda>_. [])\<rparr> :: (nat, nat) pool_sys)"
  define b where "b = (\<lparr>ps_pool = \<lparr>pool_mgrs = [?m0, m'], pool_current_thread_id = 0\<rparr>, ps_queue = (\<lambda>_. [])\<rparr> :: (nat, nat) pool_sys)"
  define c where "c = post_to b None (PostServer 0 0 ''x'' 7 [9])"
  define e where "e = b\<lparr>ps_queue := (\<lambda>_. [])((1, OtherThread) := [PostServer 1 1 ''x'' 7 [9]])\<rparr>"
  have init: "demo_pool = \<lparr>ps_pool = \<lparr>pool_mgrs = [?m0, ?m1], pool_current_thread_id = 0\<rparr>, ps_queue = (\<lambda>_. [])\<rparr>"
    by (simp add: pool_sys_init_def new_IOThreadPoolConnManager_def)
  have "demo_step demo_pool (PoolOpened 1 (pack_id 1 1)) (demo_pool\<lparr>ps_pool := ps_pool a\<rparr>)"
  proof (rule pool_step.opened)
    show "1 \<notin> ran (pool_look (ps_pool demo_pool))"
      unfolding init by (auto simp: ran_def pool_look_def IOT_FindPipeline_def new_IOThreadConnManager_def nth_Cons' split: if_splits)
    show "1 mod 2 \<in> io_event_base ` set (pool_mgrs (ps_pool demo_pool))" unfolding init by (simp add: new_IOThreadConnManager_def)
    show "Pool_OnNewConnection (\<lambda>_. ''s'') (\<lambda>p. p mod 2) (ps_pool demo_pool) 1 = Some (ps_pool a, pack_id 1 1)"
      unfolding init a_def m_def
      by (simp add: Pool_OnNewConnection_def IOT_OnNewConnection_def new_IOThreadConnManager_def)
  qed
  also have "demo_pool\<lparr>ps_pool := ps_pool a\<rparr> = a" unfolding init by (simp add: a_def)
  finally have 1: "demo_step demo_pool (PoolOpened 1 (pack_id 1 1)) a" .
  have look: "pool_look (ps_pool a) (pack_id 1 1) = Some 1"
    by (simp add: pool_look_at a_def m_def)
  have "demo_step a (PoolRegistered 1 ''x'' 7) (a\<lparr>ps_pool := Pool_OnServerRegister (\<lambda>p. p mod 2) (ps_pool a) 1 ''x'' 7\<rparr>)"
    by (rule pool_step.registered) (rule ranI, rule look)
  also have "a\<lparr>ps_pool := Pool_OnServerRegister (\<lambda>p. p mod 2) (ps_pool a) 1 ''x'' 7\<rparr> = b"
    by (simp add: a_def b_def m'_def Pool_OnServerRegister_def m_def new_IOThreadConnManager_def)
  finally have 2: "demo_step a (PoolRegistered 1 ''x'' 7) b" .
  have 3: "demo_step b (ToServer ''x'' 7 [9]) c"
    unfolding c_def by (rule pool_step.to_server) (simp add: b_def Pool_DispatchIOBufByServer_def new_IOThreadConnManager_def)
  have "run_turn c 0 OtherThread = Some (PostServer 0 0 ''x'' 7 [9], [], e)"
    by (simp add: run_turn_def c_def e_def b_def post_to_def lane_of_def Pool_DispatchIOBufByIdx_def IOT_DispatchIOBufByServer_def
        new_IOThreadConnManager_def m'_def IOT_OnServerRegister_def m_def fun_eq_iff)
  then have 4: "demo_step c (Ran (PostServer 0 0 ''x'' 7 [9]) []) e" by (rule pool_step.ran)
  have "run_turn e 1 OtherThread = Some (PostServer 1 1 ''x'' 7 [9], [(1, [9])], b)"
    by (simp add: run_turn_def e_def b_def m'_def IOT_OnServerRegister_def m_def new_IOThreadConnManager_def
        Pool_DispatchIOBufByIdx_def IOT_DispatchIOBufByServer_def ServerConnInfo_Equals_def fun_eq_iff)
  then have 5: "demo_step e (Ran (PostServer 1 1 ''x'' 7 [9]) [(1, [9])]) b" by (rule pool_step.ran)
  show ?thesis
  proof (rule that [of b b])
    show "run demo_step demo_pool demo_begin b" unfolding demo_begin_def 
      by (rule run_cons [where step = demo_step, OF 1 run_single [where step = demo_step, OF 2]])
    show "run demo_step b demo_search b" unfolding demo_search_def 
      by (rule run_cons [where step = demo_step, OF 3 run_cons [where step = demo_step, OF 4 run_single [where step = demo_step, OF 5]]])
    show "run demo_step b (take 2 demo_search) (b\<lparr>ps_queue := (\<lambda>_. [])((1, OtherThread) := [PostServer 1 1 ''x'' 7 [9]])\<rparr>)"
      unfolding demo_search_def e_def [symmetric] 
      using run_cons [where step = demo_step, OF 3 run_single [where step = demo_step, OF 4]] by simp
    show "ps_queue b = (\<lambda>_. [])" "ps_queue b = (\<lambda>_. [])" by (simp_all add: b_def)
  qed
qed

text \<open>
  C22. Whatever the threads of a pool do at the same time, a search for a server that stays
  registered ends with success: each buffer dispatched to its name is written exactly once,
  unless its search is still under way, and all searches together take at most one hop per
  thread and buffer.
\<close>

theorem server_search_delivers:
  assumes "run (pool_step sn evb_of) (pool_sys_init evbs fibers) tr1 s1" "run (pool_step sn evb_of) s1 tr2 s2"
    and "length evbs \<le> 2 ^ 32" "distinct evbs"
    and "(p, name, number) \<in> registrations tr1" "\<forall>c. PoolClosed c p \<notin> set tr2" "searching name number d s1 = 0"
  shows "count (found_of name number d) tr2 + searching name number d s2 = count (begun_of name number d) tr2 \<and>
     count (hop_of name number d) tr2 \<le> length evbs * count (begun_of name number d) tr2"
proof -
  have "count (gave_up_of (length evbs) name number d) tr2 = 0"
    by (rule search_not_given_up [OF assms(1,3,4,2,5-7)])
  moreover have "hops_left name number d s1 = 0"
    by (rule searching_none(2) [OF pool_run_inv [OF assms(1,3,4)] assms(7)])
  ultimately show ?thesis using search_run [OF assms(1,3,4,2), of name number d] assms(7) by linarith
qed

theorem server_search_delivers_witness:
  "\<exists>s1 s2. run demo_step demo_pool demo_begin s1 \<and> run demo_step s1 demo_search s2 \<and> searching ''x'' 7 [9] s2 = 0 \<and>
     count (found_of ''x'' 7 [9]) demo_search = 1"
proof -
  obtain s1 s2 where r: "run demo_step demo_pool demo_begin s1" "run demo_step s1 demo_search s2"
    and q: "ps_queue s1 = (\<lambda>_. [])" "ps_queue s2 = (\<lambda>_. [])"
    by (rule demo_runs)
  have z: "searching ''x'' 7 [9] s1 = 0" "searching ''x'' 7 [9] s2 = 0" by (simp_all add: searching_def qsum_def q)
  have "count (found_of ''x'' 7 [9]) demo_search + searching ''x'' 7 [9] s2 = count (begun_of ''x'' 7 [9]) demo_search"
    by (rule server_search_delivers [OF r, THEN conjunct1, of 1])
       (simp_all add: demo_begin_def demo_search_def registrations_def z)
  then have "count (found_of ''x'' 7 [9]) demo_search = 1" using z by (simp add: demo_search_def count_def)
  with r z show ?thesis by blast
qed

text \<open>
  C23. What the threads of a pool write is exactly what the history of connections and
  registrations calls for: a buffer sent to an id goes to the connection that is open under
  it when its turn comes, or nowhere; a hop of a search writes once to an open connection
  registered for it on that thread, if there is one; a broadcast reaches each open
  connection of the thread once. No id is handed out twice as long as fewer than $2^{32}-1$
  connections were opened.
\<close>

theorem pool_writes_exact:
  assumes "run (pool_step sn evb_of) (pool_sys_init evbs fibers) tr s" "length evbs \<le> 2 ^ 32" "distinct evbs"
    and "opens tr < 2 ^ 32 - 1"
  shows "(\<forall>e l po w s'. run_turn s e l = Some (po, w, s') \<longrightarrow> written_by evb_of tr po w) \<and>
     (\<forall>p q c s'. pool_step sn evb_of s (PoolOpened p c) s' \<longrightarrow> PoolOpened q c \<notin> set tr)"
  using turn_written [OF pool_run_inv [OF assms(1-3)] assms(2,3)] opened_fresh [OF assms(1-4)] by blast

theorem pool_writes_exact_witness:
  "\<exists>s s'. run demo_step demo_pool (demo_begin @ take 2 demo_search) s \<and>
     run_turn s 1 OtherThread = Some (PostServer 1 1 ''x'' 7 [9], [(1, [9])], s')"
proof -
  obtain s1 s2 where r: "run demo_step demo_pool demo_begin s1"
    and r2: "run demo_step s1 (take 2 demo_search) (s2\<lparr>ps_queue := (\<lambda>_. [])((1, OtherThread) := [PostServer 1 1 ''x'' 7 [9]])\<rparr>)"
    by (rule demo_runs)
  define s where "s = s2\<lparr>ps_queue := (\<lambda>_. [])((1, OtherThread) := [PostServer 1 1 ''x'' 7 [9]])\<rparr>"
  have run: "run demo_step demo_pool (demo_begin @ take 2 demo_search) s" unfolding s_def by (rule run_trans [OF r2 r])
  have o': "opens (demo_begin @ take 2 demo_search) < 2 ^ 32 - 1"
    by (simp add: opens_def count_def demo_begin_def demo_search_def)
  obtain w s' where t: "run_turn s 1 OtherThread = Some (PostServer 1 1 ''x'' 7 [9], w, s')"
    by (cases "run_post (ps_pool s) (PostServer 1 1 ''x'' 7 [9])") (simp add: run_turn_def s_def Let_def)
  have "written_by (\<lambda>p. p mod 2) (demo_begin @ take 2 demo_search) (PostServer 1 1 ''x'' 7 [9]) w"
    by (rule pool_writes_exact [OF run _ _ o', THEN conjunct1, rule_format, OF _ _ t]) simp_all
  moreover have "registrations (demo_begin @ take 2 demo_search) = {(1, ''x'', 7)}"
    by (simp add: registrations_def demo_begin_def demo_search_def)
  ultimately have "w = [(1, [9])]" by (simp add: written_by_def)
  with run t show ?thesis by blast
qed

end
