(* ===== verification/Client_System.thy ===== *)
theory Client_System
  imports Service_Registry Tcp_Client Conn_Routing
begin

text \<open>
  The TCP clients of a \<open>TcpClientGroup\<close> at work together (\<open>net/server/tcp_client_group\<close>,
  \<open>net/server/tcp_client\<close>): a send through the group picks clients and posts a closure to the
  event base of each, while the clients connect, fail, lose their connections, reconnect and are
  stopped, in any interleaving. A client takes its pipelines from the factory it was given with
  \<open>SetChildPipeline\<close>, each client its own; what \<open>newPipeline\<close> of a factory does is a parameter. The
  repository's \<open>ClientConnPipelineFactory::newPipeline\<close> always throws (\<open>Pipelines\<close>), so these clients are
  those of an application that overrides it.
\<close>

section \<open>The system\<close>

text \<open>A posted closure: the client, the buffer, and whether it calls a completion function.\<close>

record ('h, 'e, 'f, 'p) client_sys =
  cs_group :: "'h service"
  cs_clients :: "nat \<rightharpoonup> ('e, 'f, 'p) tcp_client"
  cs_queue :: "'e \<times> lane \<Rightarrow> (nat \<times> iobuf \<times> bool) list"

definition post_send ::
  "('h, 'e, 'f, 'p) client_sys \<Rightarrow> 'e option \<Rightarrow> 'e \<Rightarrow> nat \<times> iobuf \<times> bool \<Rightarrow> ('h, 'e, 'f, 'p) client_sys" where
  "post_send s caller e x =
     (let q = (e, lane_of caller e) in s\<lparr>cs_queue := (cs_queue s)(q := cs_queue s q @ [x])\<rparr>)"

text \<open>\<open>SendIOBufThreadSafe\<close> of each client that the group picked.\<close>

fun send_each ::
  "'e option \<Rightarrow> iobuf \<Rightarrow> bool \<Rightarrow> nat list \<Rightarrow> ('h, 'e, 'f, 'p) client_sys \<Rightarrow> ('h, 'e, 'f, 'p) client_sys res" where
  "send_each caller d cb [] s = Inr s"
| "send_each caller d cb (r # rs) s =
     (case cs_clients s r of
        None \<Rightarrow> Inl UseAfterFree
      | Some c \<Rightarrow> rbind (SendIOBufThreadSafe c) (\<lambda>e. send_each caller d cb rs (post_send s caller e (r, d, cb))))"

text \<open>The flag \<open>connected_\<close> of a client.\<close>

definition online :: "('h, 'e, 'f, 'p) client_sys \<Rightarrow> nat \<Rightarrow> bool" where
  "online s r = (case cs_clients s r of None \<Rightarrow> False | Some c \<Rightarrow> tc_connected c)"

text \<open>\<open>TcpClientGroup::SendIOBuf\<close>, without and with a completion function.\<close>

definition group_send ::
  "(u32 \<Rightarrow> u32) \<Rightarrow> 'e option \<Rightarrow> iobuf \<Rightarrow> dispatch_strategy \<Rightarrow> ('h, 'e, 'f, 'p) client_sys
   \<Rightarrow> (nat list \<times> ('h, 'e, 'f, 'p) client_sys \<times> bool) res" where
  "group_send rand32 caller d strategy s =
     rbind (TcpClientGroup_SendIOBuf rand32 (online s) (cs_group s) strategy) (\<lambda>(rs, ok).
     rbind (send_each caller d False rs s) (\<lambda>s'. Inr (rs, s', ok)))"

definition group_send_callback ::
  "(u32 \<Rightarrow> u32) \<Rightarrow> 'e option \<Rightarrow> iobuf \<Rightarrow> ('h, 'e, 'f, 'p) client_sys
   \<Rightarrow> (nat list \<times> ('h, 'e, 'f, 'p) client_sys \<times> bool) res" where
  "group_send_callback rand32 caller d s =
     rbind (TcpClientGroup_SendIOBuf_callback rand32 (cs_group s)) (\<lambda>(rs, ok).
     rbind (send_each caller d True rs s) (\<lambda>s'. Inr (rs, s', ok)))"

text \<open>One turn of an event loop: what it wrote and whether the completion function was called.\<close>

definition run_client_turn ::
  "('h, 'e, 'f, 'p) client_sys \<Rightarrow> 'e \<Rightarrow> lane \<Rightarrow> ((nat \<times> iobuf \<times> bool) \<times> ('p option \<times> bool) \<times> ('h, 'e, 'f, 'p) client_sys) res option" where
  "run_client_turn s e l =
     (case cs_queue s (e, l) of
        [] \<Rightarrow> None
      | (r, d, cb) # q \<Rightarrow> Some (case cs_clients s r of
            None \<Rightarrow> Inl UseAfterFree
          | Some c \<Rightarrow> rbind (run_send c d) (\<lambda>(w, called).
              Inr ((r, d, cb), (map_option fst w, cb \<and> called), s\<lparr>cs_queue := (cs_queue s)((e, l) := q)\<rparr>))))"

datatype ('e, 'p) client_label =
    Happened nat "'p event" | SentTo "'e option" "nat list" iobuf bool | Turned nat lane iobuf bool "'p option" bool

text \<open>\<open>np\<close> is the outcome of a pipeline factory. The calling thread's event base may be anything.\<close>

inductive client_step ::
  "('f \<Rightarrow> 'p res) \<Rightarrow> ('h, 'e, 'f, 'p) client_sys \<Rightarrow> ('e, 'p) client_label \<Rightarrow> ('h, 'e, 'f, 'p) client_sys \<Rightarrow> bool"
  for np :: "'f \<Rightarrow> 'p res" where
  happened: "cs_clients s r = Some c \<Longrightarrow> enabled c ev \<Longrightarrow> deliver np e c ev = Inr c' \<Longrightarrow>
     client_step np s (Happened r ev) (s\<lparr>cs_clients := (cs_clients s)(r \<mapsto> c')\<rparr>)"
| sent: "group_send rand32 caller d strategy s = Inr (rs, s', ok) \<Longrightarrow>
     client_step np s (SentTo caller rs d False) s'"
| sent_callback: "group_send_callback rand32 caller d s = Inr (rs, s', ok) \<Longrightarrow>
     client_step np s (SentTo caller rs d True) s'"
| turned: "run_client_turn s e l = Some (Inr ((r, d, cb), (w, called), s')) \<Longrightarrow>
     client_step np s (Turned r l d cb w called) s'"

section \<open>What the labels say\<close>

text \<open>Whether a client is connected.\<close>

fun linked_after :: "'p event \<Rightarrow> bool \<Rightarrow> bool" where
  "linked_after Connected b = True"
| "linked_after Failed b = b"
| "linked_after Timer b = b"
| "linked_after (event.Closed p) b = False"
| "linked_after Stopped b = False"

definition link :: "nat \<Rightarrow> ('e, 'p) client_label list \<Rightarrow> bool" where
  "link r tr =
     fold (\<lambda>l b. case l of Happened x ev \<Rightarrow> if x = r then linked_after ev b else b
           | _ \<Rightarrow> b) tr False"

text \<open>What was sent to a client through a lane of its event base, and what was handled.\<close>

definition sent_to :: "(nat \<Rightarrow> 'e) \<Rightarrow> nat \<Rightarrow> lane \<Rightarrow> ('e, 'p) client_label list \<Rightarrow> (iobuf \<times> bool) list" where
  "sent_to base r l tr =
     concat (map (\<lambda>x. case x of
        SentTo caller rs d cb \<Rightarrow>
          if lane_of caller (base r) = l then map (\<lambda>_. (d, cb)) (filter (\<lambda>x. x = r) rs) else []
      | _ \<Rightarrow> []) tr)"

definition handled_by :: "nat \<Rightarrow> lane \<Rightarrow> ('e, 'p) client_label list \<Rightarrow> (iobuf \<times> bool) list" where
  "handled_by r l tr =
     concat (map (\<lambda>x. case x of Turned x m d cb w called \<Rightarrow> if x = r \<and> m = l then [(d, cb)] else [] | _ \<Rightarrow> []) tr)"

lemma client_trace_simps [simp]:
  "link r [] = False" "sent_to base r l [] = []" "handled_by r l [] = []"
  "link r (tr @ [Happened x ev]) = (if x = r then linked_after ev (link r tr) else link r tr)"
  "link r (tr @ [SentTo caller rs d cb]) = link r tr"
  "link r (tr @ [Turned x m d cb w called]) = link r tr"
  "sent_to base r l (tr @ [Happened x ev]) = sent_to base r l tr"
  "sent_to base r l (tr @ [SentTo caller rs d cb]) = sent_to base r l tr @
     (if lane_of caller (base r) = l then map (\<lambda>_. (d, cb)) (filter (\<lambda>x. x = r) rs) else [])"
  "sent_to base r l (tr @ [Turned x m d cb w called]) = sent_to base r l tr"
  "handled_by r l (tr @ [Happened x ev]) = handled_by r l tr"
  "handled_by r l (tr @ [SentTo caller rs d cb]) = handled_by r l tr"
  "handled_by r l (tr @ [Turned x m d cb w called]) = handled_by r l tr @ (if x = r \<and> m = l then [(d, cb)] else [])"
  by (simp_all add: link_def sent_to_def handled_by_def)

section \<open>One client\<close>

text \<open>A client that was started, and one that was stopped.\<close>

definition client_ok :: "'e \<Rightarrow> bool \<Rightarrow> bool \<Rightarrow> ('e, 'f, 'p) tcp_client \<Rightarrow> bool" where
  "client_ok base b stopped c \<longleftrightarrow>
     tc_connected c = b \<and>
     (if stopped then tc_client c = None \<and> \<not> b else one_activity c \<and> TcpClient_GetEventBase c = Some base)"

lemma client_ok_deliver:
  assumes ok: "client_ok base b stopped c" and en: "enabled c ev" and d: "deliver np e c ev = Inr c'"
  shows "\<not> stopped \<and> client_ok base (linked_after ev b) (ev = Stopped) c'"
proof (cases stopped)
  case True
  then have c: "tc_client c = None" "\<not> tc_connected c" using ok by (simp_all add: client_ok_def)
  have False
  proof (cases ev)
    case Timer
    then show False using d en c by (cases "tc_timers c") (auto simp: timer_fired_def DoConnect_def split: timer.splits)
  qed (use d en c in \<open>simp_all add: connectSuccess_def connectErr_def TcpClient_Stop_def\<close>)
  then show ?thesis ..
next
  case False
  then have act: "one_activity c" and b: "TcpClient_GetEventBase c = Some base" "tc_connected c = b"
    using ok by (simp_all add: client_ok_def)
  from act show ?thesis
  proof (cases rule: one_activity_cases)
    case (connecting bs f p x t)
    then consider "ev = Connected" | "ev = Failed" | "ev = Stopped" using en by (cases ev) auto
    then show ?thesis
      using connecting b d False
      by cases (auto simp: client_ok_def one_activity_def connectSuccess_def connectErr_def TcpClient_GetEventBase_def TcpClient_Stop_def)
  next
    case (waiting bs f p x t)
    then consider "ev = Timer" | "ev = Stopped" using en by (cases ev) auto
    then show ?thesis
    proof cases
      case 1
      have t: "t = ReconnectAfterClose" using d 1 waiting by (cases t) (simp_all add: timer_fired_def)
      then obtain q where q: "np f = Inr q"
        using d 1 waiting_timer(1) [of c bs f x t np e, OF waiting(1-3,7,6,5,8)] by (cases "np f") auto
      have "one_activity c'" by (rule deliver_activity(1) [OF act en _ d]) (simp add: 1)
      then show ?thesis
        using d 1 b False waiting t q waiting_timer(1) [of c bs f x t np e, OF waiting(1-3,7,6,5,8)]
        by (auto simp: client_ok_def TcpClient_GetEventBase_def)
    next
      case 2
      then show ?thesis using waiting b d False by (auto simp: client_ok_def TcpClient_Stop_def)
    qed
  next
    case (connected bs f p x)
    then consider "ev = event.Closed p" | "ev = Stopped" using en by (cases ev) auto
    then show ?thesis
      using connected b d False
      by cases (auto simp: client_ok_def one_activity_def TcpClient_deletePipeline_def Let_def TcpClient_GetEventBase_def TcpClient_Stop_def)
  qed
qed

lemma client_ok_send:
  assumes "client_ok base b stopped c"
  shows "SendIOBufThreadSafe c = (if stopped then Inl NullDeref else Inr base)"
    and "\<exists>p. run_send c d = Inr (if b then (Some (p, d), True) else (None, False)) \<and> (b \<longrightarrow> tc_managed c = Some p)"
  using assms
  by (auto simp: client_ok_def one_activity_def SendIOBufThreadSafe_def run_send_def TcpClient_GetEventBase_def split: if_splits)

section \<open>Posting to the clients of a group\<close>

lemma post_send_queue:
  "cs_queue (post_send s caller e x) y = (if y = (e, lane_of caller e) then cs_queue s y @ [x] else cs_queue s y)"
  "cs_clients (post_send s caller e x) = cs_clients s" "cs_group (post_send s caller e x) = cs_group s"
  by (auto simp: post_send_def Let_def)

lemma send_each_result:
  assumes "send_each caller d cb rs s = Inr s'"
    and "\<forall>r c e. cs_clients s r = Some c \<longrightarrow> SendIOBufThreadSafe c = Inr e \<longrightarrow> e = base r"
  shows "cs_clients s' = cs_clients s" "cs_group s' = cs_group s" "set rs \<subseteq> dom (cs_clients s)"
    "cs_queue s' x = cs_queue s x @ map (\<lambda>r. (r, d, cb)) (filter (\<lambda>r. x = (base r, lane_of caller (base r))) rs)"
proof -
  have "cs_clients s' = cs_clients s \<and> cs_group s' = cs_group s \<and> set rs \<subseteq> dom (cs_clients s) \<and>
    cs_queue s' x = cs_queue s x @ map (\<lambda>r. (r, d, cb)) (filter (\<lambda>r. x = (base r, lane_of caller (base r))) rs)"
    using assms
  proof (induction rs arbitrary: s)
    case (Cons r rs)
    then obtain c where c: "cs_clients s r = Some c" by (auto split: option.splits)
    with Cons.prems obtain e where e: "SendIOBufThreadSafe c = Inr e"
      and rest: "send_each caller d cb rs (post_send s caller e (r, d, cb)) = Inr s'"
      by (auto simp: rbind_eq_Inr_iff)
    have "e = base r" using Cons.prems(2) c e by blast
    then show ?case using Cons.IH [OF rest] Cons.prems(2) c by (auto simp: post_send_queue)
  qed simp
  then show "cs_clients s' = cs_clients s" "cs_group s' = cs_group s" "set rs \<subseteq> dom (cs_clients s)"
    "cs_queue s' x = cs_queue s x @ map (\<lambda>r. (r, d, cb)) (filter (\<lambda>r. x = (base r, lane_of caller (base r))) rs)"
    by blast+
qed

lemma send_each_ok:
  assumes "\<forall>r \<in> set rs. \<exists>c. cs_clients s r = Some c \<and> SendIOBufThreadSafe c = Inr (base r)"
  shows "\<exists>s'. send_each caller d cb rs s = Inr s'"
  using assms by (induction rs arbitrary: s) (auto simp: post_send_queue)

text \<open>The part of a queue that is for one client.\<close>

definition queued_for :: "nat \<Rightarrow> (nat \<times> iobuf \<times> bool) list \<Rightarrow> (iobuf \<times> bool) list" where
  "queued_for r q = map snd (filter (\<lambda>x. fst x = r) q)"

lemma queued_for_simps [simp]:
  "queued_for r [] = []" "queued_for r (q @ q') = queued_for r q @ queued_for r q'"
  "queued_for r (x # q) = (if fst x = r then snd x # queued_for r q else queued_for r q)"
  by (simp_all add: queued_for_def)

lemma queued_for_posted:
  "queued_for r (map (\<lambda>r. (r, d, cb)) (filter (\<lambda>x. (base r, l) = (base x, lane_of caller (base x))) rs)) =
     (if lane_of caller (base r) = l then map (\<lambda>_. (d, cb)) (filter (\<lambda>x. x = r) rs) else [])"
  by (induction rs) auto

section \<open>Runs\<close>

text \<open>
  The state after \<open>TcpClientGroup::Start\<close>: every client of the group \<open>g\<close> was constructed on its event
  base \<open>base r\<close>, given its factory \<open>fac r\<close>, and its \<open>Start\<close> has returned.
\<close>

definition clients_started ::
  "('f \<Rightarrow> 'p res) \<Rightarrow> (nat \<Rightarrow> 'e) \<Rightarrow> (nat \<Rightarrow> 'f) \<Rightarrow> 'h service \<Rightarrow> ('h, 'e, 'f, 'p) client_sys \<Rightarrow> bool" where
  "clients_started np base fac g s \<longleftrightarrow>
     cs_group s = g \<and> cs_queue s = (\<lambda>_. []) \<and>
     (\<forall>r. if r \<in> set (fst (TcpClientGroup_Start g))
          then \<exists>c e. cs_clients s r = Some c \<and>
            TcpClient_Start np e (TcpClient_SetChildPipeline (new_TcpClient (Some (base r))) (fac r)) = Inr c
          else cs_clients s r = None)"

definition client_inv ::
  "(nat \<Rightarrow> 'e) \<Rightarrow> 'h service \<Rightarrow> ('e, 'p) client_label list \<Rightarrow> ('h, 'e, 'f, 'p) client_sys \<Rightarrow> bool" where
  "client_inv base g tr s \<longleftrightarrow>
     cs_group s = g \<and> dom (cs_clients s) = set (sv_clients g) \<and>
     (\<forall>r c. cs_clients s r = Some c \<longrightarrow> client_ok (base r) (link r tr) (Happened r Stopped \<in> set tr) c) \<and>
     (\<forall>e l x. x \<in> set (cs_queue s (e, l)) \<longrightarrow> fst x \<in> dom (cs_clients s) \<and> base (fst x) = e) \<and>
     (\<forall>r l. sent_to base r l tr = handled_by r l tr @ queued_for r (cs_queue s (base r, l)))"

lemma client_started_ok:
  assumes "TcpClient_Start np e (TcpClient_SetChildPipeline (new_TcpClient (Some b)) f) = Inr c"
  shows "client_ok b False False c"
  using assms running_start [OF assms]
  by (auto simp: client_ok_def TcpClient_Start_def TcpClient_SetChildPipeline_def new_TcpClient_def DoConnect_def
      bootstrap_connect_def bootstrap_pipelineFactory_def new_ClientBootstrap2_def Let_def rbind_eq_Inr_iff TcpClient_GetEventBase_def)

lemma client_inv_init:
  assumes "clients_started np base fac g s"
  shows "client_inv base g [] s"
proof -
  have "client_ok (base r) False False c" if "cs_clients s r = Some c" for r c
    using assms that client_started_ok unfolding clients_started_def by (metis option.distinct(1) option.inject)
  moreover have "r \<in> dom (cs_clients s) \<longleftrightarrow> r \<in> set (sv_clients g)" for r
    using assms unfolding clients_started_def TcpClientGroup_Start_def by (metis domIff fst_conv option.distinct(1))
  ultimately show ?thesis using assms by (auto simp: client_inv_def clients_started_def)
qed

lemma client_bases:
  assumes "client_inv base g tr s"
  shows "\<forall>r c e. cs_clients s r = Some c \<longrightarrow> SendIOBufThreadSafe c = Inr e \<longrightarrow> e = base r"
  using assms client_ok_send(1) unfolding client_inv_def by (metis Inl_Inr_False sum.inject(2))

lemma client_inv_sent:
  assumes inv: "client_inv base g tr s" and send: "send_each caller d cb rs s = Inr s'"
  shows "client_inv base g (tr @ [SentTo caller rs d cb]) s'"
proof -
  note r = send_each_result [OF send client_bases [OF inv]]
  have "fst x \<in> dom (cs_clients s') \<and> base (fst x) = e" if "x \<in> set (cs_queue s' (e, l))" for e l x
  proof -
    have old: "\<forall>y \<in> set (cs_queue s (e, l)). fst y \<in> dom (cs_clients s) \<and> base (fst y) = e"
      using inv unfolding client_inv_def by blast
    from that consider "x \<in> set (cs_queue s (e, l))" | k where "k \<in> set rs" "x = (k, d, cb)" "e = base k"
      unfolding r(4) by auto
    then show ?thesis unfolding r(1) using old r(3) by cases auto
  qed
  moreover have "sent_to base k l (tr @ [SentTo caller rs d cb]) =
      handled_by k l (tr @ [SentTo caller rs d cb]) @ queued_for k (cs_queue s' (base k, l))" for k l
    using inv unfolding r(4) client_inv_def client_trace_simps queued_for_simps queued_for_posted by simp
  ultimately show ?thesis using inv unfolding client_inv_def r(1,2) by simp
qed

lemma client_turn_result:
  assumes inv: "client_inv base g tr s" and q: "cs_queue s (e, l) = (r, d, cb) # q"
  shows "\<exists>c p. cs_clients s r = Some c \<and> base r = e \<and> (link r tr \<longrightarrow> tc_managed c = Some p) \<and>
    run_client_turn s e l = Some (Inr ((r, d, cb), (if link r tr then Some p else None, cb \<and> link r tr),
      s\<lparr>cs_queue := (cs_queue s)((e, l) := q)\<rparr>))"
proof -
  have "r \<in> dom (cs_clients s)" "base r = e" using inv q unfolding client_inv_def by (metis fst_conv list.set_intros(1))+
  then obtain c where c: "cs_clients s r = Some c" "client_ok (base r) (link r tr) (Happened r Stopped \<in> set tr) c"
    using inv unfolding client_inv_def by blast
  obtain p where "run_send c d = Inr (if link r tr then (Some (p, d), True) else (None, False))"
    "link r tr \<longrightarrow> tc_managed c = Some p" using client_ok_send(2) [OF c(2)] by blast
  then show ?thesis using c(1) q \<open>base r = e\<close> by (intro exI [of _ c] exI [of _ p]) (simp add: run_client_turn_def)
qed

lemma client_inv_clients:
  assumes "client_inv base g tr s" "dom m = dom (cs_clients s)"
    and "\<forall>k c. m k = Some c \<longrightarrow> client_ok (base k) (link k (tr @ [Happened r ev])) (Happened k Stopped \<in> set (tr @ [Happened r ev])) c"
  shows "client_inv base g (tr @ [Happened r ev]) (s\<lparr>cs_clients := m\<rparr>)"
proof -
  let ?s = "s\<lparr>cs_clients := m\<rparr>"
  have same: "cs_group ?s = cs_group s" "dom (cs_clients ?s) = dom (cs_clients s)" "cs_queue ?s = cs_queue s" "cs_clients ?s = m"
    using assms(2) by simp_all
  have "\<forall>k n. sent_to base k n (tr @ [Happened r ev]) = handled_by k n (tr @ [Happened r ev]) @ queued_for k (cs_queue s (base k, n))"
    using assms(1) unfolding client_inv_def client_trace_simps by blast
  then show ?thesis using assms(1,3) unfolding client_inv_def same(1,3,4) unfolding assms(2) by blast
qed

lemma client_inv_step:
  assumes inv: "client_inv base g tr s" and step: "client_step np s l s'"
  shows "client_inv base g (tr @ [l]) s'"
  using step
proof cases
  case (happened r c ev e c')
  have "client_ok (base r) (link r tr) (Happened r Stopped \<in> set tr) c" using inv happened(3) unfolding client_inv_def by blast
  from client_ok_deliver [OF this happened(4,5)]
  have "client_ok (base r) (link r (tr @ [l])) (Happened r Stopped \<in> set (tr @ [l])) c'"
    by (auto simp: happened(1) eq_commute [of Stopped])
  moreover have "client_ok (base k) (link k (tr @ [l])) (Happened k Stopped \<in> set (tr @ [l])) x"
    if "k \<noteq> r" "cs_clients s k = Some x" for k x
    using that inv unfolding client_inv_def happened(1) by simp
  ultimately show ?thesis
    unfolding happened(1,2) using happened(3) by (intro client_inv_clients [OF inv]) auto
next
  case (sent rand32 caller d strategy rs ok)
  then show ?thesis using client_inv_sent [OF inv] by (auto simp: group_send_def rbind_eq_Inr_iff)
next
  case (sent_callback rand32 caller d rs ok)
  then show ?thesis using client_inv_sent [OF inv] by (auto simp: group_send_callback_def rbind_eq_Inr_iff)
next
  case (turned e m r d cb w called)
  obtain x q where "cs_queue s (e, m) = x # q" using turned(2) by (auto simp: run_client_turn_def split: list.splits)
  then obtain q where q: "cs_queue s (e, m) = (r, d, cb) # q" "s' = s\<lparr>cs_queue := (cs_queue s)((e, m) := q)\<rparr>"
    using turned(2) by (cases x) (auto simp: run_client_turn_def rbind_eq_Inr_iff split: option.splits)
  have b: "base r = e" using client_turn_result [OF inv q(1)] by blast
  have "fst x \<in> dom (cs_clients s) \<and> base (fst x) = f" if "x \<in> set (cs_queue s' (f, k))" for x f k
  proof -
    have "set (cs_queue s' (f, k)) \<subseteq> set (cs_queue s (f, k))" using q by auto
    then show ?thesis using that inv unfolding client_inv_def by blast
  qed
  moreover have "sent_to base k n (tr @ [l]) = handled_by k n (tr @ [l]) @ queued_for k (cs_queue s' (base k, n))" for k n
  proof -
    have "sent_to base k n tr = handled_by k n tr @ queued_for k (cs_queue s (base k, n))"
      using inv unfolding client_inv_def by blast
    then show ?thesis unfolding turned(1) using q b inv by (cases "k = r \<and> n = m") (auto simp: client_inv_def)
  qed
  ultimately show ?thesis using inv unfolding client_inv_def turned(1) q(2) by simp
qed

lemma client_run_inv:
  assumes "run (client_step np) s0 tr s" "clients_started np base fac g s0"
  shows "client_inv base g tr s"
  using assms(1)
proof (induction rule: run.induct)
  case run_nil
  show ?case by (rule client_inv_init [OF assms(2)])
next
  case (run_snoc tr s l s')
  then show ?case by (blast intro: client_inv_step)
qed

section \<open>Properties\<close>

text \<open>
  An example: a group of two clients whose factory builds the pipeline \<open>p\<close>; the first one is
  connected and gets a broadcast, the second one is stopped.
\<close>

abbreviation demo_client_step where
  "demo_client_step \<equiv> client_step (\<lambda>_ :: unit. Inr ''p'') :: (nat, nat, unit, string) client_sys \<Rightarrow> _"

definition demo_group :: "nat service" where
  "demo_group = (new_TcpServiceBase TCP_CLIENT_GROUP (demo_config ''db'' ''tcp_client'') [])\<lparr>sv_clients := [1, 3]\<rparr>"

definition demo_client :: "(nat, unit, string) tcp_client" where
  "demo_client =
     \<lparr>tc_factory = Some (),
      tc_client = Some \<lparr>bs_pipeline = Some ''p'', bs_port = None, bs_factory = Some (),
                        bs_base = Some 9, bs_sslContext = None, bs_sslSession = None\<rparr>,
      tc_connected = False, tc_stoped = False, tc_connecting = [0], tc_timers = [], tc_managed = None, tc_activated = []\<rparr>"

lemma demo_client_starts:
  "TcpClient_Start (\<lambda>_. Inr ''p'') 9 (TcpClient_SetChildPipeline (new_TcpClient (Some 9)) ()) = Inr demo_client"
  by (simp add: TcpClient_Start_def TcpClient_SetChildPipeline_def new_TcpClient_def DoConnect_def
      bootstrap_connect_def bootstrap_pipelineFactory_def new_ClientBootstrap2_def Let_def demo_client_def)

definition demo_client_trace :: "(nat, string) client_label list" where
  "demo_client_trace = [Happened 1 Connected, SentTo None [1] [5] False, Happened 3 Stopped]"

lemma demo_client_run:
  obtains s0 s where "clients_started (\<lambda>_. Inr ''p'') (\<lambda>_. 9) (\<lambda>_. ()) demo_group s0"
    "run demo_client_step s0 demo_client_trace s" "cs_queue s (9, OtherThread) = [(1, [5], False)]"
proof -
  define s0 where "s0 = (\<lparr>cs_group = demo_group, cs_clients = [1 \<mapsto> demo_client, 3 \<mapsto> demo_client], cs_queue = (\<lambda>_. [])\<rparr>
    :: (nat, nat, unit, string) client_sys)"
  define c1 where "c1 = demo_client\<lparr>tc_connecting := [], tc_activated := [''p''], tc_managed := Some ''p'', tc_connected := True\<rparr>"
  define c3 where "c3 = demo_client\<lparr>tc_stoped := True, tc_client := None\<rparr>"
  define s1 where "s1 = s0\<lparr>cs_clients := (cs_clients s0)(1 \<mapsto> c1)\<rparr>"
  define s2 where "s2 = post_send s1 None 9 (1, [5], False)"
  define s3 where "s3 = s2\<lparr>cs_clients := (cs_clients s2)(3 \<mapsto> c3)\<rparr>"
  have st: "clients_started (\<lambda>_. Inr ''p'') (\<lambda>_. 9) (\<lambda>_. ()) demo_group s0"
    unfolding clients_started_def TcpClientGroup_Start_def using demo_client_starts by (auto simp: s0_def demo_group_def)
  have 1: "demo_client_step s0 (Happened 1 Connected) s1" unfolding s1_def
    by (rule client_step.happened [where c = demo_client]) (simp_all add: s0_def demo_client_def connectSuccess_def c1_def)
  have "filter (online s1) [1, 3] = [1]" by (simp add: online_def s1_def s0_def c1_def demo_client_def)
  moreover have "SendIOBufThreadSafe c1 = Inr 9" by (simp add: SendIOBufThreadSafe_def c1_def demo_client_def)
  moreover have "cs_group s1 = demo_group" "cs_clients s1 1 = Some c1" by (simp_all add: s1_def s0_def)
  ultimately have "group_send (\<lambda>m. m - 1) None [5] kBroadCast s1 = Inr ([1], s2, True)"
    by (simp add: group_send_def s2_def TcpClientGroup_SendIOBuf_def GetOnlineClients_def demo_group_def)
  then have 2: "demo_client_step s1 (SentTo None [1] [5] False) s2" by (rule client_step.sent)
  have "cs_clients s2 3 = Some demo_client" by (simp add: s2_def s1_def s0_def post_send_queue)
  then have 3: "demo_client_step s2 (Happened 3 Stopped) s3" unfolding s3_def
    by (rule client_step.happened [where ev = Stopped]) (simp_all add: demo_client_def TcpClient_Stop_def c3_def)
  have "cs_queue s3 (9, OtherThread) = [(1, [5], False)]"
    by (simp add: s3_def s2_def s1_def s0_def post_send_queue lane_of_def)
  moreover have "run demo_client_step s0 demo_client_trace s3" unfolding demo_client_trace_def
    by (rule run_cons [where step = demo_client_step, OF 1 run_cons [where step = demo_client_step, OF 2
          run_single [where step = demo_client_step, OF 3]]])
  ultimately show ?thesis using that st by blast
qed

text \<open>
  C24. The clients of a started group, each with a pipeline factory of its own that builds
  pipelines, under any interleaving of connecting, losing the connection, reconnecting, stopping
  and sending: what was sent to a client from other threads, and what was sent from its own, is
  what its event base has handled, in order, followed by what is still queued. No turn of an event
  loop aborts: it writes the buffer to the pipeline the client manages exactly if the client is
  connected at that moment, and only then calls the completion function.
\<close>

theorem client_sends_exact:
  assumes "run (client_step np) s0 tr s" "clients_started np base fac g s0"
  shows "(\<forall>r l. sent_to base r l tr = handled_by r l tr @ queued_for r (cs_queue s (base r, l))) \<and>
     (\<forall>e l r d cb q. cs_queue s (e, l) = (r, d, cb) # q \<longrightarrow>
        (\<exists>c p s'. cs_clients s r = Some c \<and> (link r tr \<longrightarrow> tc_managed c = Some p) \<and>
           run_client_turn s e l = Some (Inr ((r, d, cb), (if link r tr then Some p else None, cb \<and> link r tr), s'))))"
proof (intro conjI allI impI)
  have inv: "client_inv base g tr s" by (rule client_run_inv [OF assms])
  show "sent_to base r l tr = handled_by r l tr @ queued_for r (cs_queue s (base r, l))" for r l
    using inv unfolding client_inv_def by blast
  fix e l r d cb q assume "cs_queue s (e, l) = (r, d, cb) # q"
  from client_turn_result [OF inv this] show "\<exists>c p s'. cs_clients s r = Some c \<and> (link r tr \<longrightarrow> tc_managed c = Some p) \<and>
      run_client_turn s e l = Some (Inr ((r, d, cb), (if link r tr then Some p else None, cb \<and> link r tr), s'))"
    by blast
qed

theorem client_sends_exact_witness:
  "\<exists>s0 s p s'. clients_started (\<lambda>_. Inr ''p'') (\<lambda>_. 9) (\<lambda>_. ()) demo_group s0 \<and> run demo_client_step s0 demo_client_trace s \<and>
     run_client_turn s 9 OtherThread = Some (Inr ((1, [5], False), (Some p, False), s'))"
proof -
  obtain s0 s where
    d: "clients_started (\<lambda>_. Inr ''p'') (\<lambda>_. 9) (\<lambda>_. ()) demo_group s0" "run demo_client_step s0 demo_client_trace s"
    "cs_queue s (9, OtherThread) = [(1, [5], False)]"
    by (rule demo_client_run)
  have l: "link 1 demo_client_trace" by (simp add: demo_client_trace_def link_def)
  from client_sends_exact [OF d(2,1), THEN conjunct2, rule_format, OF d(3)] l obtain p s' where
    "run_client_turn s 9 OtherThread = Some (Inr ((1, [5], False), (Some p, False), s'))" by auto
  with d(1,2) show ?thesis by blast
qed

text \<open>
  C25. A send through a started group whose clients have pipeline factories that build pipelines:
  whatever their connections are doing, a broadcast is accepted and posted to exactly the connected
  clients, and any other strategy is accepted and posted to the one client that was drawn,
  connected or not; but if that client was stopped, the call uses the pointer that its \<open>Stop\<close> has
  reset.
\<close>

theorem group_send_outcome:
  assumes "run (client_step np) s0 tr s" "clients_started np base fac g s0"
    and "sv_clients g \<noteq> []" "length (sv_clients g) < 2 ^ 32"
    and "rand32 (word_of_nat (length (sv_clients g))) < word_of_nat (length (sv_clients g))"
  shows "let drawn = sv_clients g ! unat (rand32 (word_of_nat (length (sv_clients g))))
     in (\<exists>s'. group_send rand32 caller d kBroadCast s = Inr (filter (\<lambda>r. link r tr) (sv_clients g), s', True)) \<and>
        (\<forall>st. st \<noteq> kBroadCast \<longrightarrow>
           (if Happened drawn Stopped \<in> set tr then group_send rand32 caller d st s = Inl NullDeref
            else \<exists>s'. group_send rand32 caller d st s = Inr ([drawn], s', True)))"
proof -
  have inv: "client_inv base g tr s" by (rule client_run_inv [OF assms(1,2)])
  let ?clients = "sv_clients g" and ?n = "word_of_nat (length (sv_clients g)) :: u32"
  have u: "unat ?n = length ?clients" using assms(4) by (simp add: unsigned_of_nat take_bit_nat_eq_self)
  have i: "unat (rand32 ?n) < length ?clients" using assms(5) u by (simp add: word_less_nat_alt)
  have dom: "dom (cs_clients s) = set ?clients" and grp: "cs_group s = g" using inv unfolding client_inv_def by blast+
  have ok: "client_ok (base r) (link r tr) (Happened r Stopped \<in> set tr) c" if "cs_clients s r = Some c" for r c
    using inv that unfolding client_inv_def by blast
  have on: "online s r = link r tr" if r: "r \<in> set ?clients" for r
  proof -
    from r dom obtain c where c: "cs_clients s r = Some c" by blast
    then show ?thesis using ok [OF c] by (simp add: online_def client_ok_def)
  qed
  have bc: "TcpClientGroup_SendIOBuf rand32 (online s) g kBroadCast = Inr (filter (\<lambda>r. link r tr) ?clients, True)"
    using assms(3) on by (simp add: TcpClientGroup_SendIOBuf_def GetOnlineClients_def Let_def cong: filter_cong)
  have one: "TcpClientGroup_SendIOBuf rand32 (online s) g st = Inr ([?clients ! unat (rand32 ?n)], True)"
    if "st \<noteq> kBroadCast" for st
    using that assms(3) i
    by (cases st) (simp_all add: TcpClientGroup_SendIOBuf_def GetOnlineClients_def Let_def unat_ucast_u32)
  have "\<forall>r \<in> set (filter (\<lambda>r. link r tr) ?clients). \<exists>c. cs_clients s r = Some c \<and> SendIOBufThreadSafe c = Inr (base r)"
  proof
    fix r assume r: "r \<in> set (filter (\<lambda>r. link r tr) ?clients)"
    then have "r \<in> dom (cs_clients s)" and l: "link r tr" using dom by auto
    then obtain c where c: "cs_clients s r = Some c" by blast
    have "Happened r Stopped \<notin> set tr" using ok [OF c] l unfolding client_ok_def by presburger
    then show "\<exists>c. cs_clients s r = Some c \<and> SendIOBufThreadSafe c = Inr (base r)" using c client_ok_send(1) [OF ok [OF c]] by simp
  qed
  from send_each_ok [OF this, of caller d False]
  have "\<exists>s'. group_send rand32 caller d kBroadCast s = Inr (filter (\<lambda>r. link r tr) ?clients, s', True)"
    by (auto simp: group_send_def grp bc)
  moreover have "if Happened (?clients ! unat (rand32 ?n)) Stopped \<in> set tr then group_send rand32 caller d st s = Inl NullDeref
      else \<exists>s'. group_send rand32 caller d st s = Inr ([?clients ! unat (rand32 ?n)], s', True)" if "st \<noteq> kBroadCast" for st
  proof -
    have "?clients ! unat (rand32 ?n) \<in> dom (cs_clients s)" unfolding dom using i by (rule nth_mem)
    then obtain c where c: "cs_clients s (?clients ! unat (rand32 ?n)) = Some c" by blast
    show ?thesis using client_ok_send(1) [OF ok [OF c]] c by (simp add: group_send_def grp one [OF that])
  qed
  ultimately show ?thesis unfolding Let_def by blast
qed

theorem group_send_outcome_witness:
  "\<exists>s0 s s'. clients_started (\<lambda>_. Inr ''p'') (\<lambda>_. 9) (\<lambda>_. ()) demo_group s0 \<and> run demo_client_step s0 demo_client_trace s \<and>
     group_send (\<lambda>_. 1) None [7] kBroadCast s = Inr ([1], s', True) \<and>
     group_send (\<lambda>_. 1) None [7] kDefault s = Inl NullDeref"
proof -
  obtain s0 s where
    d: "clients_started (\<lambda>_. Inr ''p'') (\<lambda>_. 9) (\<lambda>_. ()) demo_group s0" "run demo_client_step s0 demo_client_trace s"
    by (rule demo_client_run)
  have g: "sv_clients demo_group = [1, 3]" by (simp add: demo_group_def)
  have len: "sv_clients demo_group \<noteq> []" "length (sv_clients demo_group) < 2 ^ 32"
    "(1 :: u32) < word_of_nat (length (sv_clients demo_group))" unfolding g by simp_all
  note res = group_send_outcome [where ?rand32.0 = "\<lambda>_. 1" and caller = None and d = "[7]", OF d(2,1) len, unfolded Let_def g]
  have tr: "link 1 demo_client_trace" "\<not> link 3 demo_client_trace" "Happened 3 Stopped \<in> set demo_client_trace"
    by (simp_all add: demo_client_trace_def link_def)
  from res [THEN conjunct1] obtain s' where "group_send (\<lambda>_. 1) None [7] kBroadCast s = Inr ([1], s', True)"
    using tr(1,2) by auto
  moreover have "group_send (\<lambda>_. 1) None [7] kDefault s = Inl NullDeref"
    using res [THEN conjunct2, rule_format, of kDefault] tr(3) by simp
  ultimately show ?thesis using d by blast
qed

end
