(* ===== verification/Spec2Isabelle.thy ===== *)
theory Spec2Isabelle
  imports Conn_Handler Conn_Routing IO_Thread_Pool Time_Util Call_Chain Snowflake Url_Codec Rendezvous Tcp_Client
    Service_Registry Router_Conns Servers Http_Requests Http_Client Root_Main Conn_System Hub_Runs
    Hub_Connections Fiber_Runs Pool_Runs Client_System
begin

text \<open>
  \<^bold>\<open>A verification development of ServiceFramework\<close>, a C++ network service framework on top of
  folly, wangle and proxygen, and of the server built on it, the IoT hub.

  \<^bold>\<open>The program.\<close> \<open>main\<close> (\<open>server/IotHubServer\<close>) constructs a \<open>Root\<close> (\<open>net/root\<close>), whose \<open>BaseMain\<close>
  (\<open>base/base_main\<close>) reads a JSON file through \<open>ConfigManager\<close> (\<open>base/config_manager\<close>) and hands
  each registered object its part. \<open>ThreadGroupListManager\<close> creates the thread pools and numbers
  the threads; \<open>ServiceManager\<close> (\<open>net/service_manager\<close>) creates the configured services from
  factories, registers them by name and starts them: TCP servers, TCP clients in groups, HTTP
  servers. Every event-loop thread has a \<open>ThreadLocalConnManager\<close> that gives connections 64-bit ids:
  the upper half is the thread index, the lower half the number on that thread. A buffer sent to
  an id is posted to the event base of that thread and written there. HTTP requests run on fibers
  kept by \<open>FiberDataManager\<close>, which the synchronous HTTP client also uses to wait. Beside this
  stand an older router over \<open>IOThreadPoolConnManager\<close>, rendezvous hashing, snowflake ids, call
  chains, and URL and time helpers.

  \<^bold>\<open>Theories\<close>, with the files under \<open>src/baselib\<close> they model:

  \<^item> \<open>Prelude\<close>: integer widths, abnormal termination as a value (\<open>'a res\<close>), vector access, 64-bit
    ids, the locale \<open>first_wins\<close> of registries in which the first registration of a name stays.
  \<^item> \<open>Transition_Systems\<close>: runs of a step relation and their labels, invariants of runs, and the
    locale \<open>simulation\<close>, by which the composed system is related to its parts.
  \<^item> \<open>Conn_Registry\<close>: the locale \<open>conn_registry\<close>, the contract of a table that hands out connection
    numbers, and what clients of such a table may rely on.
  \<^item> \<open>Thread_Local_Conn\<close> (\<open>net/thread_local_conn_manager\<close>) and \<open>IO_Thread_Pool\<close>
    (\<open>net/io_thread_pool_manager\<close>): the two providers, each an interpretation of \<open>conn_registry\<close>;
    allocation, closing, look-up and dispatch, across threads for the pool. \<open>Pool_Runs\<close> has all
    threads of a pool at work together, with the hops of a search interleaved with everything else.
  \<^item> \<open>Conn_Handler\<close> (\<open>net/conn_handler\<close>): the handler at the end of a pipeline, as a state machine over
    the events of its pipeline, against the connection table of its thread.
  \<^item> \<open>Pipelines\<close> (\<open>net/conn_pipeline_factory\<close>, \<open>net/simple_conn_*\<close>): the factories as the handler lists
    they build, which of them link, and the simple handler.
  \<^item> \<open>Config\<close> (\<open>base/config_util\<close>, \<open>base/config_manager\<close>, \<open>base/configuration\<close>, \<open>base/glog_util\<close>,
    \<open>IotHubUtil\<close>): JSON values, the \<open>SetConf\<close> functions and the manager of registered objects.
  \<^item> \<open>Thread_Groups\<close> (\<open>net/thread_group_list_manager\<close>) and \<open>Conn_Routing\<close> (\<open>ServiceManager::SendIOBuf\<close>):
    pools, thread indices, and the whole network as an inductive step relation in which connects,
    closes, sends and event-loop turns of all threads interleave. An event base has two lanes, one
    for closures of other threads and one for its own, each handled in order.
  \<^item> \<open>Conn_System\<close>: the handlers of every thread (\<open>Conn_Handler\<close>) on the tables and queues of the
    network (\<open>Conn_Routing\<close>) as one system, with its simulations.
  \<^item> \<open>Fiber_Data\<close> (\<open>net/fiber_data_manager\<close>): fibers, their states and the statistics.
  \<^item> \<open>Http_Requests\<close> (\<open>net/rabbit_http_handler\<close>, \<open>net/rabbit_http_request_handler\<close>): one request with its
    fiber task, as a step relation over the callbacks of proxygen.
  \<^item> \<open>Http_Client\<close> (\<open>net/server/http_client\<close>, \<open>net/rabbit_http_client\<close>): the reference-counted client, its
    callbacks, and the asynchronous and synchronous functions.
  \<^item> \<open>Fiber_Calls\<close> and \<open>Fiber_Runs\<close>: the synchronous functions of all fibers of one thread, interleaved
    over its \<open>FiberDataManager\<close>; the phases they are split into make up \<open>HttpClientSyncFetch\<close>.
  \<^item> \<open>Tcp_Client\<close> (\<open>net/base/client_bootstrap2.h\<close>, \<open>net/server/tcp_client\<close>, \<open>simple_tcp_client\<close>): connecting and
    reconnecting as a step relation.
  \<^item> \<open>Service_Registry\<close> (\<open>net/service_manager\<close>, \<open>net/base/service_factory_manager\<close>,
    \<open>net/server/tcp_client_group\<close>, \<open>net/service_router_manager\<close>) and \<open>Router_Conns\<close>: factories, the registry
    of services as shared objects in a store, client groups, and the router.
  \<^item> \<open>Client_System\<close>: the TCP clients of a \<open>TcpClientGroup\<close> as one system: sends through the group
    and the closures they post interleave with the connects, failures, timers and stops of the
    clients. The fields \<open>cs_clients\<close> and \<open>cs_queue\<close> are the client objects and the queues of their
    event bases. The repository's own \<open>ClientConnPipelineFactory\<close> cannot build a pipeline, so these
    clients have factories of an application.
  \<^item> \<open>Servers\<close> (\<open>net/server/tcp_server\<close>, \<open>tcp_server_t.h\<close>, \<open>http_server\<close>, \<open>http_server_lib\<close>,
    \<open>http_server_lib_acceptor\<close>): the listening services.
  \<^item> \<open>Root_Main\<close> (\<open>base/base_main\<close>, \<open>net/root\<close>, \<open>server/IotHubServer\<close>): the whole run of the program.
    \<open>Hub_Runs\<close> holds what follows for a run of the hub, and \<open>Hub_Connections\<close> ties the threads and
    services of a hub that reached its main loop to the network of \<open>Conn_Routing\<close> and \<open>Conn_System\<close>.
  \<^item> \<open>Time_Util\<close>, \<open>Call_Chain\<close> (\<open>message_util/call_chain_util\<close>), \<open>Snowflake\<close>
    (\<open>base/snowflake_id_util\<close>), \<open>Url_Codec\<close> (\<open>base/util\<close>), \<open>Rendezvous\<close>
    (\<open>base/config/rendezvous_hash\<close>): the helpers.

  \<^bold>\<open>How the code is translated.\<close> A class is a \<open>record\<close> of its members, an enumeration a \<open>datatype\<close>, a
  member function a function from the old to the new state. Integers keep their width as words.
  An exception, a failed \<open>CHECK\<close>, an out-of-range index, a null pointer and the use of a deleted
  object are the left side of \<open>'a res\<close>; an operation that would do one of these returns it. Objects
  shared by pointers (services, fibers, HTTP handlers) live in a store or carry a flag that tells
  whether they were deleted. Work that the code posts to another thread is data, and a step
  relation or a list of events says when it runs.

  \<^bold>\<open>What the theorems show.\<close> Connections: ids are fresh, lead back to the thread that made them, and
  through any interleaving a buffer reaches the pipeline its id was handed out to, in order and
  without loss; the table of a thread is exactly the set of connected handlers; a buffer is written
  exactly if its connection is live when its turn comes, nothing reaches a connection that was
  closed, and on a hub that serves, every accepted send is handled. Services: what is
  registered and started for a given configuration, whom a send by name reaches, and, from the
  configuration file to the main loop, what the hub runs, when it ends and with which status.
  Pools: what is written is what
  the history of connections and registrations calls for, and a search for a server that stays
  registered succeeds. HTTP: a request is answered at most once and, once complete, is answered; a client request calls
  back exactly once. Clients: a started TCP client always has exactly one activity and
  reconnects after a lost connection, but not after a failed attempt; over all clients of a group, a
  send reaches the clients the group picks, and each buffer is written exactly if its client is
  connected when its turn comes. Fibers: the table stays sound and a fiber can be found until it
  is deleted; concurrent synchronous calls do not disturb each other, use no deleted client, leak
  none, and the table holds exactly the calls that wait. Helpers: ids of one worker, of the threads of a process and of several hubs are
  distinct under the stated bounds; URL coding and header strings round-trip; rendezvous hashing
  picks the maximal score and, in exact arithmetic, keeps its choice when it is rebuilt without
  another cluster. The theorems of kind error
  prove behaviour that the sources do not intend.

  \<^bold>\<open>Bounds and fuel.\<close> Loops that search for a free number (\<open>new_conn_loop\<close>) and that wait for the clock
  (\<open>tilNextMillis\<close>) return \<open>None\<close> when they do not end; freshness and termination are proved for fewer
  than $2^{32}-1$ open connections. The theorems on runs of the network (\<open>Conn_Routing\<close>, \<open>Conn_System\<close>,
  \<open>Hub_Connections\<close>) are for fewer than $2^{32}$ connections opened on each thread over the run, closed
  ones counted, because the counter then comes round and ids of closed connections are reused; those
  on concurrent calls for fewer than $2^{32}-1$ calls begun on the thread. A clock is the list of its
  future readings. The restart loop of \<open>OnConnectionClosed\<close> and the loop of \<open>URLDecode\<close> are functions
  with termination proofs. A chain of posted closures (\<open>run_chain\<close>) has fuel, and one unit per thread
  is proved to be enough for a search. The main loop belongs to folly: \<open>loopForever\<close> is the list of what
  reaches it and runs the closures and the signal handler of \<open>root.cc\<close> on it; a run whose list is used
  up is still running.

  \<^bold>\<open>Parameters.\<close> Parsing JSON text, reading files, name resolution, \<open>folly::split\<close>, random numbers,
  floating-point operations and hash functions, \<open>Pipeline::finalize\<close>, binding of ports, the threads
  of a new pool, whether a host can be resolved: each is an argument, and what a theorem needs of it
  is a named assumption.

  \<^bold>\<open>Not modelled.\<close> The bodies of folly, wangle, proxygen and glog; log messages; the initialisation of
  gflags and glog in \<open>DoMain\<close>; the UDP classes, which are empty; \<open>service_plugin.h\<close>, which includes
  headers that do not exist; the interfaces without implementation in \<open>factory_object.h\<close> and
  \<open>default_pipeline_factory.h\<close>; the test programs; code that the build excludes
  (\<open>FIBER_OBJ_POOL\<close>, the variant of \<open>onEOM\<close> without fibers); the cast of a
  group of clients to \<open>TcpClient\<close>, which cannot fail because \<open>TcpClientGroupFactory\<close> is never registered.
  Data races on plain members are not
  modelled: each operation of a thread is one step.
\<close>

section \<open>Ids of several hubs\<close>

text \<open>The ids that a process hands out in a sequence of calls on its threads.\<close>

fun next_ids :: "(u64 \<times> 'th \<times> timeval list) list \<Rightarrow> 'th snowflake \<Rightarrow> u64 list option" where
  "next_ids [] s = Some []"
| "next_ids ((ind, th, clock) # calls) s =
     (case GetNextIDBySnowflake ind s th clock of
        None \<Rightarrow> None
      | Some (x, s', _) \<Rightarrow> map_option ((#) x) (next_ids calls s'))"

definition all_workers :: "u16 \<Rightarrow> 'th snowflake \<Rightarrow> bool" where
  "all_workers w s \<longleftrightarrow> g_worker_id s = w \<and> (\<forall>th v. id_workers s th = Some v \<longrightarrow> worker_id v = w)"

lemma GetNextID_all_workers:
  assumes "all_workers w s" "GetNextIDBySnowflake ind s th clock = Some (x, s', cs)"
  shows "all_workers w s' \<and> (\<exists>t d n. x = make_id t d w n)"
proof -
  obtain v s1 where g: "GetIdWorkerByThreadLocal ind s th = (v, s1)" by fastforce
  have v: "worker_id v = w" "all_workers w s1"
    using g assms(1) by (auto simp: GetIdWorkerByThreadLocal_def all_workers_def new_IdWorker_def Let_def
        split: option.splits if_splits)
  from assms(2) g obtain v' where n: "IdWorker_GetNextID v clock = Some (x, v', cs)"
    and s': "s' = s1\<lparr>id_workers := (id_workers s1)(th \<mapsto> v')\<rparr>"
    by (auto simp: GetNextIDBySnowflake_def split: option.splits)
  note k = IdWorker_GetNextID_keeps [OF n]
  show ?thesis using v k by (auto simp: all_workers_def s')
qed

lemma next_ids_worker:
  "all_workers w s \<Longrightarrow> next_ids calls s = Some xs \<Longrightarrow> x \<in> set xs \<Longrightarrow> \<exists>t d n. x = make_id t d w n"
proof (induction calls s arbitrary: xs rule: next_ids.induct)
  case (2 ind th clock calls s)
  then obtain y s' cs ys where n: "GetNextIDBySnowflake ind s th clock = Some (y, s', cs)"
    and ys: "next_ids calls s' = Some ys" "xs = y # ys"
    by (auto split: option.splits)
  note a = GetNextID_all_workers [OF "2.prems"(1) n]
  show ?case using "2.IH" [OF n refl refl _ ys(1)] a "2.prems"(3) ys(2) by auto
qed simp

text \<open>
  C30. Hubs of one installation never hand out the same id, as long as their configured server
  numbers differ modulo 32, whatever their threads and clocks do after the start.
\<close>

theorem hubs_never_share_ids:
  fixes s1 :: "('h, 'e, 'p, 'th) main_state" and s2 :: "('h2, 'e2, 'p2, 'th2) main_state"
  assumes "IotHubServer_main flags1 number1 env1 evb1 events1 = Inr (s1, e1)" "serving e1"
    and "IotHubServer_main flags2 number2 env2 evb2 events2 = Inr (s2, e2)" "serving e2"
    and "env_readFile env1 (config_path env1) = Some data1" "env_parse env1 data1 = Some j1"
    and "env_readFile env2 (config_path env2) = Some data2" "env_parse env2 data2 = Some j2"
    and "json_find j1 ''iot_hub_server'' = Some h1" "json_find h1 ''server_number'' = Some (JUInt k1)"
    and "json_find j2 ''iot_hub_server'' = Some h2" "json_find h2 ''server_number'' = Some (JUInt k2)"
    and "k1 mod 32 \<noteq> k2 mod 32"
    and "next_ids calls1 (ms_snowflake s1) = Some xs" "next_ids calls2 (ms_snowflake s2) = Some ys"
  shows "set xs \<inter> set ys = {}"
proof -
  have w: "all_workers (word_of_nat k1) (ms_snowflake s1)" "all_workers (word_of_nat k2) (ms_snowflake s2)"
    using hub_worker_number [OF assms(1,2,5,6,9,10)] hub_worker_number [OF assms(3,4,7,8,11,12)]
    by (simp_all add: all_workers_def)
  have m: "unat (word_of_nat k :: u16) mod 2 ^ 5 = k mod 32" for k
    by (simp add: unsigned_of_nat take_bit_eq_mod mod_mod_cancel)
  show ?thesis
  proof (rule ccontr)
    assume "set xs \<inter> set ys \<noteq> {}"
    then obtain x where x: "x \<in> set xs" "x \<in> set ys" by blast
    obtain t d n where "x = make_id t d (word_of_nat k1) n" using next_ids_worker [OF w(1) assms(14) x(1)] by blast
    moreover obtain t' d' n' where "x = make_id t' d' (word_of_nat k2) n'"
      using next_ids_worker [OF w(2) assms(15) x(2)] by blast
    ultimately show False using assms(13) m by (simp add: make_id_eq_mod)
  qed
qed

theorem hubs_never_share_ids_witness:
  "\<exists>(s1 :: (nat \<times> nat, nat \<times> nat, string, nat) main_state) (s2 :: (nat \<times> nat, nat \<times> nat, string, nat) main_state)
     e1 e2 x y.
     IotHubServer_main demo_flags 0 (demo_hub_env 7 demo_threads
       [demo_service ''iot_hub_server'' ''tcp_server'', demo_service ''web'' ''http_server''] (\<lambda>_. Inr ())) (9, 9)
       [Due, Signal 15] = Inr (s1, e1) \<and>
     IotHubServer_main demo_flags 0 (demo_hub_env 8 demo_threads
       [demo_service ''iot_hub_server'' ''tcp_server'', demo_service ''web'' ''http_server''] (\<lambda>_. Inr ())) (9, 9)
       [Due, Signal 15] = Inr (s2, e2) \<and>
     next_ids [(0, 3, [\<lparr>tv_sec = 5, tv_usec = 0\<rparr>])] (ms_snowflake s1) = Some [x] \<and>
     next_ids [(0, 3, [\<lparr>tv_sec = 5, tv_usec = 0\<rparr>])] (ms_snowflake s2) = Some [y] \<and> x \<noteq> y"
proof -
  let ?sv = "[demo_service ''iot_hub_server'' ''tcp_server'', demo_service ''web'' ''http_server'']"
  let ?env = "\<lambda>k. demo_hub_env k demo_threads ?sv (\<lambda>_. Inr ())"
  obtain s1 :: "(nat \<times> nat, nat \<times> nat, string, nat) main_state" and e1
    where m1: "IotHubServer_main demo_flags 0 (?env 7) (9, 9) [Due, Signal 15] = Inr (s1, e1)" "serving e1"
    using demo_hub_serves [of 7] by blast
  obtain s2 :: "(nat \<times> nat, nat \<times> nat, string, nat) main_state" and e2
    where m2: "IotHubServer_main demo_flags 0 (?env 8) (9, 9) [Due, Signal 15] = Inr (s2, e2)" "serving e2"
    using demo_hub_serves [of 8] by blast
  have f: "env_readFile (?env k) (config_path (?env k)) = Some []"
    "env_parse (?env k) [] = Some (demo_hub_json k demo_threads ?sv)"
    "json_find (demo_hub_json k demo_threads ?sv) ''iot_hub_server'' = Some (JObject [(''server_number'', JUInt k)])"
    "json_find (JObject [(''server_number'', JUInt k)]) ''server_number'' = Some (JUInt k)" for k
    by simp_all
  let ?calls = "[(0, 3, [\<lparr>tv_sec = 5, tv_usec = 0\<rparr>])] :: (u64 \<times> nat \<times> timeval list) list"
  have one: "\<exists>x. next_ids ?calls sn = Some [x]" if "id_workers sn = Map.empty" for sn
    using that by (simp add: GetNextIDBySnowflake_def GetIdWorkerByThreadLocal_def new_IdWorker_def IdWorker_GetNextID_def
        nowInMsec_def trunc_div_def Let_def)
  obtain x where x: "next_ids ?calls (ms_snowflake s1) = Some [x]"
    using one hub_worker_number [OF m1 f(1,2,3,4)] by blast
  obtain y where y: "next_ids ?calls (ms_snowflake s2) = Some [y]"
    using one hub_worker_number [OF m2 f(1,2,3,4)] by blast
  have "(7 :: nat) mod 32 \<noteq> 8 mod 32" by simp
  from hubs_never_share_ids [OF m1 m2 f(1,2) f(1,2) f(3,4) f(3,4) this x y] have "x \<noteq> y" by simp
  with m1 m2 x y show ?thesis
    by (intro exI [of _ s1] exI [of _ s2] exI [of _ e1] exI [of _ e2] exI [of _ x] exI [of _ y] conjI) assumption+
qed

end
